(* ===== verification/Prelude.thy ===== *)
theory Prelude
  imports Main "HOL-Library.Word"
begin

text \<open>
  Shared vocabulary of the development: the machine integers and byte vectors of the C++ sources,
  the result type that stands for \<^verbatim>\<open>bool f(..., std::string* error)\<close> and for
  \<^verbatim>\<open>throw std::runtime_error(...)\<close>, big-endian byte strings and C strings as byte strings.
\<close>

unbundle bit_operations_syntax

named_theorems wire_simps \<open>how the sources' shifts, masks and memory copies read as big-endian bytes\<close>

subsection \<open>Machine integers, byte vectors, results\<close>

type_synonym u8 = "8 word"
type_synonym u16 = "16 word"
type_synonym u32 = "32 word"
type_synonym u64 = "64 word"

text \<open>A C++ \<^verbatim>\<open>int32_t\<close> or \<^verbatim>\<open>int64_t\<close> is its two's complement word; \<^const>\<open>sint\<close> reads its value.\<close>

type_synonym i32 = "32 word"
type_synonym i64 = "64 word"

type_synonym bytes = "u8 list"

text \<open>A call that can fail: \<open>Inl\<close> carries the text the code stores in \<^verbatim>\<open>*error\<close> or throws.\<close>

type_synonym 'a res = "string + 'a"

definition res_bind :: "'a res \<Rightarrow> ('a \<Rightarrow> 'b res) \<Rightarrow> 'b res" where
  "res_bind m f = (case m of Inl e \<Rightarrow> Inl e | Inr x \<Rightarrow> f x)"

lemma res_bind_simps [simp]:
  "res_bind (Inl e) f = Inl e"
  "res_bind (Inr x) f = f x"
  by (simp_all add: res_bind_def)

lemma res_bind_Inr_iff: "res_bind m f = Inr y \<longleftrightarrow> (\<exists>x. m = Inr x \<and> f x = Inr y)"
  by (cases m) auto

lemma res_bind_InrE [elim!]:
  assumes "res_bind m f = Inr y"
  obtains x where "m = Inr x" "f x = Inr y"
  using assms by (auto simp: res_bind_Inr_iff)

lemma res_bind_assoc: "res_bind (res_bind m f) g = res_bind m (\<lambda>x. res_bind (f x) g)"
  by (cases m) simp_all

lemma if_Inl_eq_Inr [simp]:
  "((if c then Inl e else m) = Inr y) \<longleftrightarrow> (\<not> c \<and> m = Inr y)"
  by simp

lemma res_bind_if [simp]:
  "res_bind (if c then Inl e else m) f = (if c then Inl e else res_bind m f)"
  by simp

subsection \<open>Big-endian byte strings\<close>

fun be_nat :: "bytes \<Rightarrow> nat" where
  "be_nat [] = 0"
| "be_nat (b # bs) = unat b * 256 ^ length bs + be_nat bs"

primrec be_of_nat :: "nat \<Rightarrow> nat \<Rightarrow> bytes" where
  "be_of_nat 0 k = []"
| "be_of_nat (Suc n) k = be_of_nat n (k div 256) @ [word_of_nat k]"

definition be_bytes :: "nat \<Rightarrow> 'a::len word \<Rightarrow> bytes" where
  "be_bytes n v = be_of_nat n (unat v)"

definition be_word :: "bytes \<Rightarrow> 'a::len word" where
  "be_word bs = word_of_nat (be_nat bs)"

lemma unat_u8_less [simp]: "unat (b :: u8) < 256"
  using unsigned_less [of b, where 'a = nat] by simp

lemma be_nat_append: "be_nat (xs @ ys) = be_nat xs * 256 ^ length ys + be_nat ys"
  by (induction xs) (auto simp: algebra_simps power_add)

lemma be_nat_less: "be_nat bs < 256 ^ length bs"
proof (induction bs)
  case (Cons b bs)
  have "unat b * 256 ^ length bs + be_nat bs < unat b * 256 ^ length bs + 256 ^ length bs"
    using Cons by simp
  also have "\<dots> = (unat b + 1) * 256 ^ length bs" by (simp add: algebra_simps)
  also have "\<dots> \<le> 256 * 256 ^ length bs"
    using unat_u8_less [of b] by (intro mult_le_mono1) linarith
  finally show ?case by simp
qed simp

lemma length_be_of_nat [simp]: "length (be_of_nat n k) = n"
  by (induction n arbitrary: k) simp_all

lemma length_be_bytes [simp]: "length (be_bytes n v) = n"
  by (simp add: be_bytes_def)

lemma be_nat_be_of_nat: "be_nat (be_of_nat n k) = k mod 256 ^ n"
proof (induction n arbitrary: k)
  case (Suc n)
  have "k mod 256 ^ Suc n = (k div 256) mod 256 ^ n * 256 + k mod 256"
    by (simp add: mod_mult2_eq)
  then show ?case
    by (simp add: Suc be_nat_append unat_of_nat)
qed simp

lemma be_of_nat_be_nat: "be_of_nat (length bs) (be_nat bs) = bs"
proof (induction bs rule: rev_induct)
  case (snoc b bs)
  have "(be_nat bs * 256 + unat b) div 256 = be_nat bs"
    using unat_u8_less [of b] by linarith
  moreover have "word_of_nat (be_nat bs * 256 + unat b) = b"
    by (rule word_unat_eq_iff [THEN iffD2]) (simp add: unat_of_nat del: of_nat_add of_nat_mult)
  ultimately show ?case
    by (simp add: be_nat_append snoc)
qed simp

lemma pow_256: "(256 :: nat) ^ n = 2 ^ (8 * n)"
  by (simp add: power_mult)

lemma be_word_be_bytes:
  "LENGTH('a::len) \<le> 8 * n \<Longrightarrow> be_word (be_bytes n (v :: 'a word)) = v"
proof -
  assume len: "LENGTH('a) \<le> 8 * n"
  have "unat v < 2 ^ LENGTH('a)" by (rule unsigned_less)
  also have "\<dots> \<le> 2 ^ (8 * n)" using len by (intro power_increasing) simp_all
  finally have "unat v mod 256 ^ n = unat v" by (simp add: pow_256)
  then show ?thesis by (simp add: be_word_def be_bytes_def be_nat_be_of_nat)
qed

lemma unat_be_word:
  "8 * length bs \<le> LENGTH('a::len) \<Longrightarrow> unat (be_word bs :: 'a word) = be_nat bs"
proof -
  assume len: "8 * length bs \<le> LENGTH('a)"
  have "be_nat bs < 2 ^ (8 * length bs)" using be_nat_less [of bs] by (simp add: pow_256)
  also have "\<dots> \<le> 2 ^ LENGTH('a)" using len by (intro power_increasing) simp_all
  finally show ?thesis by (simp add: be_word_def unat_of_nat)
qed

lemma be_bytes_be_word:
  "length bs = n \<Longrightarrow> 8 * n \<le> LENGTH('a::len) \<Longrightarrow> be_bytes n (be_word bs :: 'a word) = bs"
  using be_of_nat_be_nat [of bs] unat_be_word [of bs, where 'a='a] by (simp add: be_bytes_def)

lemma be_word_eq_iff:
  "length bs = n \<Longrightarrow> LENGTH('a::len) = 8 * n \<Longrightarrow> be_word bs = (v :: 'a word) \<longleftrightarrow> bs = be_bytes n v"
  using be_bytes_be_word [of bs n, where 'a='a] be_word_be_bytes [of n v] by auto

lemma be_of_nat_add: "be_of_nat (m + n) k = be_of_nat m (k div 256 ^ n) @ be_of_nat n k"
  by (induction n arbitrary: k) (simp_all add: div_mult2_eq mult.commute)

lemma be_of_nat_Suc_Cons: "be_of_nat (Suc n) k = word_of_nat (k div 256 ^ n) # be_of_nat n k"
  using be_of_nat_add [of 1 n k] by simp

text \<open>Evaluation on concrete widths.\<close>

lemma be_of_nat_numeral:
  "be_of_nat (numeral n) k = be_of_nat (pred_numeral n) (k div 256) @ [word_of_nat k]"
  by (simp add: numeral_eq_Suc [of n])

lemmas be_eval = be_bytes_def be_word_def be_of_nat_numeral

text \<open>The widths the sources use.\<close>

lemma be_word_be_bytes_widths [simp]:
  "be_word (be_bytes 1 (v8 :: u8)) = v8"
  "be_word (be_bytes 2 (v16 :: u16)) = v16"
  "be_word (be_bytes 4 (v32 :: u32)) = v32"
  "be_word (be_bytes 8 (v64 :: u64)) = v64"
  by (simp_all add: be_word_be_bytes)

lemma be_bytes_u8 [simp]: "be_bytes (Suc 0) (b :: u8) = [b]"
  by (simp add: be_bytes_def)

lemma be_word_single [simp]: "be_word [b] = (b :: u8)"
  by (simp add: be_word_def)

subsection \<open>C strings\<close>

text \<open>\<^verbatim>\<open>std::string\<close> is a sequence of bytes; the model keeps HOL strings and converts at the wire.\<close>

definition byte_of_char :: "char \<Rightarrow> u8" where
  "byte_of_char c = word_of_nat (of_char c)"

definition char_of_byte :: "u8 \<Rightarrow> char" where
  "char_of_byte b = char_of (unat b)"

definition bytes_of_string :: "string \<Rightarrow> bytes" where
  "bytes_of_string s = map byte_of_char s"

definition string_of_bytes :: "bytes \<Rightarrow> string" where
  "string_of_bytes bs = map char_of_byte bs"

lemma char_of_byte_of_char [simp]: "char_of_byte (byte_of_char c) = c"
proof -
  have "(of_char c :: nat) < 256" using of_char_mod_256 [of c, where 'a = nat] by (metis mod_less_divisor zero_less_numeral)
  then show ?thesis by (simp add: char_of_byte_def byte_of_char_def unat_of_nat)
qed

lemma byte_of_char_of_byte [simp]: "byte_of_char (char_of_byte b) = b"
  by (simp add: char_of_byte_def byte_of_char_def of_char_of)

lemma string_of_bytes_of_string [simp]: "string_of_bytes (bytes_of_string s) = s"
  by (simp add: string_of_bytes_def bytes_of_string_def comp_def)

lemma bytes_of_string_of_bytes [simp]: "bytes_of_string (string_of_bytes bs) = bs"
  by (simp add: string_of_bytes_def bytes_of_string_def comp_def)

lemma length_bytes_of_string [simp]: "length (bytes_of_string s) = length s"
  by (simp add: bytes_of_string_def)

lemma length_string_of_bytes [simp]: "length (string_of_bytes bs) = length bs"
  by (simp add: string_of_bytes_def)

lemma bytes_of_string_eq_Nil [simp]: "bytes_of_string s = [] \<longleftrightarrow> s = []"
  by (simp add: bytes_of_string_def)

text \<open>\<^verbatim>\<open>std::to_string\<close> of an unsigned integer.\<close>

fun to_string :: "nat \<Rightarrow> string" where
  "to_string n = (if n < 10 then [char_of (48 + n)] else to_string (n div 10) @ [char_of (48 + n mod 10)])"

declare to_string.simps [simp del]

definition digits_value :: "string \<Rightarrow> nat" where
  "digits_value s = foldl (\<lambda>acc c. acc * 10 + (of_char c - 48)) 0 s"

lemma digits_value_to_string: "digits_value (to_string n) = n"
proof (induction n rule: to_string.induct)
  case (1 n)
  then show ?case
    by (cases "n < 10") (simp_all add: to_string.simps [of n] digits_value_def of_char_of)
qed

lemma to_string_inject [simp]: "to_string m = to_string n \<longleftrightarrow> m = n"
  by (metis digits_value_to_string)

lemma to_string_digits: "c \<in> set (to_string n) \<Longrightarrow> 48 \<le> (of_char c :: nat) \<and> (of_char c :: nat) \<le> 57"
proof (induction n rule: to_string.induct)
  case (1 n)
  then show ?case
    by (cases "n < 10") (auto simp: to_string.simps [of n] of_char_of)
qed

end
