(* ===== verification/Wire.thy ===== *)
theory Wire
  imports Prelude
begin

text \<open>
  Wire formats, one field at a time.  Every decoder of the repository keeps a frame and an offset,
  checks with its own \<^verbatim>\<open>take\<close> that the next field fits, copies it out and advances.  \<open>cursor\<close>
  says where a decoder stands; the locale \<open>wire_field\<close> is the contract between a reader and the
  bytes it reads (what is written is read back; what is read was written there), and its lemmas are
  what a whole-frame decoder needs: prefix freedom, bounds of the new offset, exact frames.
  \<open>wire_pair\<close> and \<open>wire_repeat\<close> build the contract of a record and of a counted list from
  the contracts of their fields.
\<close>

text \<open>\<^verbatim>\<open>append_bytes\<close>, the same in every codec: insert at the end of the output vector.\<close>

definition append_bytes :: "bytes \<Rightarrow> bytes \<Rightarrow> bytes" where
  "append_bytes out data = out @ data"

subsection \<open>Reading by shifting\<close>

text \<open>\<^verbatim>\<open>(result << 8) | byte\<close>, the loop body of the decoders that do not copy host memory.\<close>

definition shift_in :: "'a::len word \<Rightarrow> u8 \<Rightarrow> 'a word" where
  "shift_in r b = push_bit 8 r OR ucast b"

lemma shift_in_eq: "shift_in r b = r * 256 + word_of_nat (unat b)"
proof -
  have "shift_in r b = push_bit 8 r + ucast b"
    unfolding shift_in_def
    by (rule disjunctive_add [symmetric]) (auto simp: bit_simps dest: bit_imp_le_length)
  moreover have "push_bit 8 r = r * 256" by (simp add: push_bit_eq_mult)
  ultimately show ?thesis by simp
qed

lemma foldl_shift_in: "foldl shift_in (word_of_nat k) bs = (word_of_nat (k * 256 ^ length bs + be_nat bs) :: 'a::len word)"
proof (induction bs arbitrary: k)
  case (Cons b bs)
  have "shift_in (word_of_nat k) b = (word_of_nat (k * 256 + unat b) :: 'a word)" by (simp add: shift_in_eq)
  with Cons [of "k * 256 + unat b"] show ?case by (simp add: algebra_simps)
qed simp

lemma foldl_shift_in_0: "foldl shift_in 0 bs = be_word bs"
  using foldl_shift_in [of 0 bs] by (simp add: be_word_def)

text \<open>\<^verbatim>\<open>uint8_t(v >> (i * 8))\<close>, the loop body of the encoders that do not copy host memory.\<close>

lemma ucast_drop_bit: "(ucast (drop_bit (n * 8) v) :: u8) = word_of_nat (unat v div 256 ^ n)"
proof -
  have "unat (drop_bit (n * 8) v) = unat v div 256 ^ n"
    by (subst unat_drop_bit_eq) (simp add: drop_bit_eq_div pow_256 mult.commute)
  then show ?thesis by (metis of_nat_unat)
qed

lemma be_of_nat_numeral_Cons:
  "be_of_nat (numeral n) k = word_of_nat (k div 256 ^ pred_numeral n) # be_of_nat (pred_numeral n) k"
  by (simp add: numeral_eq_Suc [of n] be_of_nat_Suc_Cons del: be_of_nat.simps)

lemma be_bytes_shifts:
  "be_bytes 2 v = [ucast (drop_bit 8 v), ucast v]"
  "be_bytes 4 v = [ucast (drop_bit 24 v), ucast (drop_bit 16 v), ucast (drop_bit 8 v), ucast v]"
  "be_bytes 8 v = [ucast (drop_bit 56 v), ucast (drop_bit 48 v), ucast (drop_bit 40 v), ucast (drop_bit 32 v),
     ucast (drop_bit 24 v), ucast (drop_bit 16 v), ucast (drop_bit 8 v), ucast v]"
  using ucast_drop_bit [of 0 v] ucast_drop_bit [of 1 v] ucast_drop_bit [of 2 v] ucast_drop_bit [of 3 v] ucast_drop_bit [of 4 v]
    ucast_drop_bit [of 5 v] ucast_drop_bit [of 6 v] ucast_drop_bit [of 7 v]
  by (simp_all add: be_bytes_def be_of_nat_numeral_Cons)

subsection \<open>The cursor\<close>

definition bytes_at :: "bytes \<Rightarrow> nat \<Rightarrow> nat \<Rightarrow> bytes" where
  "bytes_at f off n = take n (drop off f)"

definition take_or :: "string \<Rightarrow> nat \<Rightarrow> nat \<Rightarrow> nat \<Rightarrow> unit res" where
  "take_or msg need sz off = (if off > sz \<or> need > sz - off then Inl msg else Inr ())"

definition cursor :: "bytes \<Rightarrow> nat \<Rightarrow> bytes \<Rightarrow> bool" where
  "cursor f off r \<longleftrightarrow> off \<le> length f \<and> drop off f = r"

lemma cursor_start [simp]: "cursor f 0 r \<longleftrightarrow> f = r"
  by (simp add: cursor_def)

lemma cursor_length: "cursor f off r \<Longrightarrow> length f = off + length r"
  by (auto simp: cursor_def)

lemma cursor_advance: "cursor f off (a @ q) \<Longrightarrow> cursor f (off + length a) q"
proof -
  assume c: "cursor f off (a @ q)"
  then have "drop (off + length a) f = drop (length a) (a @ q)"
    unfolding cursor_def by (metis add.commute drop_drop)
  with cursor_length [OF c] show ?thesis by (simp add: cursor_def)
qed

lemma cursor_skip: "cursor f off r \<Longrightarrow> n \<le> length r \<Longrightarrow> cursor f (off + n) (drop n r)"
  using cursor_advance [of f off "take n r" "drop n r"] by (simp add: min.absorb2)

lemma cursor_bytes_at: "cursor f off r \<Longrightarrow> bytes_at f off n = take n r"
  by (simp add: cursor_def bytes_at_def)

lemma cursor_nth: "cursor f off r \<Longrightarrow> n < length r \<Longrightarrow> f ! (off + n) = r ! n"
  by (auto simp: cursor_def)

lemma cursor_take_or:
  "cursor f off r \<Longrightarrow> take_or m n (length f) off = (if n \<le> length r then Inr () else Inl m)"
  by (auto simp: cursor_def take_or_def)

lemma cursor_end: "cursor f off r \<Longrightarrow> off = length f \<longleftrightarrow> r = []"
  by (auto dest: cursor_length)

lemma take_or_Inr_iff [simp]:
  "take_or m n sz off = Inr u \<longleftrightarrow> off + n \<le> sz"
  by (auto simp: take_or_def)

lemma take_or_ok [simp]: "off + n \<le> sz \<Longrightarrow> take_or m n sz off = Inr ()"
  by simp

lemma take_or_fail [simp]: "sz < off + n \<Longrightarrow> take_or m n sz off = Inl m"
  by (auto simp: take_or_def)

text \<open>What a reader may assume of the bytes it copies once \<^verbatim>\<open>take\<close> has succeeded.\<close>

lemma length_bytes_at [simp]: "off + n \<le> length f \<Longrightarrow> length (bytes_at f off n) = n"
  by (simp add: bytes_at_def)

lemma bytes_at_bytes_at: "a + b \<le> n \<Longrightarrow> bytes_at (bytes_at f off n) a b = bytes_at f (off + a) b"
  by (simp add: bytes_at_def take_drop min_def add.commute)

lemma hd_bytes_at: "off < length f \<Longrightarrow> 0 < n \<Longrightarrow> hd (bytes_at f off n) = f ! off"
  by (simp add: bytes_at_def hd_drop_conv_nth)

lemma tl_bytes_at: "tl (bytes_at f off n) = bytes_at f (off + 1) (n - 1)"
  by (simp add: bytes_at_def tl_take tl_drop drop_Suc)

lemma take_bytes_at: "take k (bytes_at f off n) = bytes_at f off (min k n)"
  by (simp add: bytes_at_def)

lemma drop_bytes_at: "drop k (bytes_at f off n) = bytes_at f (off + k) (n - k)"
  by (simp add: bytes_at_def drop_take add.commute)

lemma bytes_at_one [simp]: "off < length f \<Longrightarrow> bytes_at f off (Suc 0) = [f ! off]"
  by (simp add: bytes_at_def take_Suc hd_drop_conv_nth)

lemmas bytes_at_parts = hd_bytes_at tl_bytes_at take_bytes_at drop_bytes_at

text \<open>The 8-byte header (magic, version, type, one more byte) of BRK1 and WSM1.\<close>

lemma split_header:
  assumes "8 \<le> length f"
  shows "take 8 f = bytes_at f 0 4 @ bytes_at f 4 2 @ bytes_at f 6 1 @ bytes_at f 7 1"
proof -
  have "take 8 f = take 4 f @ take 4 (drop 4 f)" using take_add [of 4 4 f] by simp
  moreover have "take 4 (drop 4 f) = take 2 (drop 4 f) @ take 2 (drop 6 f)"
    using take_add [of 2 2 "drop 4 f"] by (simp add: add.commute)
  moreover have "take 2 (drop 6 f) = take 1 (drop 6 f) @ take 1 (drop 7 f)"
    using take_add [of 1 1 "drop 6 f"] by (simp add: add.commute numeral_2_eq_2)
  ultimately show ?thesis by (simp add: bytes_at_def)
qed

lemma take_or_cong:
  "m = m' \<Longrightarrow> n = n' \<Longrightarrow> sz = sz' \<Longrightarrow> off = off' \<Longrightarrow>
   (\<And>u. off' + n' \<le> sz' \<Longrightarrow> f u = g u) \<Longrightarrow>
   res_bind (take_or m n sz off) f = res_bind (take_or m' n' sz' off') g"
  by (auto simp: take_or_def)

lemmas cursor_simps = cursor_take_or cursor_bytes_at cursor_nth

subsection \<open>The contract of one field\<close>

locale wire_field =
  fixes enc :: "'a \<Rightarrow> bytes"
    and rd :: "bytes \<Rightarrow> nat \<Rightarrow> ('a \<times> nat) res"
    and ok :: "'a \<Rightarrow> bool"
  assumes rd_enc: "cursor f off (enc x @ q) \<Longrightarrow> ok x \<Longrightarrow> rd f off = Inr (x, off + length (enc x))"
    and rd_sound: "cursor f off r \<Longrightarrow> rd f off = Inr (x, off') \<Longrightarrow>
      ok x \<and> off' = off + length (enc x) \<and> (\<exists>q. r = enc x @ q)"
begin

lemma rd_soundE:
  assumes "cursor f off r" "rd f off = Inr (x, off')"
  obtains q where "ok x" "off' = off + length (enc x)" "r = enc x @ q" "cursor f off' q"
  using rd_sound [OF assms] assms(1) by (auto intro: cursor_advance)

lemma rd_in_bounds:
  assumes "cursor f off r" "rd f off = Inr (x, off')"
  shows "off \<le> off' \<and> off' \<le> length f"
  using cursor_length [OF assms(1)] rd_sound [OF assms] by force

lemma enc_prefix_free:
  assumes "ok x" "ok y" "enc x @ p = enc y @ q"
  shows "x = y \<and> p = q"
proof -
  have "rd (enc x @ p) 0 = Inr (x, length (enc x))" using assms(1) by (simp add: rd_enc)
  moreover have "rd (enc x @ p) 0 = Inr (y, length (enc y))"
    using assms(2,3) by (simp add: rd_enc)
  ultimately show ?thesis using assms(3) by auto
qed

lemma rd_exact_at:
  assumes c: "cursor f off r"
  shows "rd f off = Inr (x, length f) \<longleftrightarrow> ok x \<and> r = enc x"
proof
  assume rd: "rd f off = Inr (x, length f)"
  from rd_sound [OF c rd] cursor_length [OF c] show "ok x \<and> r = enc x" by auto
next
  assume "ok x \<and> r = enc x"
  with c rd_enc [of f off x "[]"] cursor_length [OF c] show "rd f off = Inr (x, length f)" by simp
qed

lemma rd_exact: "rd f 0 = Inr (x, length f) \<longleftrightarrow> ok x \<and> f = enc x"
  by (rule rd_exact_at) simp

text \<open>A frame that reads exactly is not a proper prefix of another one, nor an extension of one.\<close>

lemma rd_exact_unique_end:
  assumes "ok x" "rd (enc x @ q) 0 = Inr (y, length (enc x @ q))"
  shows "q = [] \<and> y = x"
proof -
  from assms(2) have "ok y" "enc x @ q = enc y @ []" by (simp_all only: rd_exact append_Nil2)
  with enc_prefix_free [OF assms(1)] show ?thesis by blast
qed

end

subsection \<open>Two fields in sequence, and a counted list of fields\<close>

definition seq_rd ::
  "(bytes \<Rightarrow> nat \<Rightarrow> ('a \<times> nat) res) \<Rightarrow> (bytes \<Rightarrow> nat \<Rightarrow> ('b \<times> nat) res) \<Rightarrow>
   bytes \<Rightarrow> nat \<Rightarrow> (('a \<times> 'b) \<times> nat) res" where
  "seq_rd r1 r2 f off =
     res_bind (r1 f off) (\<lambda>(x, off). res_bind (r2 f off) (\<lambda>(y, off). Inr ((x, y), off)))"

lemma res_bind_case_prod [simp]:
  "res_bind (case p of (x, y) \<Rightarrow> A x y) g = (case p of (x, y) \<Rightarrow> res_bind (A x y) g)"
  by (simp split: prod.split)

text \<open>Right-nested binds, the shape in which the sources' \<^verbatim>\<open>||\<close>-chains are written.\<close>

lemmas seq_rd_norm = seq_rd_def res_bind_assoc

locale wire_pair =
  a: wire_field enc1 rd1 ok1 + b: wire_field enc2 rd2 ok2
  for enc1 :: "'a \<Rightarrow> bytes" and rd1 ok1 and enc2 :: "'b \<Rightarrow> bytes" and rd2 ok2
begin

lemma pair_rd_enc:
  assumes "cursor f off ((case p of (x, y) \<Rightarrow> enc1 x @ enc2 y) @ q)" "case p of (x, y) \<Rightarrow> ok1 x \<and> ok2 y"
  shows "seq_rd rd1 rd2 f off = Inr (p, off + length (case p of (x, y) \<Rightarrow> enc1 x @ enc2 y))"
proof -
  obtain x y where p: "p = (x, y)" by (cases p)
  from assms p have c: "cursor f off (enc1 x @ enc2 y @ q)" and o: "ok1 x" "ok2 y" by auto
  from a.rd_enc [OF c o(1)] b.rd_enc [OF cursor_advance [OF c] o(2)] p show ?thesis
    by (simp add: seq_rd_def)
qed

lemma pair_rd_sound:
  assumes c: "cursor f off r" and rd: "seq_rd rd1 rd2 f off = Inr (p, off')"
  shows "(case p of (x, y) \<Rightarrow> ok1 x \<and> ok2 y) \<and>
    off' = off + length (case p of (x, y) \<Rightarrow> enc1 x @ enc2 y) \<and>
    (\<exists>q. r = (case p of (x, y) \<Rightarrow> enc1 x @ enc2 y) @ q)"
proof -
  from rd obtain x y off1 where p: "p = (x, y)"
    and r1: "rd1 f off = Inr (x, off1)" and r2: "rd2 f off1 = Inr (y, off')"
    by (auto simp: seq_rd_def)
  from c r1 obtain q1 where q1: "ok1 x" "off1 = off + length (enc1 x)" "r = enc1 x @ q1" "cursor f off1 q1"
    by (rule a.rd_soundE)
  from q1(4) r2 obtain q2 where "ok2 y" "off' = off1 + length (enc2 y)" "q1 = enc2 y @ q2"
    by (rule b.rd_soundE)
  with q1 p show ?thesis by auto
qed

end

sublocale wire_pair \<subseteq> wire_field "\<lambda>(x, y). enc1 x @ enc2 y" "seq_rd rd1 rd2" "\<lambda>(x, y). ok1 x \<and> ok2 y"
  by unfold_locales (fact pair_rd_enc, fact pair_rd_sound)

context wire_pair begin

lemma pair_wire_field:
  "wire_field (\<lambda>(x, y). enc1 x @ enc2 y) (seq_rd rd1 rd2) (\<lambda>(x, y). ok1 x \<and> ok2 y)"
  by (rule wire_field_axioms)

end

lemma wire_seq:
  assumes "wire_field e1 r1 o1" "wire_field e2 r2 o2"
  shows "wire_field (\<lambda>(x, y). e1 x @ e2 y) (seq_rd r1 r2) (\<lambda>(x, y). o1 x \<and> o2 y)"
  by (rule wire_pair.pair_wire_field [OF wire_pair.intro [OF assms]])

text \<open>A loop that reads \<open>n\<close> fields and pushes each onto its output vector.\<close>

locale wire_repeat = wire_field enc rd ok
  for enc :: "'a \<Rightarrow> bytes" and rd ok +
  fixes rdn :: "nat \<Rightarrow> bytes \<Rightarrow> nat \<Rightarrow> ('a list \<times> nat) res"
  assumes rdn_0: "rdn 0 f off = Inr ([], off)"
    and rdn_Suc: "rdn (Suc n) f off =
      res_bind (rd f off) (\<lambda>(x, off). res_bind (rdn n f off) (\<lambda>(xs, off). Inr (x # xs, off)))"
begin

lemma rdn_enc:
  "cursor f off (concat (map enc xs) @ q) \<Longrightarrow> list_all ok xs \<Longrightarrow>
   rdn (length xs) f off = Inr (xs, off + length (concat (map enc xs)))"
proof (induction xs arbitrary: off)
  case Nil
  then show ?case by (simp add: rdn_0)
next
  case (Cons x xs)
  from Cons.prems have c: "cursor f off (enc x @ concat (map enc xs) @ q)" and o: "ok x" "list_all ok xs"
    by auto
  from rd_enc [OF c o(1)] Cons.IH [OF cursor_advance [OF c] o(2)] show ?case
    by (simp add: rdn_Suc)
qed

lemma rdn_sound:
  "cursor f off r \<Longrightarrow> rdn n f off = Inr (xs, off') \<Longrightarrow>
   length xs = n \<and> list_all ok xs \<and> off' = off + length (concat (map enc xs)) \<and>
   (\<exists>q. r = concat (map enc xs) @ q)"
proof (induction n arbitrary: off r xs)
  case 0
  then show ?case by (simp add: rdn_0)
next
  case (Suc n)
  from Suc.prems(2) obtain x off1 ys where xs: "xs = x # ys"
    and r1: "rd f off = Inr (x, off1)" and r2: "rdn n f off1 = Inr (ys, off')"
    by (auto simp: rdn_Suc)
  from Suc.prems(1) r1 obtain q1 where q1: "ok x" "off1 = off + length (enc x)" "r = enc x @ q1" "cursor f off1 q1"
    by (rule rd_soundE)
  from Suc.IH [OF q1(4) r2] q1 xs show ?case by auto
qed

lemma repeat_wire_field:
  "wire_field (\<lambda>xs. concat (map enc xs)) (rdn n) (\<lambda>xs. length xs = n \<and> list_all ok xs)"
proof
  fix f off xs q
  assume "cursor f off (concat (map enc xs) @ q)" "length xs = n \<and> list_all ok xs"
  with rdn_enc show "rdn n f off = Inr (xs, off + length (concat (map enc xs)))" by blast
next
  fix f off r xs off'
  assume "cursor f off r" "rdn n f off = Inr (xs, off')"
  from rdn_sound [OF this] show "(length xs = n \<and> list_all ok xs) \<and>
      off' = off + length (concat (map enc xs)) \<and> (\<exists>q. r = concat (map enc xs) @ q)" by blast
qed

end

text \<open>A counted list: the count is one field, the elements follow.\<close>

lemma wire_counted:
  assumes cnt: "wire_field encn rdc okn"
    and elems: "\<And>n. okn n \<Longrightarrow> wire_field encs (rdn n) (\<lambda>xs. cnt xs = n \<and> good xs)"
  shows "wire_field (\<lambda>xs. encn (cnt xs) @ encs xs)
           (\<lambda>f off. res_bind (rdc f off) (\<lambda>(n, off). rdn n f off))
           (\<lambda>xs. okn (cnt xs) \<and> good xs)"
proof
  fix f off xs q
  assume c: "cursor f off ((encn (cnt xs) @ encs xs) @ q)" and o: "okn (cnt xs) \<and> good xs"
  from c have c': "cursor f off (encn (cnt xs) @ encs xs @ q)" by simp
  from wire_field.rd_enc [OF cnt c'] wire_field.rd_enc [OF elems cursor_advance [OF c']] o
  show "res_bind (rdc f off) (\<lambda>(n, off). rdn n f off) =
      Inr (xs, off + length (encn (cnt xs) @ encs xs))" by simp
next
  fix f off r xs off'
  assume c: "cursor f off r" and rd: "res_bind (rdc f off) (\<lambda>(n, off). rdn n f off) = Inr (xs, off')"
  from rd obtain n off1 where r1: "rdc f off = Inr (n, off1)" and r2: "rdn n f off1 = Inr (xs, off')"
    by auto
  from wire_field.rd_soundE [OF cnt c r1] obtain q1 where
    q1: "okn n" "off1 = off + length (encn n)" "r = encn n @ q1" "cursor f off1 q1" .
  from wire_field.rd_soundE [OF elems [OF q1(1)] q1(4) r2] obtain q2 where
    "cnt xs = n \<and> good xs" "off' = off1 + length (encs xs)" "q1 = encs xs @ q2" .
  with q1 show "(okn (cnt xs) \<and> good xs) \<and> off' = off + length (encn (cnt xs) @ encs xs) \<and>
      (\<exists>q. r = (encn (cnt xs) @ encs xs) @ q)" by auto
qed

text \<open>Reading into a record: a bijection on the values that the field accepts.\<close>

lemma wire_convert:
  assumes w: "wire_field e r ok"
    and rd: "\<And>f off. rd f off = res_bind (r f off) (\<lambda>(x, off). Inr (mk x, off))"
    and ok': "\<And>y. ok' y \<longleftrightarrow> ok (unmk y) \<and> mk (unmk y) = y"
    and inv: "\<And>x. ok x \<Longrightarrow> unmk (mk x) = x"
  shows "wire_field (\<lambda>y. e (unmk y)) rd ok'"
proof
  fix f off y q
  assume "cursor f off (e (unmk y) @ q)" "ok' y"
  with wire_field.rd_enc [OF w] show "rd f off = Inr (y, off + length (e (unmk y)))"
    by (simp add: rd ok')
next
  fix f off r' y off'
  assume c: "cursor f off r'" and r: "rd f off = Inr (y, off')"
  then obtain x where x: "r f off = Inr (x, off')" "y = mk x" by (auto simp: rd)
  from wire_field.rd_sound [OF w c x(1)] x(2)
  show "ok' y \<and> off' = off + length (e (unmk y)) \<and> (\<exists>q. r' = e (unmk y) @ q)"
    by (auto simp: ok' inv)
qed

text \<open>A field with a check of the value that was read.\<close>

lemma wire_guard:
  assumes w: "wire_field e r ok"
    and rd: "\<And>f off. rd f off = res_bind (r f off) (\<lambda>(x, off). if P x then Inl m else Inr (x, off))"
  shows "wire_field e rd (\<lambda>x. ok x \<and> \<not> P x)"
proof
  fix f off x q
  assume "cursor f off (e x @ q)" "ok x \<and> \<not> P x"
  with wire_field.rd_enc [OF w] show "rd f off = Inr (x, off + length (e x))" by (simp add: rd)
next
  fix f off r' x off'
  assume c: "cursor f off r'" and "rd f off = Inr (x, off')"
  then have "r f off = Inr (x, off')" "\<not> P x" by (auto simp: rd split: if_splits)
  with wire_field.rd_sound [OF w c] show
    "(ok x \<and> \<not> P x) \<and> off' = off + length (e x) \<and> (\<exists>q. r' = e x @ q)" by auto
qed

subsection \<open>Fields every format of the repository has\<close>

text \<open>
  A reader of \<open>n\<close> bytes that refuses what does not fit, a length-prefixed string and a
  length-prefixed blob.  The documented layout of the last two is named here; the formats differ in
  their limits and messages.
\<close>

definition prefixed16 :: "string \<Rightarrow> bytes" where
  "prefixed16 s = be_bytes 2 (word_of_nat (length s) :: u16) @ bytes_of_string s"

definition prefixed32 :: "bytes \<Rightarrow> bytes" where
  "prefixed32 b = be_bytes 4 (word_of_nat (length b) :: u32) @ b"

lemma length_prefixed [simp]:
  "length (prefixed16 s) = 2 + length s" "length (prefixed32 b) = 4 + length b"
  by (simp_all add: prefixed16_def prefixed32_def)

lemma wire_block:
  assumes rd: "\<And>f off. rd f off = res_bind (take_or m n (length f) off)
      (\<lambda>_. res_bind (dec (bytes_at f off n)) (\<lambda>x. Inr (x, off + n)))"
    and enc: "\<And>x. ok x \<Longrightarrow> length (enc x) = n \<and> dec (enc x) = Inr x"
    and dec: "\<And>bs x. length bs = n \<Longrightarrow> dec bs = Inr x \<Longrightarrow> ok x \<and> enc x = bs"
  shows "wire_field enc rd ok"
proof
  fix f off x q
  assume "cursor f off (enc x @ q)" "ok x"
  with enc [of x] show "rd f off = Inr (x, off + length (enc x))" by (simp add: rd cursor_simps)
next
  fix f off r x off'
  assume c: "cursor f off r" and "rd f off = Inr (x, off')"
  then have n: "n \<le> length r" and x: "dec (take n r) = Inr x" "off' = off + n"
    by (auto simp: rd cursor_simps split: if_splits)
  with dec [of "take n r" x] have "ok x" "enc x = take n r" by simp_all
  with n x show "ok x \<and> off' = off + length (enc x) \<and> (\<exists>q. r = enc x @ q)"
    by (metis append_take_drop_id length_take min.absorb2)
qed

lemma wire_fixed:
  assumes rd: "\<And>f off. rd f off = res_bind (take_or m n (length f) off)
      (\<lambda>_. Inr (be_word (bytes_at f off n) :: 'a::len word, off + n))"
    and len: "LENGTH('a) = 8 * n"
  shows "wire_field (be_bytes n :: 'a word \<Rightarrow> bytes) rd (\<lambda>_. True)"
  by (rule wire_block [where m = m and dec = "\<lambda>bs. Inr (be_word bs)"])
    (auto simp: rd be_word_be_bytes be_bytes_be_word len)

lemma wire_byte:
  assumes rd: "\<And>f off. rd f off = res_bind (take_or m 1 (length f) off) (\<lambda>_. Inr (f ! off, off + 1))"
  shows "wire_field (\<lambda>b. [b]) rd (\<lambda>_. True)"
proof (rule wire_block [where m = m and n = 1 and dec = "\<lambda>bs. Inr (hd bs)"])
  fix f off
  show "rd f off = res_bind (take_or m 1 (length f) off)
      (\<lambda>_. res_bind (Inr (hd (bytes_at f off 1))) (\<lambda>x. Inr (x, off + 1)))"
    unfolding rd by (rule take_or_cong) simp_all
qed (auto simp: length_Suc_conv)

lemma wire_prefixed:
  assumes rd: "\<And>f off. rd f off = res_bind (take_or m n (length f) off) (\<lambda>_.
      let len = unat (be_word (bytes_at f off n) :: 'l::len word) in
      if len > lim then Inl m'
      else res_bind (take_or m len (length f) (off + n)) (\<lambda>_.
        Inr (bytes_at f (off + n) len, off + n + len)))"
    and width: "LENGTH('l) = 8 * n"
  shows "wire_field (\<lambda>b. be_bytes n (word_of_nat (length b) :: 'l word) @ b) rd
           (\<lambda>b. length b \<le> lim \<and> length b < 2 ^ LENGTH('l))"
proof
  fix f off b q
  assume c: "cursor f off ((be_bytes n (word_of_nat (length b) :: 'l word) @ b) @ q)"
    and ok: "length b \<le> lim \<and> length b < 2 ^ LENGTH('l)"
  from c have c1: "cursor f off (be_bytes n (word_of_nat (length b) :: 'l word) @ b @ q)" by simp
  have c2: "cursor f (off + n) (b @ q)" using cursor_advance [OF c1] by simp
  have len: "unat (be_word (be_bytes n (word_of_nat (length b) :: 'l word)) :: 'l word) = length b"
    using ok by (simp add: be_word_be_bytes width unat_of_nat)
  from ok len show "rd f off = Inr (b, off + length (be_bytes n (word_of_nat (length b) :: 'l word) @ b))"
    by (simp add: rd cursor_take_or [OF c1] cursor_bytes_at [OF c1] cursor_take_or [OF c2]
        cursor_bytes_at [OF c2] Let_def)
next
  fix f off r b off'
  assume c: "cursor f off r" and r: "rd f off = Inr (b, off')"
  define len where "len = unat (be_word (take n r) :: 'l word)"
  from r have n: "n \<le> length r" and lim: "len \<le> lim" and fit: "off + n + len \<le> length f"
    and b: "b = bytes_at f (off + n) len" and off': "off' = off + n + len"
    by (auto simp: rd Let_def len_def cursor_simps [OF c] split: if_splits)
  from cursor_skip [OF c n] have c2: "cursor f (off + n) (drop n r)" .
  from fit cursor_length [OF c2] have bl: "len \<le> length (drop n r)" by simp
  then have lb: "length b = len" by (simp add: b cursor_bytes_at [OF c2])
  have "be_bytes n (word_of_nat len :: 'l word) = take n r"
    using n by (simp add: len_def be_bytes_be_word width)
  moreover have "b = take len (drop n r)" by (simp add: b cursor_bytes_at [OF c2])
  ultimately have "(be_bytes n (word_of_nat (length b) :: 'l word) @ b) @ drop len (drop n r) = r"
    unfolding lb by (metis append_assoc append_take_drop_id)
  moreover have "len < 2 ^ LENGTH('l)" unfolding len_def by (rule unsigned_less)
  ultimately show "(length b \<le> lim \<and> length b < 2 ^ LENGTH('l)) \<and>
      off' = off + length (be_bytes n (word_of_nat (length b) :: 'l word) @ b) \<and>
      (\<exists>q. r = (be_bytes n (word_of_nat (length b) :: 'l word) @ b) @ q)"
    using lim lb off' by (metis add.assoc length_append length_be_bytes)
qed

lemma wire_prefixed32:
  assumes "\<And>f off. rd f off = res_bind (take_or m 4 (length f) off) (\<lambda>_.
      let len = unat (be_word (bytes_at f off 4) :: u32) in
      if len > lim then Inl m'
      else res_bind (take_or m len (length f) (off + 4)) (\<lambda>_.
        Inr (bytes_at f (off + 4) len, off + 4 + len)))"
  shows "wire_field prefixed32 rd (\<lambda>b. length b \<le> lim \<and> length b < 2 ^ 32)"
  using wire_prefixed [of rd m 4 lim m', where 'l = 32] assms by (simp add: prefixed32_def [abs_def])

lemma wire_prefixed16:
  assumes rd: "\<And>f off. rd f off = res_bind (take_or m 2 (length f) off) (\<lambda>_.
      let len = unat (be_word (bytes_at f off 2) :: u16) in
      if len > lim then Inl m'
      else res_bind (take_or m len (length f) (off + 2)) (\<lambda>_.
        Inr (string_of_bytes (bytes_at f (off + 2) len), off + 2 + len)))"
  shows "wire_field prefixed16 rd (\<lambda>s. length s \<le> lim \<and> length s < 2 ^ 16)"
proof -
  let ?r = "\<lambda>f off. res_bind (take_or m 2 (length f) off) (\<lambda>_.
      let len = unat (be_word (bytes_at f off 2) :: u16) in
      if len > lim then Inl m'
      else res_bind (take_or m len (length f) (off + 2)) (\<lambda>_.
        Inr (bytes_at f (off + 2) len, off + 2 + len)))"
  have "wire_field (\<lambda>b. be_bytes 2 (word_of_nat (length b) :: u16) @ b) ?r
      (\<lambda>b. length b \<le> lim \<and> length b < 2 ^ LENGTH(16))"
    by (rule wire_prefixed [where m = m and m' = m']) simp_all
  then have "wire_field (\<lambda>s. (\<lambda>b. be_bytes 2 (word_of_nat (length b) :: u16) @ b) (bytes_of_string s))
      rd (\<lambda>s. length s \<le> lim \<and> length s < 2 ^ 16)"
    by (rule wire_convert [where mk = string_of_bytes])
      (auto simp: rd Let_def res_bind_assoc)
  then show ?thesis by (simp add: prefixed16_def [abs_def])
qed

subsection \<open>Whole frames\<close>

text \<open>A frame decoder: a header that yields a byte, a body, a check that nothing follows, a last check.\<close>

lemma framed_decode_iff:
  assumes body: "wire_field enc rd ok"
    and dec: "dec = res_bind hdr (\<lambda>(b, off). res_bind (rd f off) (\<lambda>(x, off).
      if off \<noteq> length f then Inl m else fin b x))"
    and hdr: "\<And>b off. hdr = Inr (b, off) \<longleftrightarrow> off = n \<and> length f \<le> lim \<and> (\<exists>r. f = H b @ r)"
    and len: "\<And>b. length (H b) = n"
  shows "dec = Inr y \<longleftrightarrow> (\<exists>b x. f = H b @ enc x \<and> ok x \<and> length f \<le> lim \<and> fin b x = Inr y)"
proof -
  have "dec = Inr y \<longleftrightarrow> (\<exists>b r x. f = H b @ r \<and> length f \<le> lim \<and> rd f n = Inr (x, length f) \<and> fin b x = Inr y)"
    unfolding dec by (auto simp: res_bind_Inr_iff hdr split: prod.splits if_splits)
  moreover have "rd f n = Inr (x, length f) \<longleftrightarrow> ok x \<and> r = enc x" if "f = H b @ r" for b r x
    using that len by (intro wire_field.rd_exact_at [OF body]) (simp add: cursor_def)
  ultimately show ?thesis by metis
qed

end
