(* ===== verification/Host_Order.thy ===== *)
theory Host_Order
  imports Prelude
begin

text \<open>
  Byte order.  The sources turn integers into wire bytes in two ways: by shifting (BRK2, MED1), and
  by converting with \<^verbatim>\<open>htons\<close>, \<^verbatim>\<open>htonl\<close> or a local 64-bit conversion and then copying the
  host's memory (BRK1, NXR1, WSM1, ADI).  The second way depends on the host, so its model takes the
  host's byte order as an argument and says what the copy of a host integer is.  The lemmas show that
  what reaches the wire does not depend on the host for BRK1, WSM1 and ADI, and for NXR1 only on a
  little-endian host.
\<close>

subsection \<open>Host memory and the conversions of the C library\<close>

datatype endian = LittleEndian | BigEndian

definition store :: "endian \<Rightarrow> nat \<Rightarrow> 'a::len word \<Rightarrow> bytes" where
  "store h n v = (case h of BigEndian \<Rightarrow> be_bytes n v | LittleEndian \<Rightarrow> rev (be_bytes n v))"

definition load :: "endian \<Rightarrow> bytes \<Rightarrow> 'a::len word" where
  "load h bs = (case h of BigEndian \<Rightarrow> be_word bs | LittleEndian \<Rightarrow> be_word (rev bs))"

definition htons :: "endian \<Rightarrow> u16 \<Rightarrow> u16" where
  "htons h v = (case h of BigEndian \<Rightarrow> v | LittleEndian \<Rightarrow> be_word (rev (be_bytes 2 v)))"

definition htonl :: "endian \<Rightarrow> u32 \<Rightarrow> u32" where
  "htonl h v = (case h of BigEndian \<Rightarrow> v | LittleEndian \<Rightarrow> be_word (rev (be_bytes 4 v)))"

definition ntohs :: "endian \<Rightarrow> u16 \<Rightarrow> u16" where
  "ntohs h v = htons h v"

definition ntohl :: "endian \<Rightarrow> u32 \<Rightarrow> u32" where
  "ntohl h v = htonl h v"

lemma store_htons [simp, wire_simps]: "store h 2 (htons h v) = be_bytes 2 v"
  by (cases h) (simp_all add: store_def htons_def be_bytes_be_word)

lemma store_htonl [simp, wire_simps]: "store h 4 (htonl h v) = be_bytes 4 v"
  by (cases h) (simp_all add: store_def htonl_def be_bytes_be_word)

lemma be_word_load_16: "length bs = 2 \<Longrightarrow> ntohs h (load h bs) = be_word bs"
  by (cases h) (simp_all add: load_def ntohs_def htons_def be_bytes_be_word)

lemma be_word_load_32: "length bs = 4 \<Longrightarrow> ntohl h (load h bs) = be_word bs"
  by (cases h) (simp_all add: load_def ntohl_def htonl_def be_bytes_be_word)

lemma store_u8 [simp, wire_simps]: "store h 1 (b :: u8) = [b]" "store h (Suc 0) (b :: u8) = [b]"
  by (cases h; simp add: store_def)+

lemma load_u8: "length bs = 1 \<Longrightarrow> load h bs = (hd bs :: u8)"
  by (cases h; cases bs) (simp_all add: load_def)

subsection \<open>Splitting a 64-bit integer into two halves\<close>

lemma be_of_nat_mod: "be_of_nat n (k mod 256 ^ n) = be_of_nat n k"
proof -
  have "be_of_nat (length (be_of_nat n k)) (be_nat (be_of_nat n k)) = be_of_nat n k"
    by (rule be_of_nat_be_nat)
  then show ?thesis by (simp add: be_nat_be_of_nat)
qed

lemma unat_hi32: "unat (ucast (drop_bit 32 (v :: u64)) :: u32) = unat v div 2 ^ 32"
proof -
  have "unat v < 2 ^ LENGTH(64)" by (rule unsigned_less)
  then have "unat v div 2 ^ 32 < 2 ^ 32" by (simp add: less_mult_imp_div_less)
  moreover have "unat (drop_bit 32 v) = unat v div 2 ^ 32"
    by (subst unat_drop_bit_eq) (rule drop_bit_eq_div)
  ultimately show ?thesis by (simp add: unsigned_ucast_eq take_bit_eq_mod)
qed

lemma unat_lo32: "unat (ucast (v :: u64) :: u32) = unat v mod 2 ^ 32"
  by (simp add: unsigned_ucast_eq take_bit_eq_mod)

lemma be_bytes_split64:
  "be_bytes 8 (v :: u64) = be_bytes 4 (ucast (drop_bit 32 v) :: u32) @ be_bytes 4 (ucast v :: u32)"
proof -
  have "be_of_nat (4 + 4) (unat v) = be_of_nat 4 (unat v div 256 ^ 4) @ be_of_nat 4 (unat v)"
    by (rule be_of_nat_add)
  moreover have "be_of_nat 4 (unat v mod 256 ^ 4) = be_of_nat 4 (unat v)" by (rule be_of_nat_mod)
  ultimately show ?thesis unfolding be_bytes_def unat_hi32 unfolding unat_lo32 by simp
qed

definition join64 :: "u32 \<Rightarrow> u32 \<Rightarrow> u64" where
  "join64 hi lo = push_bit 32 (ucast hi) OR ucast lo"

lemma join64_halves:
  "ucast (drop_bit 32 (join64 hi lo)) = hi" "ucast (join64 hi lo) = lo"
  unfolding join64_def by (rule bit_word_eqI; auto simp: bit_simps dest: bit_imp_le_length)+

lemma be_bytes_join64: "be_bytes 8 (join64 hi lo) = be_bytes 4 hi @ be_bytes 4 lo"
  by (simp add: be_bytes_split64 join64_halves)

lemma join64_be_word:
  "length a = 4 \<Longrightarrow> length b = 4 \<Longrightarrow> join64 (be_word a) (be_word b) = be_word (a @ b)"
proof -
  assume len: "length a = 4" "length b = 4"
  have "be_bytes 8 (join64 (be_word a) (be_word b)) = a @ b"
    using len by (simp add: be_bytes_join64 be_bytes_be_word)
  then have "be_word (be_bytes 8 (join64 (be_word a) (be_word b))) = (be_word (a @ b) :: u64)" by simp
  then show ?thesis by (simp add: be_word_be_bytes)
qed

lemma be_bytes_htonl_little: "be_bytes 4 (htonl LittleEndian v) = rev (be_bytes 4 v)"
  by (simp add: htonl_def be_bytes_be_word)

subsection \<open>The 64-bit conversions of the sources\<close>

text \<open>\<^verbatim>\<open>host_to_be64\<close> and \<^verbatim>\<open>be64_to_host\<close> of \<^verbatim>\<open>broker_protocol.cpp\<close>: a test of the host's order first.\<close>

definition brk1_host_to_be64 :: "endian \<Rightarrow> u64 \<Rightarrow> u64" where
  "brk1_host_to_be64 h v =
     (if htonl h 1 = 1 then v
      else let high = htonl h (ucast (drop_bit 32 v));
               low = htonl h (ucast (v AND 0xffffffff))
           in push_bit 32 (ucast low) OR ucast high)"

definition brk1_be64_to_host :: "endian \<Rightarrow> u64 \<Rightarrow> u64" where
  "brk1_be64_to_host h v =
     (if ntohl h 1 = 1 then v
      else let high = ntohl h (ucast (drop_bit 32 v));
               low = ntohl h (ucast (v AND 0xffffffff))
           in push_bit 32 (ucast low) OR ucast high)"

text \<open>The pair of the same name in \<^verbatim>\<open>geospatial_frame.cpp\<close> has no such test.\<close>

definition nxr1_host_to_be64 :: "endian \<Rightarrow> u64 \<Rightarrow> u64" where
  "nxr1_host_to_be64 h v =
     (let high = htonl h (ucast (drop_bit 32 v));
          low = htonl h (ucast (v AND 0xffffffff))
      in push_bit 32 (ucast low) OR ucast high)"

definition nxr1_be64_to_host :: "endian \<Rightarrow> u64 \<Rightarrow> u64" where
  "nxr1_be64_to_host h v =
     (let high = ntohl h (ucast (drop_bit 32 v));
          low = ntohl h (ucast (v AND 0xffffffff))
      in push_bit 32 (ucast low) OR ucast high)"

text \<open>\<^verbatim>\<open>byteswap64\<close> and the conversions of \<^verbatim>\<open>adi_server.cpp\<close>.\<close>

definition is_little_endian :: "endian \<Rightarrow> bool" where
  "is_little_endian h \<longleftrightarrow> hd (store h 2 (1 :: u16)) = 1"

definition byteswap64 :: "u64 \<Rightarrow> u64" where
  "byteswap64 n =
     push_bit 56 (n AND 0x00000000000000ff) OR
     push_bit 40 (n AND 0x000000000000ff00) OR
     push_bit 24 (n AND 0x0000000000ff0000) OR
     push_bit 8 (n AND 0x00000000ff000000) OR
     drop_bit 8 (n AND 0x000000ff00000000) OR
     drop_bit 24 (n AND 0x0000ff0000000000) OR
     drop_bit 40 (n AND 0x00ff000000000000) OR
     drop_bit 56 (n AND 0xff00000000000000)"

definition adi_host_to_be64 :: "endian \<Rightarrow> u64 \<Rightarrow> u64" where
  "adi_host_to_be64 h n = (if is_little_endian h then byteswap64 n else n)"

definition adi_be64_to_host :: "endian \<Rightarrow> u64 \<Rightarrow> u64" where
  "adi_be64_to_host h n = (if is_little_endian h then byteswap64 n else n)"

lemma ucast_mask32: "(ucast (v AND 0xffffffff :: u64) :: u32) = ucast v"
proof -
  have m: "mask 32 = (0xffffffff :: u64)" by (simp add: mask_eq_exp_minus_1)
  have "(ucast (v AND mask 32 :: u64) :: u32) = ucast v"
    by (rule bit_word_eqI) (auto simp: bit_simps simp del: mask_numeral)
  then show ?thesis by (simp only: m)
qed

lemma swap_halves:
  "push_bit 32 (ucast (htonl h (ucast (v AND 0xffffffff :: u64)))) OR ucast (htonl h (ucast (drop_bit 32 v)))
     = join64 (htonl h (ucast v)) (htonl h (ucast (drop_bit 32 v)))"
  by (simp add: join64_def ucast_mask32)

lemma htonl_one: "htonl h 1 = 1 \<longleftrightarrow> h = BigEndian"
proof (cases h)
  case LittleEndian
  have "be_bytes 4 (1 :: u32) = [0, 0, 0, 1]" by (simp add: be_eval)
  then have "be_bytes 4 (htonl LittleEndian 1) \<noteq> be_bytes 4 (1 :: u32)"
    by (simp add: be_bytes_htonl_little)
  with LittleEndian show ?thesis by auto
qed (simp add: htonl_def)

lemma store_join_little:
  "store LittleEndian 8 (join64 (htonl LittleEndian (ucast v)) (htonl LittleEndian (ucast (drop_bit 32 v))))
     = be_bytes 8 (v :: u64)"
  by (simp add: store_def be_bytes_join64 be_bytes_htonl_little be_bytes_split64 [of v])

lemma store_brk1_host_to_be64 [simp, wire_simps]: "store h 8 (brk1_host_to_be64 h v) = be_bytes 8 v"
proof (cases h)
  case LittleEndian
  then show ?thesis
    by (simp add: brk1_host_to_be64_def htonl_one Let_def swap_halves store_join_little)
qed (simp add: brk1_host_to_be64_def htonl_one store_def)

lemma nxr1_host_to_be64_little [simp, wire_simps]:
  "store LittleEndian 8 (nxr1_host_to_be64 LittleEndian v) = be_bytes 8 v"
  by (simp add: nxr1_host_to_be64_def Let_def swap_halves store_join_little)

text \<open>On a big-endian host the NXR1 conversion exchanges the two halves.\<close>

lemma nxr1_host_to_be64_big:
  "store BigEndian 8 (nxr1_host_to_be64 BigEndian v)
     = be_bytes 4 (ucast v :: u32) @ be_bytes 4 (ucast (drop_bit 32 v) :: u32)"
  by (simp add: nxr1_host_to_be64_def Let_def swap_halves store_def be_bytes_join64)
    (simp add: htonl_def)

subsection \<open>Reading back\<close>

lemma swap_load_little:
  assumes "length bs = 8"
  shows "join64 (htonl LittleEndian (ucast (be_word (rev bs) :: u64)))
           (htonl LittleEndian (ucast (drop_bit 32 (be_word (rev bs) :: u64)))) = be_word bs"
proof -
  define a b where "a = take 4 bs" and "b = drop 4 bs"
  with assms have bs: "bs = a @ b" and len: "length a = 4" "length b = 4" by simp_all
  have rev: "be_word (rev bs) = join64 (be_word (rev b)) (be_word (rev a))"
    using len by (simp add: bs join64_be_word)
  have "htonl LittleEndian (be_word (rev x)) = be_word x" if "length x = 4" for x
    using that by (simp add: htonl_def be_bytes_be_word)
  with len show ?thesis unfolding rev join64_halves by (simp add: join64_be_word bs)
qed

lemma brk1_be64_to_host_load: "length bs = 8 \<Longrightarrow> brk1_be64_to_host h (load h bs) = be_word bs"
  by (cases h) (simp_all add: brk1_be64_to_host_def ntohl_def htonl_one Let_def swap_halves
      load_def swap_load_little)

lemma nxr1_be64_to_host_load:
  "length bs = 8 \<Longrightarrow> nxr1_be64_to_host LittleEndian (load LittleEndian bs) = be_word bs"
  by (simp add: nxr1_be64_to_host_def ntohl_def Let_def swap_halves load_def swap_load_little)

subsection \<open>The byte swap of the ADI server\<close>

lemma bit_be_nat: "bit (be_nat bs) i \<longleftrightarrow> i < 8 * length bs \<and> bit (rev bs ! (i div 8)) (i mod 8)"
proof (induction bs arbitrary: i rule: rev_induct)
  case (snoc b bs)
  have v: "be_nat (bs @ [b]) = push_bit 8 (be_nat bs) OR unat b"
  proof -
    have "be_nat (bs @ [b]) = push_bit 8 (be_nat bs) + unat b"
      by (simp add: be_nat_append push_bit_eq_mult)
    also have "\<dots> = push_bit 8 (be_nat bs) OR unat b"
      by (rule disjunctive_add) (auto simp: bit_simps bit_unsigned_iff dest: bit_imp_le_length)
    finally show ?thesis .
  qed
  show ?case
  proof (cases "i < 8")
    case True
    then show ?thesis by (simp add: v bit_simps)
  next
    case False
    then have "\<not> bit (unat b) i" by (auto simp: bit_simps dest: bit_imp_le_length)
    moreover have "i div 8 = Suc ((i - 8) div 8)" "(i - 8) mod 8 = i mod 8"
      using False by (simp_all add: le_div_geq le_mod_geq)
    ultimately show ?thesis using False by (auto simp: v bit_simps snoc)
  qed
qed simp

lemma bit_lane_up:
  "bit (push_bit s (v AND push_bit t (mask 8) :: u64)) i \<longleftrightarrow>
     i < 64 \<and> s + t \<le> i \<and> i < s + t + 8 \<and> bit v (i - s)"
  by (auto simp: bit_push_bit_iff bit_and_iff bit_mask_iff simp del: mask_numeral)

lemma bit_lane_down:
  "bit (drop_bit s (v AND push_bit t (mask 8) :: u64)) i \<longleftrightarrow>
     t \<le> s + i \<and> s + i < t + 8 \<and> bit v (s + i)"
  by (auto simp: bit_drop_bit_eq bit_push_bit_iff bit_and_iff bit_mask_iff dest: bit_imp_le_length
      simp del: mask_numeral)

lemma byteswap64_lanes:
  "byteswap64 v =
     push_bit 56 (v AND push_bit 0 (mask 8)) OR push_bit 40 (v AND push_bit 8 (mask 8)) OR
     push_bit 24 (v AND push_bit 16 (mask 8)) OR push_bit 8 (v AND push_bit 24 (mask 8)) OR
     drop_bit 8 (v AND push_bit 32 (mask 8)) OR drop_bit 24 (v AND push_bit 40 (mask 8)) OR
     drop_bit 40 (v AND push_bit 48 (mask 8)) OR drop_bit 56 (v AND push_bit 56 (mask 8))"
proof -
  have m: "(0x00000000000000ff :: u64) = push_bit 0 (mask 8)" "0x000000000000ff00 = push_bit 8 (mask 8 :: u64)"
    "0x0000000000ff0000 = push_bit 16 (mask 8 :: u64)" "0x00000000ff000000 = push_bit 24 (mask 8 :: u64)"
    "0x000000ff00000000 = push_bit 32 (mask 8 :: u64)" "0x0000ff0000000000 = push_bit 40 (mask 8 :: u64)"
    "0x00ff000000000000 = push_bit 48 (mask 8 :: u64)" "0xff00000000000000 = push_bit 56 (mask 8 :: u64)"
    by (simp_all add: mask_eq_exp_minus_1 push_bit_eq_mult)
  show ?thesis unfolding byteswap64_def m by (rule refl)
qed

lemma bit_byteswap64:
  assumes "i < 64"
  shows "bit (byteswap64 v) i \<longleftrightarrow> bit v (8 * (7 - i div 8) + i mod 8)"
proof -
  have "bit (byteswap64 v) (8 * j + k) \<longleftrightarrow> bit v (8 * (7 - j) + k)" if "j \<in> {0, 1, 2, 3, 4, 5, 6, 7}" "k < 8" for j k
    using that unfolding byteswap64_lanes bit_or_iff bit_lane_up bit_lane_down
    by (elim insertE emptyE) simp_all
  from this [of "i div 8" "i mod 8"] assms show ?thesis by force
qed

lemma byteswap64_be_word:
  assumes "length bs = 8"
  shows "byteswap64 (be_word bs) = be_word (rev bs)"
proof (rule bit_word_eqI)
  fix i assume "i < LENGTH(64)"
  then have i: "i < 64" by simp
  then have "8 * (7 - i div 8) + i mod 8 < 64" "(8 * (7 - i div 8) + i mod 8) div 8 = 7 - i div 8" by auto
  moreover have "rev bs ! (7 - i div 8) = bs ! (i div 8)" using i assms by (simp add: rev_nth)
  ultimately show "bit (byteswap64 (be_word bs)) i \<longleftrightarrow> bit (be_word (rev bs) :: u64) i"
    using i assms by (simp add: bit_byteswap64 be_word_def bit_of_nat_iff possible_bit_word bit_be_nat)
qed

lemma is_little_endian_iff [simp]: "is_little_endian h \<longleftrightarrow> h = LittleEndian"
proof -
  have "be_bytes 2 (1 :: u16) = [0, 1]" by (simp add: be_eval)
  then show ?thesis by (cases h) (simp_all add: is_little_endian_def store_def)
qed

lemma store_adi_host_to_be64 [simp, wire_simps]: "store h 8 (adi_host_to_be64 h v) = be_bytes 8 v"
proof -
  have "byteswap64 v = be_word (rev (be_bytes 8 v))"
    using byteswap64_be_word [of "be_bytes 8 v"] by simp
  then show ?thesis by (cases h) (simp_all add: adi_host_to_be64_def store_def be_bytes_be_word)
qed

lemma adi_be64_to_host_load: "length bs = 8 \<Longrightarrow> adi_be64_to_host h (load h bs) = be_word bs"
  by (cases h) (simp_all add: adi_be64_to_host_def load_def byteswap64_be_word)

end
