(* ===== verification/Backend_Dispatch.thy ===== *)
theory Backend_Dispatch
  imports Prelude
begin

text \<open>
  The choice between CPU, GPU and NPU: \<^verbatim>\<open>include/backend_dispatch.h\<close>.  This layer runs before the
  placer.  The enum, the two structs and the two functions are translated as they stand;
  \<^verbatim>\<open>std::optional<TaskProfile>\<close> is an option.  The lemmas say when each backend is chosen.
\<close>

datatype BackendKind = Cpu | Gpu | Npu

fun backend_name :: "BackendKind \<Rightarrow> string" where
  "backend_name Cpu = ''cpu''"
| "backend_name Gpu = ''gpu''"
| "backend_name Npu = ''npu''"

record TaskProfile =
  requires_exact_precision :: bool
  verification_sensitive :: bool
  cryptographic :: bool
  accelerator_verified :: bool
  is_inference :: bool
  is_data_parallel :: bool
  estimated_bytes :: nat
  estimated_flops :: u64
  fallback_safe :: bool

definition TaskProfile_default :: TaskProfile where
  "TaskProfile_default = \<lparr> requires_exact_precision = False, verification_sensitive = False,
     cryptographic = False, accelerator_verified = False, is_inference = False,
     is_data_parallel = False, estimated_bytes = 0, estimated_flops = 0, fallback_safe = False \<rparr>"

record BackendPolicy =
  default_backend :: BackendKind
  gpu_offload_threshold_bytes :: nat
  gpu_offload_threshold_flops :: u64
  policy_force_cpu :: bool
  gpu_available :: bool
  npu_available :: bool

definition profile_requires_cpu :: "TaskProfile \<Rightarrow> bool" where
  "profile_requires_cpu p \<longleftrightarrow>
     (requires_exact_precision p \<or> verification_sensitive p \<or> cryptographic p) \<and> \<not> accelerator_verified p"

definition select_backend :: "BackendPolicy \<Rightarrow> TaskProfile option \<Rightarrow> BackendKind" where
  "select_backend policy profile =
     (if policy_force_cpu policy then Cpu
      else case profile of
        None \<Rightarrow> if default_backend policy = Gpu \<and> gpu_available policy then Gpu else Cpu
      | Some p \<Rightarrow>
          if profile_requires_cpu p then Cpu
          else if is_inference p \<and> npu_available policy then Npu
          else if is_data_parallel p \<and> gpu_available policy then
            (let big_enough = estimated_bytes p \<ge> gpu_offload_threshold_bytes policy \<or>
                  gpu_offload_threshold_flops policy > 0 \<and>
                  estimated_flops p \<ge> gpu_offload_threshold_flops policy
             in if big_enough then Gpu else Cpu)
          else Cpu)"

subsection \<open>When each backend is chosen\<close>

text \<open>Work that has to stay exact and has no verified accelerator path.\<close>

definition pinned_to_cpu :: "BackendPolicy \<Rightarrow> TaskProfile option \<Rightarrow> bool" where
  "pinned_to_cpu policy profile \<longleftrightarrow>
     policy_force_cpu policy \<or> (\<exists>p. profile = Some p \<and> profile_requires_cpu p)"

lemma select_backend_pinned: "pinned_to_cpu policy profile \<Longrightarrow> select_backend policy profile = Cpu"
  by (auto simp: pinned_to_cpu_def select_backend_def)

lemma select_backend_npu_iff:
  "select_backend policy profile = Npu \<longleftrightarrow>
     \<not> pinned_to_cpu policy profile \<and> npu_available policy \<and> (\<exists>p. profile = Some p \<and> is_inference p)"
  by (auto simp: pinned_to_cpu_def select_backend_def Let_def split: option.split)

lemma select_backend_gpu_iff:
  "select_backend policy profile = Gpu \<longleftrightarrow>
     \<not> pinned_to_cpu policy profile \<and> gpu_available policy \<and>
     (case profile of None \<Rightarrow> default_backend policy = Gpu
      | Some p \<Rightarrow> \<not> (is_inference p \<and> npu_available policy) \<and> is_data_parallel p \<and>
          (gpu_offload_threshold_bytes policy \<le> estimated_bytes p \<or>
           0 < gpu_offload_threshold_flops policy \<and>
           gpu_offload_threshold_flops policy \<le> estimated_flops p))"
  by (auto simp: pinned_to_cpu_def select_backend_def Let_def split: option.split)

end
