(* ===== verification/Broker_Protocol.thy ===== *)
theory Broker_Protocol
  imports Wire Host_Order Backend_Dispatch
begin

text \<open>
  The BRK1 framed protocol: \<^verbatim>\<open>include/broker_protocol.h\<close> and \<^verbatim>\<open>src/broker_protocol.cpp\<close>.  The two
  structs, the appenders and readers of strings and blobs, the common header, request validation and
  the four frame functions.  \<open>h\<close> is the byte order of the host the function runs on; a returned
  \<open>Inl\<close> is the text stored in \<^verbatim>\<open>*error\<close> (decoders) or thrown (encoders).  An output pointer is
  the returned value, so its null check has no counterpart.
\<close>

subsection \<open>Constants, enums, structs\<close>

definition BROKER_MAGIC :: u32 where "BROKER_MAGIC = 0x42524b31"
definition BROKER_PROTOCOL_VERSION :: u16 where "BROKER_PROTOCOL_VERSION = 1"
definition BROKER_MAX_TIMEOUT_MS :: u32 where "BROKER_MAX_TIMEOUT_MS = 300000"

datatype MessageType = Request | Response

fun message_type_raw :: "MessageType \<Rightarrow> u8" where
  "message_type_raw Request = 1"
| "message_type_raw Response = 2"

datatype TaskStatus = Ok | Rejected | Error | Timeout

fun task_status_raw :: "TaskStatus \<Rightarrow> u8" where
  "task_status_raw Ok = 0"
| "task_status_raw Rejected = 1"
| "task_status_raw Error = 2"
| "task_status_raw Timeout = 3"

text \<open>\<^verbatim>\<open>static_cast<TaskStatus>(status_raw)\<close>, only reached for the four enumerators.\<close>

definition task_status_of_raw :: "u8 \<Rightarrow> TaskStatus" where
  "task_status_of_raw b = (if b = 0 then Ok else if b = 1 then Rejected else if b = 2 then Error else Timeout)"

record ProtocolLimits =
  max_frame_bytes :: nat
  max_payload_bytes :: nat
  max_string_bytes :: nat

definition ProtocolLimits_default :: ProtocolLimits where
  "ProtocolLimits_default =
     \<lparr> max_frame_bytes = 1024 * 1024, max_payload_bytes = 512 * 1024, max_string_bytes = 1024 \<rparr>"

record BrokerRequest =
  rq_task_id :: string
  rq_source :: string
  rq_destination :: string
  rq_kind :: string
  rq_priority :: u8
  rq_timeout_ms :: u32
  rq_payload :: bytes
  rq_profile :: "TaskProfile option"
  rq_device_preference :: string

record BrokerResponse =
  rs_task_id :: string
  rs_status :: TaskStatus
  rs_selected_gpu :: i32
  rs_latency_ms :: u64
  rs_result :: bytes
  rs_error :: string
  rs_backend :: BackendKind
  rs_fell_back_to_cpu :: bool

definition BrokerResponse_default :: BrokerResponse where
  "BrokerResponse_default = \<lparr> rs_task_id = [], rs_status = Error, rs_selected_gpu = -1,
     rs_latency_ms = 0, rs_result = [], rs_error = [], rs_backend = Cpu, rs_fell_back_to_cpu = False \<rparr>"

subsection \<open>Appending and reading\<close>

definition brk1_append_string :: "endian \<Rightarrow> ProtocolLimits \<Rightarrow> bytes \<Rightarrow> string \<Rightarrow> bytes res" where
  "brk1_append_string h limits out value =
     (if length value > max_string_bytes limits \<or> length value > 0xffff
      then Inl ''string exceeds maximum length''
      else let len_be = htons h (word_of_nat (length value)) in
        Inr (append_bytes (append_bytes out (store h 2 len_be)) (bytes_of_string value)))"

definition brk1_append_blob :: "endian \<Rightarrow> ProtocolLimits \<Rightarrow> bytes \<Rightarrow> bytes \<Rightarrow> bytes res" where
  "brk1_append_blob h limits out value =
     (if length value > max_payload_bytes limits \<or> length value > 0xffffffff
      then Inl ''payload exceeds maximum length''
      else let len_be = htonl h (word_of_nat (length value)) in
        Inr (append_bytes (append_bytes out (store h 4 len_be)) value))"

definition brk1_take :: "nat \<Rightarrow> nat \<Rightarrow> nat \<Rightarrow> unit res" where
  "brk1_take need sz off = take_or ''frame truncated'' need sz off"

definition brk1_read_string :: "endian \<Rightarrow> ProtocolLimits \<Rightarrow> bytes \<Rightarrow> nat \<Rightarrow> (string \<times> nat) res" where
  "brk1_read_string h limits frame off =
     res_bind (brk1_take 2 (length frame) off) (\<lambda>_.
     let len_be = load h (bytes_at frame off 2);
         off = off + 2;
         len = unat (ntohs h len_be) in
     if len > max_string_bytes limits then Inl ''string exceeds configured limit''
     else res_bind (brk1_take len (length frame) off) (\<lambda>_.
       Inr (string_of_bytes (bytes_at frame off len), off + len)))"

definition brk1_read_blob :: "endian \<Rightarrow> ProtocolLimits \<Rightarrow> bytes \<Rightarrow> nat \<Rightarrow> (bytes \<times> nat) res" where
  "brk1_read_blob h limits frame off =
     res_bind (brk1_take 4 (length frame) off) (\<lambda>_.
     let len_be = load h (bytes_at frame off 4);
         off = off + 4;
         len = unat (ntohl h len_be) in
     if len > max_payload_bytes limits then Inl ''payload exceeds configured limit''
     else res_bind (brk1_take len (length frame) off) (\<lambda>_.
       Inr (bytes_at frame off len, off + len)))"

definition brk1_decode_common_header ::
  "endian \<Rightarrow> ProtocolLimits \<Rightarrow> MessageType \<Rightarrow> bytes \<Rightarrow> nat \<Rightarrow> nat res" where
  "brk1_decode_common_header h limits expected_type frame off =
     (if frame = [] \<or> length frame > max_frame_bytes limits then Inl ''invalid frame size''
      else res_bind (brk1_take (4 + 2 + 1 + 1) (length frame) off) (\<lambda>_.
        let magic_be = load h (bytes_at frame 0 4);
            version_be = load h (bytes_at frame 4 2);
            type_raw = load h (bytes_at frame (4 + 2) 1) :: u8;
            reserved = load h (bytes_at frame (4 + 2 + 1) 1) :: u8;
            off = 4 + 2 + 1 + 1 in
        if ntohl h magic_be \<noteq> BROKER_MAGIC then Inl ''invalid broker protocol magic''
        else if ntohs h version_be \<noteq> BROKER_PROTOCOL_VERSION then
          Inl ''unsupported broker protocol version''
        else if type_raw \<noteq> message_type_raw expected_type then
          Inl ''unexpected broker protocol message type''
        else if reserved \<noteq> 0 then Inl ''reserved broker protocol byte must be zero''
        else Inr off))"

definition brk1_append_common_header :: "endian \<Rightarrow> bytes \<Rightarrow> MessageType \<Rightarrow> bytes" where
  "brk1_append_common_header h frame type =
     (let magic_be = htonl h BROKER_MAGIC;
          version_be = htons h BROKER_PROTOCOL_VERSION;
          type_raw = message_type_raw type;
          reserved = 0 :: u8 in
      append_bytes (append_bytes (append_bytes (append_bytes frame (store h 4 magic_be))
        (store h 2 version_be)) (store h 1 type_raw)) (store h 1 reserved))"

subsection \<open>Frames\<close>

definition validate_request :: "BrokerRequest \<Rightarrow> ProtocolLimits \<Rightarrow> unit res" where
  "validate_request request limits =
     (if rq_task_id request = [] then Inl ''task_id must be non-empty''
      else if rq_source request = [] \<or> rq_destination request = [] \<or> rq_kind request = [] then
        Inl ''source, destination, and kind must be non-empty''
      else if rq_timeout_ms request = 0 then Inl ''timeout_ms must be greater than zero''
      else if rq_timeout_ms request > BROKER_MAX_TIMEOUT_MS then
        Inl ''timeout_ms exceeds maximum of 300000 ms''
      else if length (rq_payload request) > max_payload_bytes limits then
        Inl ''payload exceeds max_payload_bytes''
      else Inr ())"

definition encode_request_frame :: "endian \<Rightarrow> BrokerRequest \<Rightarrow> ProtocolLimits \<Rightarrow> bytes res" where
  "encode_request_frame h request limits =
     res_bind (validate_request request limits) (\<lambda>_.
     let frame = brk1_append_common_header h [] Request in
     res_bind (brk1_append_string h limits frame (rq_task_id request)) (\<lambda>frame.
     res_bind (brk1_append_string h limits frame (rq_source request)) (\<lambda>frame.
     res_bind (brk1_append_string h limits frame (rq_destination request)) (\<lambda>frame.
     res_bind (brk1_append_string h limits frame (rq_kind request)) (\<lambda>frame.
     let frame = append_bytes frame (store h 1 (rq_priority request));
         timeout_be = htonl h (rq_timeout_ms request);
         frame = append_bytes frame (store h 4 timeout_be) in
     res_bind (brk1_append_blob h limits frame (rq_payload request)) (\<lambda>frame.
     if length frame > max_frame_bytes limits
     then Inl ''encoded request frame exceeds max_frame_bytes''
     else Inr frame))))))"

definition encode_response_frame :: "endian \<Rightarrow> BrokerResponse \<Rightarrow> ProtocolLimits \<Rightarrow> bytes res" where
  "encode_response_frame h response limits =
     (let frame = brk1_append_common_header h [] Response in
      res_bind (brk1_append_string h limits frame (rs_task_id response)) (\<lambda>frame.
      let frame = append_bytes frame (store h 1 (task_status_raw (rs_status response)));
          gpu_be = htonl h (rs_selected_gpu response);
          frame = append_bytes frame (store h 4 gpu_be);
          latency_be = brk1_host_to_be64 h (rs_latency_ms response);
          frame = append_bytes frame (store h 8 latency_be) in
      res_bind (brk1_append_blob h limits frame (rs_result response)) (\<lambda>frame.
      res_bind (brk1_append_string h limits frame (rs_error response)) (\<lambda>frame.
      if length frame > max_frame_bytes limits
      then Inl ''encoded response frame exceeds max_frame_bytes''
      else Inr frame))))"

definition decode_request_frame :: "endian \<Rightarrow> bytes \<Rightarrow> ProtocolLimits \<Rightarrow> BrokerRequest res" where
  "decode_request_frame h frame limits =
     res_bind (brk1_decode_common_header h limits Request frame 0) (\<lambda>off.
     res_bind (brk1_read_string h limits frame off) (\<lambda>(task_id, off).
     res_bind (brk1_read_string h limits frame off) (\<lambda>(source, off).
     res_bind (brk1_read_string h limits frame off) (\<lambda>(destination, off).
     res_bind (brk1_read_string h limits frame off) (\<lambda>(kind, off).
     res_bind (brk1_take (1 + 4) (length frame) off) (\<lambda>_.
     let priority = load h (bytes_at frame off 1);
         off = off + 1;
         timeout_be = load h (bytes_at frame off 4);
         off = off + 4;
         timeout_ms = ntohl h timeout_be in
     res_bind (brk1_read_blob h limits frame off) (\<lambda>(payload, off).
     if off \<noteq> length frame then Inl ''request frame contains trailing bytes''
     else let request = \<lparr> rq_task_id = task_id, rq_source = source, rq_destination = destination,
            rq_kind = kind, rq_priority = priority, rq_timeout_ms = timeout_ms, rq_payload = payload,
            rq_profile = None, rq_device_preference = [] \<rparr> in
       res_bind (validate_request request limits) (\<lambda>_. Inr request))))))))"

definition decode_response_frame :: "endian \<Rightarrow> bytes \<Rightarrow> ProtocolLimits \<Rightarrow> BrokerResponse res" where
  "decode_response_frame h frame limits =
     res_bind (brk1_decode_common_header h limits Response frame 0) (\<lambda>off.
     res_bind (brk1_read_string h limits frame off) (\<lambda>(task_id, off).
     res_bind (brk1_take (1 + 4 + 8) (length frame) off) (\<lambda>_.
     let status_raw = load h (bytes_at frame off 1);
         off = off + 1 in
     if status_raw > task_status_raw Timeout then Inl ''invalid broker response status''
     else let
         status = task_status_of_raw status_raw;
         gpu_be = load h (bytes_at frame off 4);
         off = off + 4;
         selected_gpu = ntohl h gpu_be;
         latency_be = load h (bytes_at frame off 8);
         off = off + 8;
         latency_ms = brk1_be64_to_host h latency_be in
     res_bind (brk1_read_blob h limits frame off) (\<lambda>(result, off).
     res_bind (brk1_read_string h limits frame off) (\<lambda>(error, off).
     if off \<noteq> length frame then Inl ''response frame contains trailing bytes''
     else Inr \<lparr> rs_task_id = task_id, rs_status = status, rs_selected_gpu = selected_gpu,
       rs_latency_ms = latency_ms, rs_result = result, rs_error = error,
       rs_backend = Cpu, rs_fell_back_to_cpu = False \<rparr>)))))"

fun status_name :: "TaskStatus \<Rightarrow> string" where
  "status_name Ok = ''ok''"
| "status_name Rejected = ''rejected''"
| "status_name Error = ''error''"
| "status_name Timeout = ''timeout''"

subsection \<open>The documented layout\<close>

definition brk1_header :: "MessageType \<Rightarrow> bytes" where
  "brk1_header t = be_bytes 4 BROKER_MAGIC @ be_bytes 2 BROKER_PROTOCOL_VERSION @ [message_type_raw t, 0]"

definition brk1_request_body :: "BrokerRequest \<Rightarrow> bytes" where
  "brk1_request_body r = prefixed16 (rq_task_id r) @ prefixed16 (rq_source r) @
     prefixed16 (rq_destination r) @ prefixed16 (rq_kind r) @
     [rq_priority r] @ be_bytes 4 (rq_timeout_ms r) @ prefixed32 (rq_payload r)"

definition brk1_response_body :: "BrokerResponse \<Rightarrow> bytes" where
  "brk1_response_body r = prefixed16 (rs_task_id r) @ [task_status_raw (rs_status r)] @
     be_bytes 4 (rs_selected_gpu r) @ be_bytes 8 (rs_latency_ms r) @
     prefixed32 (rs_result r) @ prefixed16 (rs_error r)"

definition brk1_string_ok :: "ProtocolLimits \<Rightarrow> string \<Rightarrow> bool" where
  "brk1_string_ok limits s \<longleftrightarrow> length s \<le> max_string_bytes limits \<and> length s < 2 ^ 16"

definition brk1_blob_ok :: "ProtocolLimits \<Rightarrow> bytes \<Rightarrow> bool" where
  "brk1_blob_ok limits b \<longleftrightarrow> length b \<le> max_payload_bytes limits \<and> length b < 2 ^ 32"

lemma length_brk1_header [simp]: "length (brk1_header t) = 8"
  by (simp add: brk1_header_def)

lemma brk1_append_string_iff:
  "brk1_append_string h limits out s = Inr out' \<longleftrightarrow> brk1_string_ok limits s \<and> out' = out @ prefixed16 s"
  by (auto simp: brk1_append_string_def brk1_string_ok_def append_bytes_def prefixed16_def)

lemma brk1_append_blob_iff:
  "brk1_append_blob h limits out b = Inr out' \<longleftrightarrow> brk1_blob_ok limits b \<and> out' = out @ prefixed32 b"
  by (auto simp: brk1_append_blob_def brk1_blob_ok_def append_bytes_def prefixed32_def)

lemma brk1_append_common_header: "brk1_append_common_header h [] t = brk1_header t"
  by (simp add: brk1_append_common_header_def brk1_header_def append_bytes_def)

lemmas brk1_append_simps = brk1_append_string_iff brk1_append_blob_iff brk1_append_common_header

lemma encode_request_frame_iff:
  "encode_request_frame h r limits = Inr f \<longleftrightarrow>
     validate_request r limits = Inr () \<and> f = brk1_header Request @ brk1_request_body r \<and>
     (brk1_string_ok limits (rq_task_id r) \<and> brk1_string_ok limits (rq_source r) \<and>
      brk1_string_ok limits (rq_destination r) \<and> brk1_string_ok limits (rq_kind r) \<and>
      brk1_blob_ok limits (rq_payload r)) \<and> length f \<le> max_frame_bytes limits"
  by (auto simp: encode_request_frame_def res_bind_Inr_iff Let_def brk1_append_simps append_bytes_def
      brk1_request_body_def)

lemma encode_response_frame_iff:
  "encode_response_frame h r limits = Inr f \<longleftrightarrow>
     f = brk1_header Response @ brk1_response_body r \<and>
     (brk1_string_ok limits (rs_task_id r) \<and> brk1_blob_ok limits (rs_result r) \<and>
      brk1_string_ok limits (rs_error r)) \<and> length f \<le> max_frame_bytes limits"
  by (auto simp: encode_response_frame_def res_bind_Inr_iff Let_def brk1_append_simps append_bytes_def
      brk1_response_body_def)

subsection \<open>The readers as wire fields\<close>

interpretation brk1_string: wire_field prefixed16 "brk1_read_string h limits" "brk1_string_ok limits"
  for h limits
  unfolding brk1_string_ok_def [abs_def]
  by (rule wire_prefixed16)
    (auto simp: brk1_read_string_def brk1_take_def Let_def be_word_load_16 intro!: take_or_cong)

interpretation brk1_blob: wire_field prefixed32 "brk1_read_blob h limits" "brk1_blob_ok limits"
  for h limits
  unfolding brk1_blob_ok_def [abs_def]
  by (rule wire_prefixed32)
    (auto simp: brk1_read_blob_def brk1_take_def Let_def be_word_load_32 intro!: take_or_cong)

text \<open>The two groups of fixed-width fields that one \<^verbatim>\<open>take\<close> covers.\<close>

definition brk1_read_schedule :: "endian \<Rightarrow> bytes \<Rightarrow> nat \<Rightarrow> ((u8 \<times> u32) \<times> nat) res" where
  "brk1_read_schedule h f off = res_bind (brk1_take (1 + 4) (length f) off) (\<lambda>_.
     Inr ((load h (bytes_at f off 1), ntohl h (load h (bytes_at f (off + 1) 4))), off + 1 + 4))"

definition brk1_read_outcome :: "endian \<Rightarrow> bytes \<Rightarrow> nat \<Rightarrow> ((TaskStatus \<times> i32 \<times> u64) \<times> nat) res" where
  "brk1_read_outcome h f off = res_bind (brk1_take (1 + 4 + 8) (length f) off) (\<lambda>_.
     if load h (bytes_at f off 1) > task_status_raw Timeout then Inl ''invalid broker response status''
     else Inr ((task_status_of_raw (load h (bytes_at f off 1)),
       ntohl h (load h (bytes_at f (off + 1) 4)),
       brk1_be64_to_host h (load h (bytes_at f (off + 1 + 4) 8))), off + 1 + 4 + 8))"

lemma task_status_of_raw_raw [simp]: "task_status_of_raw (task_status_raw s) = s"
  by (cases s) (simp_all add: task_status_of_raw_def)

lemma task_status_raw_of_raw: "b \<le> 3 \<Longrightarrow> task_status_raw (task_status_of_raw b) = b"
proof -
  assume "b \<le> 3"
  then have "unat b \<le> 3" by (simp add: word_le_nat_alt)
  then have "unat b \<in> {0, 1, 2, 3}" by auto
  then have "b \<in> {0, 1, 2, 3}" by (auto simp: word_unat_eq_iff)
  then show ?thesis by (auto simp: task_status_of_raw_def)
qed

lemma task_status_raw_le: "task_status_raw s \<le> 3"
  by (cases s) simp_all

interpretation brk1_schedule: wire_field "\<lambda>(p, t). [p] @ be_bytes 4 t" "brk1_read_schedule h" "\<lambda>_. True"
  for h
proof (rule wire_block [where m = "''frame truncated''" and n = 5 and
      dec = "\<lambda>bs. Inr (hd bs, be_word (tl bs))"])
  fix f off
  show "brk1_read_schedule h f off = res_bind (take_or ''frame truncated'' 5 (length f) off)
      (\<lambda>_. res_bind (Inr (hd (bytes_at f off 5), be_word (tl (bytes_at f off 5)))) (\<lambda>x. Inr (x, off + 5)))"
    unfolding brk1_read_schedule_def brk1_take_def
    by (rule take_or_cong) (simp_all add: bytes_at_parts load_u8 be_word_load_32)
next
  fix bs and x :: "u8 \<times> u32"
  assume "length bs = 5" "Inr (hd bs, be_word (tl bs)) = (Inr x :: _ res)"
  then show "True \<and> (case x of (p, t) \<Rightarrow> [p] @ be_bytes 4 t) = bs"
    by (cases bs) (auto simp: be_bytes_be_word)
qed auto

interpretation brk1_outcome: wire_field
  "\<lambda>(s, g, l). [task_status_raw s] @ be_bytes 4 (g :: i32) @ be_bytes 8 (l :: u64)" "brk1_read_outcome h" "\<lambda>_. True"
  for h
proof (rule wire_block [where m = "''frame truncated''" and n = 13 and
      dec = "\<lambda>bs. if hd bs > 3 then Inl ''invalid broker response status''
        else Inr (task_status_of_raw (hd bs), be_word (take 4 (tl bs)), be_word (drop 4 (tl bs)))"])
  fix f off
  let ?b = "bytes_at f off 13"
  show "brk1_read_outcome h f off = res_bind (take_or ''frame truncated'' 13 (length f) off)
      (\<lambda>_. res_bind (if hd ?b > 3 then Inl ''invalid broker response status''
        else Inr (task_status_of_raw (hd ?b), be_word (take 4 (tl ?b)), be_word (drop 4 (tl ?b))))
        (\<lambda>x. Inr (x, off + 13)))"
    unfolding brk1_read_outcome_def brk1_take_def
    by (rule take_or_cong) (simp_all add: bytes_at_parts load_u8 be_word_load_32 brk1_be64_to_host_load)
next
  fix bs and x :: "TaskStatus \<times> i32 \<times> u64"
  assume "length bs = 13" "(if hd bs > 3 then Inl ''invalid broker response status''
        else Inr (task_status_of_raw (hd bs), be_word (take 4 (tl bs)), be_word (drop 4 (tl bs)))) = Inr x"
  then show "True \<and> (case x of (s, g, l) \<Rightarrow> [task_status_raw s] @ be_bytes 4 g @ be_bytes 8 l) = bs"
    by (cases bs) (auto simp: be_bytes_be_word task_status_raw_of_raw)
qed (use task_status_raw_le in \<open>auto simp: not_less\<close>)

text \<open>The end of a request: the schedule followed by the payload.\<close>

interpretation brk1_tail: wire_pair "\<lambda>(p, t). [p] @ be_bytes 4 t" "brk1_read_schedule h" "\<lambda>_. True" prefixed32 "brk1_read_blob h limits" "brk1_blob_ok limits"
  for h limits
  by (rule wire_pair.intro [OF brk1_schedule.wire_field_axioms brk1_blob.wire_field_axioms])

subsection \<open>The header and whole frames\<close>

lemma brk1_decode_common_header_iff:
  "brk1_decode_common_header h limits t f 0 = Inr off \<longleftrightarrow>
     off = 8 \<and> length f \<le> max_frame_bytes limits \<and> (\<exists>r. f = brk1_header t @ r)"
proof (cases "8 \<le> length f")
  case True
  have "take 8 f = brk1_header t \<longleftrightarrow> be_word (bytes_at f 0 4) = BROKER_MAGIC \<and>
      be_word (bytes_at f 4 2) = BROKER_PROTOCOL_VERSION \<and>
      f ! 6 = message_type_raw t \<and> f ! 7 = 0"
    using True by (simp add: split_header brk1_header_def be_word_eq_iff)
  moreover have "take 8 f = brk1_header t \<longleftrightarrow> (\<exists>r. f = brk1_header t @ r)"
    by (metis append_eq_conv_conj append_take_drop_id length_brk1_header)
  ultimately show ?thesis
    using True
    by (auto simp: brk1_decode_common_header_def brk1_take_def Let_def be_word_load_16 be_word_load_32 load_u8)
next
  case False
  then have "f \<noteq> brk1_header t @ r" for r by auto
  with False show ?thesis
    by (simp add: brk1_decode_common_header_def brk1_take_def)
qed

definition brk1_read_request :: "endian \<Rightarrow> ProtocolLimits \<Rightarrow> bytes \<Rightarrow> nat \<Rightarrow>
    ((string \<times> string \<times> string \<times> string \<times> (u8 \<times> u32) \<times> bytes) \<times> nat) res" where
  "brk1_read_request h limits =
     seq_rd (brk1_read_string h limits) (seq_rd (brk1_read_string h limits)
       (seq_rd (brk1_read_string h limits) (seq_rd (brk1_read_string h limits)
         (seq_rd (brk1_read_schedule h) (brk1_read_blob h limits)))))"

definition brk1_read_response :: "endian \<Rightarrow> ProtocolLimits \<Rightarrow> bytes \<Rightarrow> nat \<Rightarrow>
    ((string \<times> (TaskStatus \<times> i32 \<times> u64) \<times> bytes \<times> string) \<times> nat) res" where
  "brk1_read_response h limits =
     seq_rd (brk1_read_string h limits) (seq_rd (brk1_read_outcome h)
       (seq_rd (brk1_read_blob h limits) (brk1_read_string h limits)))"

lemmas brk1_request_wire =
  wire_seq [OF brk1_string.wire_field_axioms [of h limits] wire_seq [OF brk1_string.wire_field_axioms [of h limits]
    wire_seq [OF brk1_string.wire_field_axioms [of h limits] wire_seq [OF brk1_string.wire_field_axioms [of h limits]
      brk1_tail.pair_wire_field [of h limits]]]],
    folded brk1_read_request_def] for h limits

lemmas brk1_response_wire =
  wire_seq [OF brk1_string.wire_field_axioms [of h limits] wire_seq [OF brk1_outcome.wire_field_axioms [of h]
    wire_seq [OF brk1_blob.wire_field_axioms [of h limits] brk1_string.wire_field_axioms [of h limits]]],
    folded brk1_read_response_def] for h limits

lemma decode_request_frame_norm:
  "decode_request_frame h f limits =
     res_bind (brk1_decode_common_header h limits Request f 0) (\<lambda>off.
     res_bind (brk1_read_request h limits f off) (\<lambda>((t, s, d, k, (p, ms), b), off).
     if off \<noteq> length f then Inl ''request frame contains trailing bytes''
     else let request = \<lparr> rq_task_id = t, rq_source = s, rq_destination = d, rq_kind = k,
            rq_priority = p, rq_timeout_ms = ms, rq_payload = b,
            rq_profile = None, rq_device_preference = [] \<rparr> in
       res_bind (validate_request request limits) (\<lambda>_. Inr request)))"
  by (simp add: decode_request_frame_def brk1_read_request_def brk1_read_schedule_def seq_rd_norm Let_def)

lemma decode_response_frame_norm:
  "decode_response_frame h f limits =
     res_bind (brk1_decode_common_header h limits Response f 0) (\<lambda>off.
     res_bind (brk1_read_response h limits f off) (\<lambda>((t, (st, g, l), b, e), off).
     if off \<noteq> length f then Inl ''response frame contains trailing bytes''
     else Inr \<lparr> rs_task_id = t, rs_status = st, rs_selected_gpu = g, rs_latency_ms = l,
       rs_result = b, rs_error = e, rs_backend = Cpu, rs_fell_back_to_cpu = False \<rparr>))"
  by (simp add: decode_response_frame_def brk1_read_response_def brk1_read_outcome_def seq_rd_norm Let_def
      cong: if_cong)

lemma decode_request_frame_Inr_iff:
  "decode_request_frame h f limits = Inr r \<longleftrightarrow>
     encode_request_frame h' r limits = Inr f \<and> rq_profile r = None \<and> rq_device_preference r = []"
proof (cases "length f \<le> max_frame_bytes limits \<and> (\<exists>b. f = brk1_header Request @ b)")
  case True
  then obtain b where f: "f = brk1_header Request @ b" by blast
  then have c: "cursor f 8 b" by (simp add: cursor_def)
  from True have hd: "brk1_decode_common_header h limits Request f 0 = Inr 8"
    by (simp add: brk1_decode_common_header_iff)
  have "decode_request_frame h f limits = Inr r \<longleftrightarrow>
      (\<exists>x. brk1_read_request h limits f 8 = Inr (x, length f) \<and>
        (case x of (t, s, d, k, (p, ms), b) \<Rightarrow>
          r = \<lparr> rq_task_id = t, rq_source = s, rq_destination = d, rq_kind = k, rq_priority = p,
            rq_timeout_ms = ms, rq_payload = b, rq_profile = None, rq_device_preference = [] \<rparr>) \<and>
        validate_request r limits = Inr ())"
    unfolding decode_request_frame_norm hd
    by (auto simp: res_bind_Inr_iff Let_def split: prod.splits)
  then show ?thesis
    unfolding wire_field.rd_exact_at [OF brk1_request_wire c]
    using True f by (cases r) (auto simp: encode_request_frame_iff brk1_request_body_def)
next
  case False
  then show ?thesis
    by (auto simp: decode_request_frame_norm brk1_decode_common_header_iff encode_request_frame_iff)
qed

lemma decode_response_frame_Inr_iff:
  "decode_response_frame h f limits = Inr r \<longleftrightarrow>
     encode_response_frame h' r limits = Inr f \<and> rs_backend r = Cpu \<and> \<not> rs_fell_back_to_cpu r"
proof (cases "length f \<le> max_frame_bytes limits \<and> (\<exists>b. f = brk1_header Response @ b)")
  case True
  then obtain b where f: "f = brk1_header Response @ b" by blast
  then have c: "cursor f 8 b" by (simp add: cursor_def)
  from True have hd: "brk1_decode_common_header h limits Response f 0 = Inr 8"
    by (simp add: brk1_decode_common_header_iff)
  have "decode_response_frame h f limits = Inr r \<longleftrightarrow>
      (\<exists>x. brk1_read_response h limits f 8 = Inr (x, length f) \<and>
        (case x of (t, (st, g, l), b, e) \<Rightarrow>
          r = \<lparr> rs_task_id = t, rs_status = st, rs_selected_gpu = g, rs_latency_ms = l,
            rs_result = b, rs_error = e, rs_backend = Cpu, rs_fell_back_to_cpu = False \<rparr>))"
    unfolding decode_response_frame_norm hd
    by (auto simp: res_bind_Inr_iff split: prod.splits)
  then show ?thesis
    unfolding wire_field.rd_exact_at [OF brk1_response_wire c]
    using True f by (cases r) (auto simp: encode_response_frame_iff brk1_response_body_def)
next
  case False
  then show ?thesis
    by (auto simp: decode_response_frame_norm brk1_decode_common_header_iff encode_response_frame_iff)
qed

lemma brk1_request_prefix_free:
  assumes "decode_request_frame h f limits = Inr r" "decode_request_frame h' (f @ q) limits' = Inr r'"
  shows "q = [] \<and> r = r'"
proof -
  let ?x = "\<lambda>r. (rq_task_id r, rq_source r, rq_destination r, rq_kind r,
    (rq_priority r, rq_timeout_ms r), rq_payload r)"
  let ?L = "limits \<lparr> max_payload_bytes := max (max_payload_bytes limits) (max_payload_bytes limits'),
    max_string_bytes := max (max_string_bytes limits) (max_string_bytes limits') \<rparr>"
  from assms have e: "encode_request_frame h r limits = Inr f" "encode_request_frame h r' limits' = Inr (f @ q)"
    by (simp_all add: decode_request_frame_Inr_iff [where h' = h])
  then have eq: "brk1_request_body r @ q = brk1_request_body r' @ []"
    by (auto simp: encode_request_frame_iff)
  from e have "?x r = ?x r' \<and> q = []"
    by (intro wire_field.enc_prefix_free [OF brk1_request_wire [of h ?L]])
      (use eq in \<open>auto simp: encode_request_frame_iff brk1_request_body_def brk1_string_ok_def brk1_blob_ok_def\<close>)
  then have "?x r = ?x r'" "q = []" by blast+
  moreover from assms have "rq_profile r = None" "rq_profile r' = None"
      "rq_device_preference r = []" "rq_device_preference r' = []"
    by (simp_all add: decode_request_frame_Inr_iff [where h' = h])
  ultimately show ?thesis by (simp add: BrokerRequest.equality)
qed

lemma validate_request_Inr_iff:
  "validate_request r limits = Inr u \<longleftrightarrow>
     rq_task_id r \<noteq> [] \<and> rq_source r \<noteq> [] \<and> rq_destination r \<noteq> [] \<and> rq_kind r \<noteq> [] \<and>
     0 < rq_timeout_ms r \<and> rq_timeout_ms r \<le> 300000 \<and> length (rq_payload r) \<le> max_payload_bytes limits"
  by (auto simp: validate_request_def BROKER_MAX_TIMEOUT_MS_def word_neq_0_conv)

lemma length_brk1_bodies:
  "length (brk1_request_body r) = 17 + length (rq_task_id r) + length (rq_source r) +
     length (rq_destination r) + length (rq_kind r) + length (rq_payload r)"
  "length (brk1_response_body r') = 21 + length (rs_task_id r') + length (rs_result r') + length (rs_error r')"
  by (simp_all add: brk1_request_body_def brk1_response_body_def)

subsection \<open>Properties\<close>

text \<open>C9. The BRK1 request decoder accepts exactly the frames the request encoder produces, and returns
  the encoded request: a frame decodes to \<open>r\<close> if and only if encoding \<open>r\<close> gives that frame,
  whatever the byte orders \<open>h\<close> of the decoding and \<open>h'\<close> of the encoding host, and for every
  choice of limits.  The two fields that BRK1 does not carry (the profile and the device preference)
  are absent in a decoded request.\<close>

theorem brk1_request_codec:
  "decode_request_frame h f limits = Inr r \<longleftrightarrow>
     encode_request_frame h' r limits = Inr f \<and> rq_profile r = None \<and> rq_device_preference r = []"
  by (rule decode_request_frame_Inr_iff)

text \<open>No accepted BRK1 request frame is a proper prefix of another one, under any limits and on any
  hosts: bytes appended to an accepted frame, or cut off its end, make the decoder refuse it.\<close>

lemma brk1_request_no_proper_extension:
  assumes "decode_request_frame h f limits = Inr r" "q \<noteq> []"
  shows "\<exists>e. decode_request_frame h' (f @ q) limits' = Inl e"
proof (cases "decode_request_frame h' (f @ q) limits'")
  case (Inr r')
  from brk1_request_prefix_free [OF assms(1) this] assms(2) show ?thesis by simp
qed simp

definition brk1_sample_request :: BrokerRequest where
  "brk1_sample_request = \<lparr> rq_task_id = ''t1'', rq_source = ''a'', rq_destination = ''b'', rq_kind = ''k'',
     rq_priority = 7, rq_timeout_ms = 1000, rq_payload = [1, 2, 3], rq_profile = None,
     rq_device_preference = [] \<rparr>"

lemma brk1_sample_request_decodes:
  "decode_request_frame h (brk1_header Request @ brk1_request_body brk1_sample_request) ProtocolLimits_default
     = Inr brk1_sample_request"
  by (simp add: decode_request_frame_Inr_iff [where h' = h] encode_request_frame_iff validate_request_Inr_iff
      length_brk1_bodies brk1_sample_request_def brk1_string_ok_def brk1_blob_ok_def ProtocolLimits_default_def)

text \<open>Every BRK1 request that reaches the broker is within the protocol's bounds: the four strings
  are non-empty and at most the configured length, the payload is at most the configured size, the
  timeout is between 1 ms and 300000 ms, and the frame has exactly the documented length and is at
  most the configured one.\<close>

lemma brk1_decoded_request_bounds:
  assumes "decode_request_frame h f limits = Inr r"
  shows "(\<forall>s \<in> {rq_task_id r, rq_source r, rq_destination r, rq_kind r}.
            s \<noteq> [] \<and> length s \<le> max_string_bytes limits) \<and>
         length (rq_payload r) \<le> max_payload_bytes limits \<and>
         1 \<le> unat (rq_timeout_ms r) \<and> unat (rq_timeout_ms r) \<le> 300000 \<and>
         length f = 25 + length (rq_task_id r) + length (rq_source r) + length (rq_destination r) +
           length (rq_kind r) + length (rq_payload r) \<and>
         length f \<le> max_frame_bytes limits"
proof -
  from assms have "encode_request_frame h r limits = Inr f" by (simp add: decode_request_frame_Inr_iff [where h' = h])
  then show ?thesis
    by (auto simp: encode_request_frame_iff validate_request_Inr_iff length_brk1_bodies brk1_string_ok_def
        word_le_nat_alt Suc_le_eq word_less_nat_alt)
qed

text \<open>The checks of the BRK1 common header, in order: for any four header fields and any body, the
  header function reports an oversized frame first, then a wrong magic, version, message type and
  reserved byte, each with its own message, and otherwise stops right behind the 8-byte header.\<close>

lemma brk1_header_outcomes:
  "brk1_decode_common_header h limits t
       (be_bytes 4 (magic :: u32) @ be_bytes 2 (version :: u16) @ [type, reserved] @ body) 0 =
     (if max_frame_bytes limits < 8 + length body then Inl ''invalid frame size''
      else if magic \<noteq> 0x42524b31 then Inl ''invalid broker protocol magic''
      else if version \<noteq> 1 then Inl ''unsupported broker protocol version''
      else if type \<noteq> message_type_raw t then Inl ''unexpected broker protocol message type''
      else if reserved \<noteq> 0 then Inl ''reserved broker protocol byte must be zero''
      else Inr 8)"
proof -
  define f where "f = be_bytes 4 magic @ be_bytes 2 version @ [type, reserved] @ body"
  have len: "length f = 8 + length body" by (simp add: f_def)
  have parts: "bytes_at f 0 4 = be_bytes 4 magic" "bytes_at f 4 2 = be_bytes 2 version"
    "bytes_at f 6 1 = [type]" "bytes_at f 7 1 = [reserved]"
    by (simp_all add: f_def bytes_at_def)
  have host: "ntohl h (load h (be_bytes 4 magic)) = magic" "ntohs h (load h (be_bytes 2 version)) = version"
    "load h [type] = type" "load h [reserved] = reserved"
    by (simp_all add: be_word_load_16 be_word_load_32 load_u8)
  have "f \<noteq> []" using len by auto
  then show ?thesis
    unfolding f_def [symmetric] brk1_decode_common_header_def brk1_take_def Let_def len
    using parts by (simp add: host BROKER_MAGIC_def BROKER_PROTOCOL_VERSION_def)
qed

end
