(* ===== verification/Utf8.thy ===== *)
theory Utf8
  imports Wire
begin

text \<open>
  \<^verbatim>\<open>valid_utf8\<close> of \<^verbatim>\<open>src/brk2_protocol.cpp\<close>, and its equivalence with the definition of UTF-8: a
  byte string is accepted if and only if it is the concatenation of the encodings of Unicode scalar
  values.
\<close>

subsection \<open>The validator\<close>

text \<open>The lead byte: the bits it contributes and the number of continuation bytes.\<close>

definition utf8_lead :: "u8 \<Rightarrow> (u32 \<times> nat) option" where
  "utf8_lead c =
     (if c \<ge> 0xc2 \<and> c \<le> 0xdf then Some (ucast (c AND 0x1f), 1)
      else if c \<ge> 0xe0 \<and> c \<le> 0xef then Some (ucast (c AND 0x0f), 2)
      else if c \<ge> 0xf0 \<and> c \<le> 0xf4 then Some (ucast (c AND 0x07), 3)
      else None)"

text \<open>The inner loop: \<open>j\<close> more continuation bytes from index \<open>i\<close>.\<close>

primrec utf8_tail :: "bytes \<Rightarrow> nat \<Rightarrow> nat \<Rightarrow> u32 \<Rightarrow> (u32 \<times> nat) option" where
  "utf8_tail p 0 i cp = Some (cp, i)"
| "utf8_tail p (Suc j) i cp =
     (let d = p ! i; i = i + 1 in
      if d AND 0xc0 \<noteq> 0x80 then None else utf8_tail p j i (push_bit 6 cp OR ucast (d AND 0x3f)))"

definition utf8_bad :: "nat \<Rightarrow> u32 \<Rightarrow> bool" where
  "utf8_bad extra cp \<longleftrightarrow> extra = 1 \<and> cp < 0x80 \<or> extra = 2 \<and> cp < 0x800 \<or> extra = 3 \<and> cp < 0x10000 \<or>
     cp > 0x10ffff \<or> cp \<ge> 0xd800 \<and> cp \<le> 0xdfff"

lemma utf8_tail_index: "utf8_tail p j i cp = Some (cp', i') \<Longrightarrow> i' = i + j"
  by (induction j arbitrary: i cp) (fastforce simp: Let_def split: if_splits)+

function valid_utf8_from :: "bytes \<Rightarrow> nat \<Rightarrow> bool" where
  "valid_utf8_from p i =
     (if i < length p then
        let c = p ! i; i = i + 1 in
        if c \<le> 0x7f then valid_utf8_from p i
        else case utf8_lead c of
          None \<Rightarrow> False
        | Some (cp, extra) \<Rightarrow>
            if extra > length p - i then False
            else case utf8_tail p extra i cp of
              None \<Rightarrow> False
            | Some (cp, i) \<Rightarrow> if utf8_bad extra cp then False else valid_utf8_from p i
      else True)"
  by pat_completeness auto

termination
  by (relation "measure (\<lambda>(p, i). length p - i)") (auto dest!: utf8_tail_index)

declare valid_utf8_from.simps [simp del]

definition valid_utf8 :: "bytes \<Rightarrow> bool" where
  "valid_utf8 p = valid_utf8_from p 0"

subsection \<open>The reference\<close>

definition scalar_value :: "nat \<Rightarrow> bool" where
  "scalar_value n \<longleftrightarrow> n \<le> 0x10ffff \<and> \<not> (0xd800 \<le> n \<and> n \<le> 0xdfff)"

definition utf8_encode :: "nat \<Rightarrow> bytes" where
  "utf8_encode n = map word_of_nat
     (if n < 0x80 then [n]
      else if n < 0x800 then [0xc0 + n div 64, 0x80 + n mod 64]
      else if n < 0x10000 then [0xe0 + n div 4096, 0x80 + n div 64 mod 64, 0x80 + n mod 64]
      else [0xf0 + n div 262144, 0x80 + n div 4096 mod 64, 0x80 + n div 64 mod 64, 0x80 + n mod 64])"

definition utf8_text :: "bytes \<Rightarrow> bool" where
  "utf8_text p \<longleftrightarrow> (\<exists>ns. list_all scalar_value ns \<and> p = concat (map utf8_encode ns))"

subsection \<open>Bit fields of bytes\<close>

lemma unat_and_mask: "unat (b AND mask n) = unat b mod 2 ^ n"
  unfolding take_bit_eq_mask [symmetric] unsigned_take_bit_eq by (rule take_bit_eq_mod)

lemma unat_low_bits:
  "unat (b AND 0x3f :: u8) = unat b mod 64" "unat (b AND 0x1f :: u8) = unat b mod 32"
  "unat (b AND 0x0f :: u8) = unat b mod 16" "unat (b AND 0x07 :: u8) = unat b mod 8"
  using unat_and_mask [of b 6] unat_and_mask [of b 5] unat_and_mask [of b 4] unat_and_mask [of b 3]
  by (simp_all add: mask_eq_exp_minus_1)

lemma continuation_iff: "d AND 0xc0 = (0x80 :: u8) \<longleftrightarrow> 128 \<le> unat d \<and> unat d < 192"
proof -
  have c: "(0xc0 :: u8) = NOT (mask 6)" by (simp add: mask_eq_exp_minus_1)
  have "d AND NOT (mask 6) = push_bit 6 (drop_bit 6 d)"
    by (rule bit_word_eqI) (auto simp: bit_simps simp del: mask_numeral)
  also have "\<dots> = d - take_bit 6 d" by (metis add_diff_cancel_right' bits_ident)
  finally have "d AND 0xc0 = d - take_bit 6 d" unfolding c .
  moreover have t: "unat (take_bit 6 d) = unat d mod 64" unfolding unsigned_take_bit_eq by (simp add: take_bit_eq_mod)
  then have "take_bit 6 d \<le> d" by (simp add: word_le_nat_alt)
  ultimately have "unat (d AND 0xc0) = unat d - unat d mod 64" using t by (simp add: unat_sub)
  then have "d AND 0xc0 = 0x80 \<longleftrightarrow> unat d - unat d mod 64 = 128" by (simp add: word_unat_eq_iff)
  also have "\<dots> \<longleftrightarrow> unat d div 64 = 2" by (simp add: minus_mod_eq_mult_div)
  also have "\<dots> \<longleftrightarrow> 128 \<le> unat d \<and> unat d < 192" by linarith
  finally show ?thesis .
qed

subsection \<open>One character\<close>

definition cont :: "u8 \<Rightarrow> bool" where
  "cont d \<longleftrightarrow> 128 \<le> unat d \<and> unat d < 192"

definition utf8_add :: "u32 \<Rightarrow> u8 \<Rightarrow> u32" where
  "utf8_add cp d = push_bit 6 cp OR ucast (d AND 0x3f)"

lemma utf8_tail_Suc:
  "utf8_tail p (Suc j) i cp = (if cont (p ! i) then utf8_tail p j (i + 1) (utf8_add cp (p ! i)) else None)"
  by (simp add: Let_def continuation_iff cont_def utf8_add_def)

lemma unat_utf8_add:
  assumes "unat cp < 2 ^ 26" "cont d"
  shows "unat (utf8_add cp d) = unat cp * 64 + (unat d - 128)"
proof -
  have m: "(0x3f :: u8) = mask 6" by (simp add: mask_eq_exp_minus_1)
  have md: "unat d mod 64 = unat d - 128"
  proof -
    have "unat d = (unat d - 128) + 64 * 2" "unat d - 128 < 64" using assms(2) by (auto simp: cont_def)
    then show ?thesis by (metis mod_less mod_mult_self2)
  qed
  have low: "unat (ucast (d AND 0x3f) :: u32) = unat d mod 64"
    by (simp add: unsigned_ucast_eq take_bit_eq_mod unat_low_bits)
  have high: "unat (push_bit 6 cp) = unat cp * 64"
    using assms by (simp add: push_bit_eq_mult unat_word_ariths)
  have "utf8_add cp d = push_bit 6 cp + ucast (d AND 0x3f)"
    unfolding utf8_add_def m
    by (rule disjunctive_add [symmetric]) (auto simp: bit_simps simp del: mask_numeral)
  then have "unat (utf8_add cp d) = (unat cp * 64 + unat d mod 64) mod 2 ^ LENGTH(32)"
    by (simp only: unat_word_ariths(1) high low)
  also have "\<dots> = unat cp * 64 + (unat d - 128)"
    using assms md by (simp add: mod_less cont_def)
  finally show ?thesis .
qed

lemma utf8_lead_cases:
  "utf8_lead c =
     (if 194 \<le> unat c \<and> unat c \<le> 223 then Some (word_of_nat (unat c - 192), 1)
      else if 224 \<le> unat c \<and> unat c \<le> 239 then Some (word_of_nat (unat c - 224), 2)
      else if 240 \<le> unat c \<and> unat c \<le> 244 then Some (word_of_nat (unat c - 240), 3)
      else None)"
proof -
  have low: "ucast (c AND m) = (word_of_nat (unat (c AND m)) :: u32)" for m by simp
  have "unat c mod 32 = unat c - 192" if "194 \<le> unat c" "unat c \<le> 223"
  proof -
    have "unat c = (unat c - 192) + 32 * 6" "unat c - 192 < 32" using that by auto
    then show ?thesis by (metis mod_less mod_mult_self2)
  qed
  moreover have "unat c mod 16 = unat c - 224" if "224 \<le> unat c" "unat c \<le> 239"
  proof -
    have "unat c = (unat c - 224) + 16 * 14" "unat c - 224 < 16" using that by auto
    then show ?thesis by (metis mod_less mod_mult_self2)
  qed
  moreover have "unat c mod 8 = unat c - 240" if "240 \<le> unat c" "unat c \<le> 244"
  proof -
    have "unat c = (unat c - 240) + 8 * 30" "unat c - 240 < 8" using that by auto
    then show ?thesis by (metis mod_less mod_mult_self2)
  qed
  ultimately show ?thesis
    unfolding utf8_lead_def low unat_low_bits by (simp add: word_le_nat_alt)
qed

lemma utf8_bad_iff:
  "utf8_bad extra cp \<longleftrightarrow> extra = 1 \<and> unat cp < 128 \<or> extra = 2 \<and> unat cp < 2048 \<or> extra = 3 \<and> unat cp < 65536 \<or>
     \<not> scalar_value (unat cp)"
  by (auto simp: utf8_bad_def scalar_value_def word_less_nat_alt word_le_nat_alt)

lemma unat_add_lead:
  "n \<le> 31 \<Longrightarrow> cont d \<Longrightarrow> unat (utf8_add (word_of_nat n) d) = n * 64 + (unat d - 128)"
  by (simp add: unat_utf8_add unat_of_nat)

lemma cont_less: "cont d \<Longrightarrow> unat d - 128 < 64"
  by (auto simp: cont_def)

lemma utf8_tail_shift:
  "i \<le> length p \<Longrightarrow>
    utf8_tail p j (i + k) cp = map_option (\<lambda>(c, k). (c, i + k)) (utf8_tail (drop i p) j k cp)"
proof (induction j arbitrary: k cp)
  case (Suc j)
  then show ?case using Suc.IH [of "k + 1"] by (simp add: utf8_tail_Suc del: utf8_tail.simps(2))
qed simp

text \<open>The loop from index \<open>i\<close> is the loop on the suffix.\<close>

lemma valid_utf8_from_lead:
  assumes "i < length p" "128 \<le> unat (p ! i)"
  shows "valid_utf8_from p i \<longleftrightarrow>
    (case utf8_lead (p ! i) of None \<Rightarrow> False
     | Some (cp, extra) \<Rightarrow> i + 1 + extra \<le> length p \<and>
         (case utf8_tail p extra (i + 1) cp of None \<Rightarrow> False
          | Some (cp, _) \<Rightarrow> \<not> utf8_bad extra cp \<and> valid_utf8_from p (i + 1 + extra)))"
  using assms
  by (subst valid_utf8_from.simps)
    (auto simp: Let_def word_le_nat_alt split: option.splits dest!: utf8_tail_index)

lemma valid_utf8_from_ascii:
  "i < length p \<Longrightarrow> unat (p ! i) < 128 \<Longrightarrow> valid_utf8_from p i \<longleftrightarrow> valid_utf8_from p (i + 1)"
  by (subst valid_utf8_from.simps) (simp add: Let_def word_le_nat_alt)

lemma valid_utf8_from_end: "length p \<le> i \<Longrightarrow> valid_utf8_from p i"
  by (subst valid_utf8_from.simps) simp

lemma valid_utf8_from_shift:
  "i \<le> length p \<Longrightarrow> valid_utf8_from p (i + k) = valid_utf8_from (drop i p) k"
proof (induction "length p - (i + k)" arbitrary: k rule: less_induct)
  case less
  consider "length p \<le> i + k" | "i + k < length p" "unat (p ! (i + k)) < 128" | "i + k < length p" "128 \<le> unat (p ! (i + k))"
    by linarith
  then show ?case
  proof cases
    case 1
    then show ?thesis by (simp add: valid_utf8_from_end)
  next
    case 2
    then show ?thesis using less.prems less.hyps [of "k + 1"] by (simp add: valid_utf8_from_ascii)
  next
    case 3
    have IH: "valid_utf8_from p (i + (k + 1 + e)) = valid_utf8_from (drop i p) (k + 1 + e)" for e
      using 3 less.prems by (intro less.hyps) auto
    have tail: "utf8_tail p e (Suc (i + k)) cp = map_option (\<lambda>(c, k). (c, i + k)) (utf8_tail (drop i p) e (Suc k) cp)" for e cp
      using utf8_tail_shift [OF less.prems, of e "Suc k" cp] by simp
    show ?thesis
      using 3 less.prems IH
      by (simp add: valid_utf8_from_lead tail add.assoc less_diff_conv2)
        (auto split: option.splits simp: tail add.assoc)
  qed
qed

lemma valid_utf8_drop: "i \<le> length p \<Longrightarrow> valid_utf8_from p i = valid_utf8 (drop i p)"
  using valid_utf8_from_shift [of i p 0] by (simp add: valid_utf8_def)

lemma valid_utf8_Nil: "valid_utf8 []"
  by (simp add: valid_utf8_def valid_utf8_from_end)

lemma valid_utf8_1: "unat a < 128 \<Longrightarrow> valid_utf8 (a # p) = valid_utf8 p"
  by (subst valid_utf8_def) (simp add: valid_utf8_from_ascii valid_utf8_drop)

lemma utf8_tail_1:
  "utf8_tail p 1 i cp = (if cont (p ! i) then Some (utf8_add cp (p ! i), i + 1) else None)"
  unfolding One_nat_def utf8_tail_Suc by simp

lemma utf8_tail_2:
  "utf8_tail p 2 i cp = (if cont (p ! i) \<and> cont (p ! (i + 1))
     then Some (utf8_add (utf8_add cp (p ! i)) (p ! (i + 1)), i + 2) else None)"
  unfolding numeral_2_eq_2 utf8_tail_Suc by simp

lemma utf8_tail_3:
  "utf8_tail p 3 i cp = (if cont (p ! i) \<and> cont (p ! (i + 1)) \<and> cont (p ! (i + 2))
     then Some (utf8_add (utf8_add (utf8_add cp (p ! i)) (p ! (i + 1))) (p ! (i + 2)), i + 3) else None)"
  unfolding numeral_3_eq_3 utf8_tail_Suc by (simp add: numeral_2_eq_2)

lemma valid_utf8_lead:
  "128 \<le> unat a \<Longrightarrow> valid_utf8 (a # p) \<longleftrightarrow>
    (case utf8_lead a of None \<Rightarrow> False
     | Some (cp, extra) \<Rightarrow> extra \<le> length p \<and>
         (case utf8_tail (a # p) extra 1 cp of None \<Rightarrow> False
          | Some (cp, _) \<Rightarrow> \<not> utf8_bad extra cp \<and> valid_utf8 (drop extra p)))"
  by (subst valid_utf8_def) (auto simp: valid_utf8_from_lead valid_utf8_drop split: option.splits)

lemma valid_utf8_2:
  assumes "194 \<le> unat a" "unat a \<le> 223"
  shows "valid_utf8 (a # p) \<longleftrightarrow> (\<exists>b q n. p = b # q \<and> cont b \<and>
    n = (unat a - 192) * 64 + (unat b - 128) \<and> scalar_value n \<and> 128 \<le> n \<and> valid_utf8 q)"
proof -
  have "utf8_lead a = Some (word_of_nat (unat a - 192), 1)"
    using assms by (simp add: utf8_lead_cases del: of_nat_diff)
  moreover have "unat (utf8_add (word_of_nat (unat a - 192)) b) = (unat a - 192) * 64 + (unat b - 128)" if "cont b" for b
    using assms that by (intro unat_add_lead) auto
  ultimately show ?thesis
    using assms by (cases p) (auto simp: valid_utf8_lead utf8_tail_1 utf8_bad_iff drop_Cons' simp del: One_nat_def of_nat_diff)
qed

lemma valid_utf8_3:
  assumes "224 \<le> unat a" "unat a \<le> 239"
  shows "valid_utf8 (a # p) \<longleftrightarrow> (\<exists>b c q n. p = b # c # q \<and> cont b \<and> cont c \<and>
    n = ((unat a - 224) * 64 + (unat b - 128)) * 64 + (unat c - 128) \<and> scalar_value n \<and> 2048 \<le> n \<and> valid_utf8 q)"
proof -
  have "utf8_lead a = Some (word_of_nat (unat a - 224), 2)"
    using assms by (simp add: utf8_lead_cases del: of_nat_diff)
  moreover have "unat (utf8_add (utf8_add (word_of_nat (unat a - 224)) b) c) =
      ((unat a - 224) * 64 + (unat b - 128)) * 64 + (unat c - 128)" if "cont b" "cont c" for b c
  proof -
    have 1: "unat (utf8_add (word_of_nat (unat a - 224)) b) = (unat a - 224) * 64 + (unat b - 128)"
      using assms that by (intro unat_add_lead) auto
    also have "\<dots> < 2 ^ 26" using assms cont_less [OF that(1)] by simp
    finally show ?thesis using that 1 by (simp add: unat_utf8_add)
  qed
  moreover have "2 \<le> length p \<longleftrightarrow> (\<exists>b c q. p = b # c # q)"
    by (auto simp: Suc_le_length_iff numeral_2_eq_2)
  ultimately show ?thesis
    using assms by (auto simp: valid_utf8_lead utf8_tail_2 utf8_bad_iff simp del: of_nat_diff)
qed

lemma valid_utf8_4:
  assumes "240 \<le> unat a" "unat a \<le> 244"
  shows "valid_utf8 (a # p) \<longleftrightarrow> (\<exists>b c d q n. p = b # c # d # q \<and> cont b \<and> cont c \<and> cont d \<and>
    n = (((unat a - 240) * 64 + (unat b - 128)) * 64 + (unat c - 128)) * 64 + (unat d - 128) \<and>
    scalar_value n \<and> 65536 \<le> n \<and> valid_utf8 q)"
proof -
  have "utf8_lead a = Some (word_of_nat (unat a - 240), 3)"
    using assms by (simp add: utf8_lead_cases del: of_nat_diff)
  moreover have "unat (utf8_add (utf8_add (utf8_add (word_of_nat (unat a - 240)) b) c) d) =
      (((unat a - 240) * 64 + (unat b - 128)) * 64 + (unat c - 128)) * 64 + (unat d - 128)"
    if "cont b" "cont c" "cont d" for b c d
  proof -
    have 1: "unat (utf8_add (word_of_nat (unat a - 240)) b) = (unat a - 240) * 64 + (unat b - 128)"
      using assms that by (intro unat_add_lead) auto
    then have "unat (utf8_add (word_of_nat (unat a - 240)) b) < 2 ^ 26" using assms cont_less [OF that(1)] by simp
    then have 2: "unat (utf8_add (utf8_add (word_of_nat (unat a - 240)) b) c) =
        ((unat a - 240) * 64 + (unat b - 128)) * 64 + (unat c - 128)"
      using that 1 by (simp add: unat_utf8_add)
    also have "\<dots> < 2 ^ 26" using assms cont_less [OF that(1)] cont_less [OF that(2)] by simp
    finally show ?thesis using that 2 by (simp add: unat_utf8_add)
  qed
  moreover have "3 \<le> length p \<longleftrightarrow> (\<exists>b c d q. p = b # c # d # q)"
    by (auto simp: Suc_le_length_iff numeral_3_eq_3)
  ultimately show ?thesis
    using assms by (auto simp: valid_utf8_lead utf8_tail_3 utf8_bad_iff simp del: of_nat_diff)
qed

lemma valid_utf8_other:
  "128 \<le> unat a \<Longrightarrow> unat a < 194 \<or> 244 < unat a \<Longrightarrow> \<not> valid_utf8 (a # p)"
  by (auto simp: valid_utf8_lead utf8_lead_cases)

subsection \<open>Encodings\<close>

lemma unat_u8_of_nat: "n < 256 \<Longrightarrow> unat (word_of_nat n :: u8) = n"
  by (simp add: unat_of_nat)

lemma u8_eq_of_nat: "n < 256 \<Longrightarrow> (a :: u8) = word_of_nat n \<longleftrightarrow> unat a = n"
  by (auto simp: unat_of_nat)

lemma utf8_encode_Cons:
  assumes "n \<le> 0x10ffff"
  shows "a # p = utf8_encode n @ q \<longleftrightarrow>
    n < 128 \<and> unat a = n \<and> p = q \<or>
    128 \<le> n \<and> n < 2048 \<and> (\<exists>b. p = b # q \<and> unat a = 192 + n div 64 \<and> unat b = 128 + n mod 64) \<or>
    2048 \<le> n \<and> n < 65536 \<and> (\<exists>b c. p = b # c # q \<and> unat a = 224 + n div 4096 \<and>
      unat b = 128 + n div 64 mod 64 \<and> unat c = 128 + n mod 64) \<or>
    65536 \<le> n \<and> (\<exists>b c d. p = b # c # d # q \<and> unat a = 240 + n div 262144 \<and>
      unat b = 128 + n div 4096 mod 64 \<and> unat c = 128 + n div 64 mod 64 \<and> unat d = 128 + n mod 64)"
proof -
  consider "n < 128" | "128 \<le> n" "n < 2048" | "2048 \<le> n" "n < 65536" | "65536 \<le> n" by linarith
  then show ?thesis
  proof cases
    case 1
    then show ?thesis by (auto simp: utf8_encode_def u8_eq_of_nat)
  next
    case 2
    then have "192 + n div 64 < 256" "128 + n mod 64 < 256" by linarith+
    with 2 show ?thesis unfolding utf8_encode_def by (auto simp: u8_eq_of_nat unat_u8_of_nat simp del: of_nat_add)
  next
    case 3
    then have "224 + n div 4096 < 256" "128 + n div 64 mod 64 < 256" "128 + n mod 64 < 256" by linarith+
    with 3 show ?thesis unfolding utf8_encode_def by (auto simp: u8_eq_of_nat unat_u8_of_nat simp del: of_nat_add)
  next
    case 4
    then have "240 + n div 262144 < 256" "128 + n div 4096 mod 64 < 256" "128 + n div 64 mod 64 < 256" "128 + n mod 64 < 256"
      using assms by linarith+
    with 4 show ?thesis unfolding utf8_encode_def by (auto simp: u8_eq_of_nat unat_u8_of_nat simp del: of_nat_add)
  qed
qed

lemma utf8_text_Nil: "utf8_text []"
  unfolding utf8_text_def by (rule exI [of _ "[]"]) simp

lemma utf8_text_Cons:
  "utf8_text (a # p) \<longleftrightarrow> (\<exists>n q. scalar_value n \<and> a # p = utf8_encode n @ q \<and> utf8_text q)"
proof
  assume "utf8_text (a # p)"
  then obtain ns where ns: "list_all scalar_value ns" "a # p = concat (map utf8_encode ns)"
    by (auto simp: utf8_text_def)
  then obtain n ms where "ns = n # ms" by (cases ns) auto
  with ns have "scalar_value n \<and> a # p = utf8_encode n @ concat (map utf8_encode ms) \<and> utf8_text (concat (map utf8_encode ms))"
    unfolding utf8_text_def by auto
  then show "\<exists>n q. scalar_value n \<and> a # p = utf8_encode n @ q \<and> utf8_text q" by blast
next
  assume "\<exists>n q. scalar_value n \<and> a # p = utf8_encode n @ q \<and> utf8_text q"
  then obtain n ns where "scalar_value n" "a # p = utf8_encode n @ concat (map utf8_encode ns)" "list_all scalar_value ns"
    by (auto simp: utf8_text_def)
  then have "list_all scalar_value (n # ns) \<and> a # p = concat (map utf8_encode (n # ns))" by simp
  then show "utf8_text (a # p)" unfolding utf8_text_def by blast
qed

lemma scalar_value_le: "scalar_value n \<Longrightarrow> n \<le> 0x10ffff"
  by (simp add: scalar_value_def)

lemma utf8_text_1:
  assumes "unat a < 128"
  shows "utf8_text (a # p) \<longleftrightarrow> utf8_text p"
proof -
  have "scalar_value (unat a)" using assms by (simp add: scalar_value_def)
  then show ?thesis
    using assms unfolding utf8_text_Cons
    by (auto simp: utf8_encode_Cons scalar_value_le cong: conj_cong)
qed

text \<open>The bytes of an encoding determine the scalar value, in each length class.\<close>

lemma base64: "y < 64 \<Longrightarrow> (x * 64 + y) div 64 = x" "y < 64 \<Longrightarrow> (x * 64 + y) mod 64 = (y :: nat)"
  by simp_all

lemma digits_2:
  "128 \<le> n \<and> n < 2048 \<and> a = 192 + n div 64 \<and> b = 128 + n mod 64 \<longleftrightarrow>
   194 \<le> a \<and> a \<le> 223 \<and> 128 \<le> b \<and> b < 192 \<and> n = (a - 192) * 64 + (b - 128) \<and> 128 \<le> (n :: nat)" (is "?L \<longleftrightarrow> ?R")
proof
  show "?L \<Longrightarrow> ?R" by (elim conjE, intro conjI; (linarith | simp))
next
  assume R: ?R
  then obtain x y where "a = 192 + x" "b = 128 + y" by (auto simp: le_iff_add dest!: order_trans [of 192 194])
  with R show ?L by simp
qed

lemma digits_3:
  "2048 \<le> n \<and> n < 65536 \<and> a = 224 + n div 4096 \<and> b = 128 + n div 64 mod 64 \<and> c = 128 + n mod 64 \<longleftrightarrow>
   224 \<le> a \<and> a \<le> 239 \<and> 128 \<le> b \<and> b < 192 \<and> 128 \<le> c \<and> c < 192 \<and>
   n = ((a - 224) * 64 + (b - 128)) * 64 + (c - 128) \<and> 2048 \<le> (n :: nat)" (is "?L \<longleftrightarrow> ?R")
proof -
  have d: "n div 4096 = n div 64 div 64" by (simp add: div_mult2_eq [symmetric])
  show ?thesis
  proof
    show "?L \<Longrightarrow> ?R" unfolding d by (elim conjE, intro conjI; (linarith | simp))
  next
    assume R: ?R
    then obtain x y z where xyz: "a = 224 + x" "b = 128 + y" "c = 128 + z" by (auto simp: le_iff_add)
    with R have "y < 64" "z < 64" "n = (x * 64 + y) * 64 + z" "x \<le> 15" "2048 \<le> n" by simp_all
    then have "n div 64 = x * 64 + y" "n mod 64 = z" "(x * 64 + y) div 64 = x" "(x * 64 + y) mod 64 = y"
      by (simp_all only: base64)
    moreover have "n < 65536" using \<open>y < 64\<close> \<open>z < 64\<close> \<open>x \<le> 15\<close> unfolding \<open>n = _\<close> by simp
    ultimately show ?L using xyz \<open>2048 \<le> n\<close> by (simp only: d simp_thms)
  qed
qed

lemma digits_4:
  "65536 \<le> n \<and> n \<le> 1114111 \<and> a = 240 + n div 262144 \<and> b = 128 + n div 4096 mod 64 \<and> c = 128 + n div 64 mod 64 \<and> d = 128 + n mod 64 \<longleftrightarrow>
   240 \<le> a \<and> a \<le> 244 \<and> 128 \<le> b \<and> b < 192 \<and> 128 \<le> c \<and> c < 192 \<and> 128 \<le> d \<and> d < 192 \<and>
   n = (((a - 240) * 64 + (b - 128)) * 64 + (c - 128)) * 64 + (d - 128) \<and> 65536 \<le> (n :: nat) \<and> n \<le> 1114111" (is "?L \<longleftrightarrow> ?R")
proof -
  have d: "n div 4096 = n div 64 div 64" "n div 262144 = n div 64 div 64 div 64" by (simp_all add: div_mult2_eq [symmetric])
  show ?thesis
  proof
    show "?L \<Longrightarrow> ?R"
    proof (elim conjE)
      define x y z w where "x = n div 64 div 64 div 64" and "y = n div 64 div 64 mod 64" and "z = n div 64 mod 64" and "w = n mod 64"
      have n: "n = ((x * 64 + y) * 64 + z) * 64 + w" and y: "y < 64" and z: "z < 64" and w: "w < 64"
        by (simp_all add: x_def y_def z_def w_def)
      assume L: "65536 \<le> n" "n \<le> 1114111" "a = 240 + n div 262144" "b = 128 + n div 4096 mod 64"
        "c = 128 + n div 64 mod 64" "d = 128 + n mod 64"
      then have abcd: "a = 240 + x" "b = 128 + y" "c = 128 + z" "d = 128 + w"
        by (simp_all only: d x_def y_def z_def w_def)
      have "x \<le> 4" using L(2) n by simp
      with n y z w L(1,2) show ?R unfolding abcd by simp
    qed
  next
    assume R: ?R
    then obtain x y z w where xyz: "a = 240 + x" "b = 128 + y" "c = 128 + z" "d = 128 + w" by (auto simp: le_iff_add)
    with R have b: "y < 64" "z < 64" "w < 64" "n = ((x * 64 + y) * 64 + z) * 64 + w" "x \<le> 4" "65536 \<le> n" "n \<le> 1114111" by simp_all
    then have "n div 64 = (x * 64 + y) * 64 + z" "n mod 64 = w" "((x * 64 + y) * 64 + z) div 64 = x * 64 + y"
      "((x * 64 + y) * 64 + z) mod 64 = z" "(x * 64 + y) div 64 = x" "(x * 64 + y) mod 64 = y"
      by (simp_all only: base64)
    with xyz b(6,7) show ?L by (simp only: d simp_thms)
  qed
qed

text \<open>The possible first characters of a byte string, in the form the validator tests them.\<close>

lemma utf8_text_Cons_iff:
  "utf8_text (a # p) \<longleftrightarrow>
    unat a < 128 \<and> utf8_text p \<or>
    194 \<le> unat a \<and> unat a \<le> 223 \<and> (\<exists>b q n. p = b # q \<and> cont b \<and>
      n = (unat a - 192) * 64 + (unat b - 128) \<and> scalar_value n \<and> 128 \<le> n \<and> utf8_text q) \<or>
    224 \<le> unat a \<and> unat a \<le> 239 \<and> (\<exists>b c q n. p = b # c # q \<and> cont b \<and> cont c \<and>
      n = ((unat a - 224) * 64 + (unat b - 128)) * 64 + (unat c - 128) \<and> scalar_value n \<and> 2048 \<le> n \<and> utf8_text q) \<or>
    240 \<le> unat a \<and> unat a \<le> 244 \<and> (\<exists>b c d q n. p = b # c # d # q \<and> cont b \<and> cont c \<and> cont d \<and>
      n = (((unat a - 240) * 64 + (unat b - 128)) * 64 + (unat c - 128)) * 64 + (unat d - 128) \<and>
      scalar_value n \<and> 65536 \<le> n \<and> utf8_text q)" (is "_ \<longleftrightarrow> ?R")
proof -
  have s: "scalar_value n" if "n < 128" for n using that by (simp add: scalar_value_def)
  have "utf8_text (a # p) \<longleftrightarrow> (\<exists>n q. scalar_value n \<and> utf8_text q \<and> n \<le> 0x10ffff \<and> a # p = utf8_encode n @ q)"
    unfolding utf8_text_Cons using scalar_value_le by blast
  also have "\<dots> \<longleftrightarrow> (\<exists>n q. scalar_value n \<and> utf8_text q \<and> n \<le> 0x10ffff \<and>
     (n < 128 \<and> unat a = n \<and> p = q \<or>
      (\<exists>b. p = b # q \<and> 128 \<le> n \<and> n < 2048 \<and> unat a = 192 + n div 64 \<and> unat b = 128 + n mod 64) \<or>
      (\<exists>b c. p = b # c # q \<and> 2048 \<le> n \<and> n < 65536 \<and> unat a = 224 + n div 4096 \<and>
        unat b = 128 + n div 64 mod 64 \<and> unat c = 128 + n mod 64) \<or>
      (\<exists>b c d. p = b # c # d # q \<and> 65536 \<le> n \<and> n \<le> 1114111 \<and> unat a = 240 + n div 262144 \<and>
        unat b = 128 + n div 4096 mod 64 \<and> unat c = 128 + n div 64 mod 64 \<and> unat d = 128 + n mod 64)))"
    by (auto simp: utf8_encode_Cons cong: conj_cong)
  also have "\<dots> \<longleftrightarrow> ?R"
    unfolding digits_2 digits_3 digits_4 cont_def using s scalar_value_le by blast
  finally show ?thesis .
qed

lemma valid_utf8_utf8_text: "valid_utf8 p \<longleftrightarrow> utf8_text p"
proof (induction "length p" arbitrary: p rule: less_induct)
  case less
  show ?case
  proof (cases p)
    case Nil
    then show ?thesis by (simp add: valid_utf8_Nil utf8_text_Nil)
  next
    case (Cons a q)
    have IH: "length r \<le> length q \<Longrightarrow> valid_utf8 r \<longleftrightarrow> utf8_text r" for r
      using less.hyps Cons by simp
    consider "unat a < 128" | "194 \<le> unat a" "unat a \<le> 223" | "224 \<le> unat a" "unat a \<le> 239"
      | "240 \<le> unat a" "unat a \<le> 244" | "128 \<le> unat a" "unat a < 194 \<or> 244 < unat a" by linarith
    then show ?thesis
    proof cases
      case 1
      then show ?thesis using IH [of q] by (simp add: Cons valid_utf8_1 utf8_text_1)
    next
      case 2
      then show ?thesis unfolding Cons valid_utf8_2 [OF 2] utf8_text_Cons_iff by (auto simp: IH)
    next
      case 3
      then show ?thesis unfolding Cons valid_utf8_3 [OF 3] utf8_text_Cons_iff by (auto simp: IH)
    next
      case 4
      then show ?thesis unfolding Cons valid_utf8_4 [OF 4] utf8_text_Cons_iff by (auto simp: IH)
    next
      case 5
      then show ?thesis unfolding Cons utf8_text_Cons_iff by (auto simp: valid_utf8_other)
    qed
  qed
qed

text \<open>C24. The validator accepts a byte string if and only if it is the UTF-8 encoding of a sequence of
  Unicode scalar values: no overlong form, no surrogate, nothing above U+10FFFF, no truncated or stray
  continuation byte.\<close>

theorem valid_utf8_iff: "valid_utf8 p \<longleftrightarrow> utf8_text p"
  by (rule valid_utf8_utf8_text)

end
