(* ===== verification/Brk2_Protocol.thy ===== *)
theory Brk2_Protocol
  imports Broker_Protocol Utf8 "HOL-Library.Multiset"
begin

text \<open>
  The BRK2 body codec: \<^verbatim>\<open>include/brk2_protocol.h\<close> and \<^verbatim>\<open>src/brk2_protocol.cpp\<close>.  A body is a
  32-byte envelope header followed by TLV fields (id, wire type, flags, length, value).  A field view
  holds the bytes its pointer and size select.  \<^verbatim>\<open>*request_id\<close> is written before the fields
  are parsed, so the decoder takes its old value and returns the new one with either outcome.
\<close>

subsection \<open>Constants and field views\<close>

definition BRK2_MAGIC :: u32 where "BRK2_MAGIC = 0x42524b32"
definition BRK2_MAJOR :: u8 where "BRK2_MAJOR = 2"
definition BRK2_HEADER_BYTES :: nat where "BRK2_HEADER_BYTES = 32"
definition BRK2_SCHEMA_REQUEST :: u32 where "BRK2_SCHEMA_REQUEST = 1"
definition BRK2_SCHEMA_RESPONSE :: u32 where "BRK2_SCHEMA_RESPONSE = 2"

definition MSG_REQUEST :: u16 where "MSG_REQUEST = 3"
definition MSG_RESPONSE :: u16 where "MSG_RESPONSE = 4"
definition FLAG_RESPONSE :: u16 where "FLAG_RESPONSE = 1"
definition FLAG_END_STREAM :: u16 where "FLAG_END_STREAM = 4"

definition WT_U8 :: u8 where "WT_U8 = 1"
definition WT_U32 :: u8 where "WT_U32 = 3"
definition WT_U64 :: u8 where "WT_U64 = 4"
definition WT_I64 :: u8 where "WT_I64 = 5"
definition WT_UTF8 :: u8 where "WT_UTF8 = 8"
definition WT_BYTES :: u8 where "WT_BYTES = 9"
definition WT_UUID :: u8 where "WT_UUID = 12"

definition FIELD_CRITICAL :: u8 where "FIELD_CRITICAL = 1"

record FieldView =
  fv_id :: u16
  fv_type :: u8
  fv_flags :: u8
  fv_data :: bytes

abbreviation fv_size :: "FieldView \<Rightarrow> nat" where
  "fv_size f \<equiv> length (fv_data f)"

subsection \<open>Integers\<close>

definition read16 :: "bytes \<Rightarrow> nat \<Rightarrow> u16" where
  "read16 b p = push_bit 8 (ucast (b ! p)) OR ucast (b ! (p + 1))"

definition read32 :: "bytes \<Rightarrow> nat \<Rightarrow> u32" where
  "read32 b p = ((push_bit 24 (ucast (b ! p)) OR push_bit 16 (ucast (b ! (p + 1)))) OR
     push_bit 8 (ucast (b ! (p + 2)))) OR ucast (b ! (p + 3))"

definition read64 :: "bytes \<Rightarrow> nat \<Rightarrow> u64" where
  "read64 b p = foldl (\<lambda>v i. push_bit 8 v OR ucast (b ! (p + i))) 0 [0..<8]"

definition put16 :: "bytes \<Rightarrow> u16 \<Rightarrow> bytes" where
  "put16 b v = (b @ [ucast (drop_bit 8 v)]) @ [ucast v]"

definition put32 :: "bytes \<Rightarrow> u32 \<Rightarrow> bytes" where
  "put32 b v = foldl (\<lambda>b i. b @ [ucast (drop_bit (i * 8) v)]) b [3, 2, 1, 0]"

definition put64 :: "bytes \<Rightarrow> u64 \<Rightarrow> bytes" where
  "put64 b v = foldl (\<lambda>b i. b @ [ucast (drop_bit (i * 8) v)]) b [7, 6, 5, 4, 3, 2, 1, 0]"

subsection \<open>Fields\<close>

definition put_field :: "bytes \<Rightarrow> u16 \<Rightarrow> u8 \<Rightarrow> bytes \<Rightarrow> bytes res" where
  "put_field p fid type data =
     (if length data > 0xffffffff then Inl ''BRK2 field too large''
      else Inr (put32 ((put16 p fid @ [type]) @ [0]) (word_of_nat (length data)) @ data))"

definition field_str :: "bytes \<Rightarrow> u16 \<Rightarrow> string \<Rightarrow> bytes res" where
  "field_str p fid s = put_field p fid WT_UTF8 (bytes_of_string s)"

definition field_u8 :: "bytes \<Rightarrow> u16 \<Rightarrow> u8 \<Rightarrow> bytes res" where
  "field_u8 p fid v = put_field p fid WT_U8 [v]"

definition field_u64 :: "bytes \<Rightarrow> u16 \<Rightarrow> u64 \<Rightarrow> bytes res" where
  "field_u64 p fid v = put_field p fid WT_U64 (put64 [] v)"

definition field_i64 :: "bytes \<Rightarrow> u16 \<Rightarrow> i64 \<Rightarrow> bytes res" where
  "field_i64 p fid v = put_field p fid WT_I64 (put64 [] v)"

definition field_bytes :: "bytes \<Rightarrow> u16 \<Rightarrow> bytes \<Rightarrow> bytes res" where
  "field_bytes p fid v = put_field p fid WT_BYTES v"

function parse_fields_from :: "bytes \<Rightarrow> nat \<Rightarrow> FieldView list \<Rightarrow> FieldView list res" where
  "parse_fields_from body pos acc =
     (if pos < length body then
        if length body - pos < 8 then Inl ''truncated BRK2 TLV header''
        else
          let fid = read16 body pos; type = body ! (pos + 2); flags = body ! (pos + 3);
              sz = unat (read32 body (pos + 4)); pos = pos + 8 in
          if flags AND NOT 3 \<noteq> 0 then Inl ''invalid BRK2 field flags''
          else if type < 1 \<or> type > 12 then Inl ''unknown BRK2 wire type''
          else if sz > length body - pos then Inl ''truncated BRK2 TLV value''
          else
            let f = \<lparr> fv_id = fid, fv_type = type, fv_flags = flags, fv_data = bytes_at body pos sz \<rparr>;
                pos = pos + sz in
            if list_ex (\<lambda>x. fv_id x = fv_id f) acc then Inl ''duplicate BRK2 singular field''
            else parse_fields_from body pos (acc @ [f])
      else Inr acc)"
  by pat_completeness auto

termination
  by (relation "measure (\<lambda>(body, pos, acc). length body - pos)") auto

declare parse_fields_from.simps [simp del]

definition parse_fields :: "bytes \<Rightarrow> FieldView list res" where
  "parse_fields body = parse_fields_from body BRK2_HEADER_BYTES []"

definition find_field :: "FieldView list \<Rightarrow> u16 \<Rightarrow> FieldView option" where
  "find_field fs fid = find (\<lambda>f. fv_id f = fid) fs"

definition get_string :: "FieldView list \<Rightarrow> u16 \<Rightarrow> string res" where
  "get_string fs fid =
     (case find_field fs fid of
        None \<Rightarrow> Inl (''missing or wrong-type BRK2 string field '' @ to_string (unat fid))
      | Some f \<Rightarrow>
          if fv_type f \<noteq> WT_UTF8 then Inl (''missing or wrong-type BRK2 string field '' @ to_string (unat fid))
          else if \<not> valid_utf8 (fv_data f) then Inl ''invalid UTF-8 in BRK2 string field''
          else let out = string_of_bytes (fv_data f) in
            if out = [] then Inl (''empty BRK2 required string field '' @ to_string (unat fid)) else Inr out)"

definition get_fixed :: "FieldView list \<Rightarrow> u16 \<Rightarrow> u8 \<Rightarrow> nat \<Rightarrow> bytes res" where
  "get_fixed fs fid type n =
     (case find_field fs fid of
        None \<Rightarrow> Inl (''missing or invalid BRK2 field '' @ to_string (unat fid))
      | Some f \<Rightarrow>
          if fv_type f \<noteq> type \<or> fv_size f \<noteq> n then Inl (''missing or invalid BRK2 field '' @ to_string (unat fid))
          else Inr (fv_data f))"

definition envelope :: "u16 \<Rightarrow> u16 \<Rightarrow> u64 \<Rightarrow> u32 \<Rightarrow> bytes \<Rightarrow> bytes" where
  "envelope type flags request_id schema payload =
     (let b = put32 [] BRK2_MAGIC;
          b = b @ [BRK2_MAJOR];
          b = b @ [0];
          b = put16 b (word_of_nat BRK2_HEADER_BYTES);
          b = put16 b type;
          b = put16 b flags;
          b = put64 b request_id;
          b = put32 b schema;
          b = put16 b 1;
          b = put16 b 0;
          b = put32 b (word_of_nat (length payload))
      in b @ payload)"

subsection \<open>Bodies\<close>

text \<open>The checks of the envelope header.\<close>

definition brk2_check_header :: "bytes \<Rightarrow> ProtocolLimits \<Rightarrow> unit res" where
  "brk2_check_header body limits =
     (if length body < BRK2_HEADER_BYTES \<or> length body > max_frame_bytes limits then Inl ''invalid BRK2 frame size''
      else if read32 body 0 \<noteq> BRK2_MAGIC then Inl ''invalid BRK2 magic''
      else if body ! 4 \<noteq> 2 then Inl ''unsupported BRK2 major version''
      else if unat (read16 body 6) \<noteq> BRK2_HEADER_BYTES then Inl ''invalid BRK2 header length''
      else if read16 body 8 \<noteq> MSG_REQUEST then Inl ''unexpected BRK2 message type''
      else let flags = read16 body 10 in
      if flags \<noteq> 0 then Inl ''unsupported BRK2 request flags''
      else if read16 body 26 \<noteq> 0 then Inl ''BRK2 reserved field must be zero''
      else let payload_len = unat (read32 body 28) in
      if payload_len > max_payload_bytes limits \<or> payload_len \<noteq> length body - BRK2_HEADER_BYTES
      then Inl ''BRK2 payload length mismatch or limit exceeded''
      else if read32 body 20 \<noteq> BRK2_SCHEMA_REQUEST \<or> read16 body 24 \<noteq> 1
      then Inl ''unsupported BRK2 request schema''
      else Inr ())"

text \<open>What is read from the parsed fields.\<close>

definition brk2_read_preference :: "FieldView list \<Rightarrow> string res" where
  "brk2_read_preference fs =
     (case find_field fs 10 of
        None \<Rightarrow> Inr []
      | Some pref \<Rightarrow>
          if fv_type pref \<noteq> WT_UTF8 then Inl ''invalid BRK2 device_preference type''
          else let v = string_of_bytes (fv_data pref) in
            if v \<noteq> ''cpu'' \<and> v \<noteq> ''gpu'' \<and> v \<noteq> ''npu'' \<and> v \<noteq> ''auto''
            then Inl ''unknown BRK2 device_preference'' else Inr v)"

definition brk2_read_request :: "FieldView list \<Rightarrow> ProtocolLimits \<Rightarrow> BrokerRequest res" where
  "brk2_read_request fs limits =
     (if list_ex (\<lambda>f. \<not> (fv_id f \<ge> 1 \<and> fv_id f \<le> 10) \<and> fv_flags f AND FIELD_CRITICAL \<noteq> 0) fs
      then Inl ''unknown critical BRK2 field''
      else
      res_bind (get_string fs 1) (\<lambda>task_id.
      res_bind (get_string fs 2) (\<lambda>source.
      res_bind (get_string fs 3) (\<lambda>destination.
      res_bind (get_string fs 4) (\<lambda>kind.
      if list_ex (\<lambda>value. length value > max_string_bytes limits) [task_id, source, destination, kind]
      then Inl ''BRK2 string exceeds configured limit''
      else
      res_bind (get_fixed fs 5 WT_U8 1) (\<lambda>p. let priority = p ! 0 in
      res_bind (get_fixed fs 6 WT_U32 4) (\<lambda>p. let timeout_ms = read32 p 0 in
      res_bind (get_fixed fs 7 WT_BYTES (case find_field fs 7 of None \<Rightarrow> 0 | Some f \<Rightarrow> fv_size f)) (\<lambda>payload.
      if length payload > max_payload_bytes limits then Inl ''BRK2 request payload exceeds limit''
      else if (case find_field fs 8 of None \<Rightarrow> False | Some key \<Rightarrow> fv_type key \<noteq> WT_UUID \<or> fv_size key \<noteq> 16)
      then Inl ''invalid BRK2 idempotency key''
      else if (case find_field fs 9 of None \<Rightarrow> False | Some d \<Rightarrow> fv_type d \<noteq> WT_U64 \<or> fv_size d \<noteq> 8)
      then Inl ''invalid BRK2 deadline''
      else
      res_bind (brk2_read_preference fs) (\<lambda>pref.
      if timeout_ms = 0 \<or> timeout_ms > BROKER_MAX_TIMEOUT_MS then Inl ''BRK2 timeout_ms outside 1..300000''
      else Inr \<lparr> rq_task_id = task_id, rq_source = source, rq_destination = destination, rq_kind = kind,
             rq_priority = priority, rq_timeout_ms = timeout_ms, rq_payload = payload, rq_profile = None,
             rq_device_preference = pref \<rparr>)))))))))"

definition decode_brk2_request_body :: "bytes \<Rightarrow> ProtocolLimits \<Rightarrow> u64 \<Rightarrow> BrokerRequest res \<times> u64" where
  "decode_brk2_request_body body limits request_id =
     (case brk2_check_header body limits of
        Inl e \<Rightarrow> (Inl e, request_id)
      | Inr _ \<Rightarrow>
          let request_id = read64 body 12 in
          (res_bind (parse_fields body) (\<lambda>fs.
           res_bind (brk2_read_request fs limits) (\<lambda>req.
           if length body > max_frame_bytes limits then Inl ''BRK2 frame exceeds limit'' else Inr req)), request_id))"

definition encode_brk2_response_body :: "BrokerResponse \<Rightarrow> u64 \<Rightarrow> ProtocolLimits \<Rightarrow> bytes res" where
  "encode_brk2_response_body r request_id limits =
     (if length (rs_result r) > max_payload_bytes limits then Inl ''BRK2 response payload exceeds limit''
      else if length (rs_task_id r) > max_string_bytes limits \<or> length (rs_error r) > max_string_bytes limits
      then Inl ''BRK2 response string exceeds configured limit''
      else
      res_bind (field_str [] 1 (rs_task_id r)) (\<lambda>p.
      res_bind (field_u8 p 2 (task_status_raw (rs_status r))) (\<lambda>p.
      res_bind (field_i64 p 3 (scast (rs_selected_gpu r))) (\<lambda>p.
      res_bind (field_u64 p 4 (rs_latency_ms r)) (\<lambda>p.
      res_bind (field_bytes p 5 (rs_result r)) (\<lambda>p.
      res_bind (field_str p 6 (rs_error r)) (\<lambda>p.
      res_bind (field_str p 7 (backend_name (rs_backend r))) (\<lambda>p.
      if length p > max_payload_bytes limits \<or> BRK2_HEADER_BYTES + length p > max_frame_bytes limits
      then Inl ''BRK2 response exceeds frame limit''
      else Inr (envelope MSG_RESPONSE (FLAG_RESPONSE OR FLAG_END_STREAM) request_id BRK2_SCHEMA_RESPONSE p)))))))))"

section \<open>Integers and fields as bytes\<close>

lemma read16_eq: "p + 2 \<le> length b \<Longrightarrow> read16 b p = be_word [b ! p, b ! (p + 1)]"
  using foldl_shift_in_0 [of "[b ! p, b ! (p + 1)]", where 'a = 16]
  by (simp add: read16_def shift_in_def)

lemma read32_eq: "read32 b p = be_word [b ! p, b ! (p + 1), b ! (p + 2), b ! (p + 3)]"
  unfolding read32_def foldl_shift_in_0 [symmetric]
  by (simp add: shift_in_def push_bit_or push_bit_push_bit ac_simps)

lemma read64_eq: "p + 8 \<le> length b \<Longrightarrow> read64 b p = be_word (bytes_at b p 8)"
proof -
  assume "p + 8 \<le> length b"
  then have "map (\<lambda>i. b ! (p + i)) [0..<8] = bytes_at b p 8"
    by (intro nth_equalityI) (auto simp: bytes_at_def)
  moreover have "read64 b p = foldl shift_in 0 (map (\<lambda>i. b ! (p + i)) [0..<8])"
    by (simp add: read64_def shift_in_def foldl_map)
  ultimately show ?thesis by (simp add: foldl_shift_in_0)
qed

lemma put_eq [simp]:
  "put16 b v16 = b @ be_bytes 2 v16" "put32 b v32 = b @ be_bytes 4 v32" "put64 b v64 = b @ be_bytes 8 v64"
  by (simp_all add: put16_def put32_def put64_def be_bytes_shifts)

definition tlv :: "FieldView \<Rightarrow> bytes" where
  "tlv f = be_bytes 2 (fv_id f) @ [fv_type f, fv_flags f] @ be_bytes 4 (word_of_nat (fv_size f) :: u32) @ fv_data f"

definition tlv_ok :: "FieldView \<Rightarrow> bool" where
  "tlv_ok f \<longleftrightarrow> fv_flags f AND NOT 3 = 0 \<and> fv_type f \<noteq> 0 \<and> fv_type f \<le> 12 \<and> fv_size f < 2 ^ 32"

lemma length_tlv: "length (tlv f) = 8 + fv_size f"
  by (simp add: tlv_def)

lemma tlv_not_Nil [simp]: "tlv f \<noteq> []"
  by (simp add: tlv_def)

lemma put_field_eq:
  "put_field p i t d = (if length d > 0xffffffff then Inl ''BRK2 field too large''
     else Inr (p @ tlv \<lparr> fv_id = i, fv_type = t, fv_flags = 0, fv_data = d \<rparr>))"
  by (simp add: put_field_def tlv_def)

lemma list8:
  assumes "8 \<le> length r"
  shows "r = [r ! 0, r ! 1] @ [r ! 2, r ! 3] @ [r ! 4, r ! 5, r ! 6, r ! 7] @ drop 8 r"
proof -
  have step: "i < length r \<Longrightarrow> drop i r = r ! i # drop (i + 1) r" for i by (simp add: Cons_nth_drop_Suc)
  have "r \<noteq> []" using assms by auto
  then show ?thesis using assms step [of 0] step [of 1] step [of 2] step [of 3] step [of 4] step [of 5] step [of 6] step [of 7]
    by (simp add: numeral_2_eq_2 [symmetric])
qed

lemma tlv_append_eq:
  assumes "8 \<le> length r" "fv_size f < 2 ^ 32"
  shows "r = tlv f @ rest \<longleftrightarrow>
    fv_id f = be_word [r ! 0, r ! 1] \<and> fv_type f = r ! 2 \<and> fv_flags f = r ! 3 \<and>
    fv_size f = unat (be_word [r ! 4, r ! 5, r ! 6, r ! 7] :: u32) \<and> drop 8 r = fv_data f @ rest"
proof -
  have app: "length xs = length ys \<Longrightarrow> xs @ us = ys @ vs \<longleftrightarrow> xs = ys \<and> us = vs" for xs ys us vs :: bytes by simp
  have "[r ! 4, r ! 5, r ! 6, r ! 7] = be_bytes 4 (word_of_nat (fv_size f) :: u32) \<longleftrightarrow>
      fv_size f = unat (be_word [r ! 4, r ! 5, r ! 6, r ! 7] :: u32)"
    using assms(2) be_word_eq_iff [of "[r ! 4, r ! 5, r ! 6, r ! 7]" 4 "word_of_nat (fv_size f) :: u32"]
    by (auto simp: word_unat_eq_iff unat_of_nat)
  moreover have "[r ! 0, r ! 1] = be_bytes 2 (fv_id f) \<longleftrightarrow> fv_id f = be_word [r ! 0, r ! 1]"
    using be_word_eq_iff [of "[r ! 0, r ! 1]" 2 "fv_id f"] by auto
  moreover have "r = tlv f @ rest \<longleftrightarrow> [r ! 0, r ! 1] @ [r ! 2, r ! 3] @ [r ! 4, r ! 5, r ! 6, r ! 7] @ drop 8 r = tlv f @ rest"
    using list8 [OF assms(1)] by metis
  ultimately show ?thesis by (auto simp: tlv_def app simp del: append.simps)
qed

text \<open>\<^verbatim>\<open>parse_fields\<close> accepts exactly the concatenations of well-formed fields with distinct ids.\<close>

lemma list_ex_id: "list_ex (\<lambda>x. fv_id x = i) fs \<longleftrightarrow> i \<in> fv_id ` set fs"
  by (auto simp: list_ex_iff)

lemma parse_fields_step:
  assumes "pos < length body"
  shows "parse_fields_from body pos acc = Inr fs \<longleftrightarrow>
    (\<exists>f rest. drop pos body = tlv f @ rest \<and> tlv_ok f \<and> fv_id f \<notin> fv_id ` set acc \<and>
      parse_fields_from body (pos + length (tlv f)) (acc @ [f]) = Inr fs)"
proof (cases "length body - pos < 8")
  case True
  then have "length (drop pos body) < length (tlv f @ rest)" for f rest by (simp add: length_tlv)
  then have "drop pos body \<noteq> tlv f @ rest" for f rest by (metis less_irrefl)
  with True assms show ?thesis by (subst parse_fields_from.simps) simp
next
  case False
  define r where "r = drop pos body"
  have len: "8 \<le> length r" "length body = pos + length r" and at: "\<And>k. body ! (pos + k) = r ! k"
    using False assms by (auto simp: r_def)
  define n where "n = unat (be_word [r ! 4, r ! 5, r ! 6, r ! 7] :: u32)"
  define g where "g = \<lparr> fv_id = be_word [r ! 0, r ! 1], fv_type = r ! 2, fv_flags = r ! 3, fv_data = take n (drop 8 r) \<rparr>"
  have n: "n < 2 ^ 32" unfolding n_def using unsigned_less [of "be_word [r ! 4, r ! 5, r ! 6, r ! 7] :: u32", where 'a = nat] by simp
  have split: "r = tlv f @ rest \<and> tlv_ok f \<longleftrightarrow> n \<le> length r - 8 \<and> f = g \<and> tlv_ok g \<and> rest = drop (8 + n) r" for f rest
  proof (cases "tlv_ok f")
    case True
    then have "r = tlv f @ rest \<longleftrightarrow> fv_id f = fv_id g \<and> fv_type f = fv_type g \<and> fv_flags f = fv_flags g \<and>
        fv_size f = n \<and> drop 8 r = fv_data f @ rest"
      using len(1) tlv_append_eq [of r f rest] by (simp add: g_def n_def tlv_ok_def del: One_nat_def)
    also have "\<dots> \<longleftrightarrow> fv_id f = fv_id g \<and> fv_type f = fv_type g \<and> fv_flags f = fv_flags g \<and>
        n \<le> length r - 8 \<and> fv_data f = take n (drop 8 r) \<and> rest = drop (8 + n) r"
      by (auto simp: add.commute [of 8 n] drop_drop [symmetric] simp del: drop_drop) (metis append_take_drop_id length_append length_drop le_add1)+
    finally show ?thesis using True by (cases f) (auto simp: g_def)
  qed auto
  have "read16 body (pos + 0) = be_word [r ! 0, r ! 1]"
    using len by (simp only: read16_eq add.assoc at) simp
  moreover have "unat (read32 body (pos + 4)) = n"
    unfolding read32_eq add.assoc at n_def by simp
  moreover have "bytes_at body (pos + 8) n = take n (drop 8 r)"
    by (simp add: bytes_at_def r_def add.commute)
  ultimately have read: "read16 body pos = be_word [r ! 0, r ! 1]" "body ! (pos + 2) = r ! 2" "body ! (pos + 3) = r ! 3"
      "unat (read32 body (pos + 4)) = n" "length body - (pos + 8) = length r - 8" "bytes_at body (pos + 8) n = take n (drop 8 r)"
    using len(2) by (simp_all add: at del: add_2_eq_Suc')
  have "parse_fields_from body pos acc = Inr fs \<longleftrightarrow>
      tlv_ok g \<and> n \<le> length r - 8 \<and> fv_id g \<notin> fv_id ` set acc \<and> parse_fields_from body (pos + (8 + n)) (acc @ [g]) = Inr fs"
    using assms False n
    by (subst parse_fields_from.simps)
      (auto simp: Let_def read g_def tlv_ok_def list_ex_id not_less add.assoc simp del: One_nat_def add_2_eq_Suc')
  also have "\<dots> \<longleftrightarrow> (\<exists>f rest. (r = tlv f @ rest \<and> tlv_ok f) \<and> fv_id f \<notin> fv_id ` set acc \<and>
      parse_fields_from body (pos + length (tlv f)) (acc @ [f]) = Inr fs)"
    unfolding split using n len(1) by (auto simp: length_tlv g_def)
  finally show ?thesis unfolding r_def by blast
qed

lemma parse_fields_from_iff:
  "pos \<le> length body \<Longrightarrow> distinct (map fv_id acc) \<Longrightarrow>
   parse_fields_from body pos acc = Inr fs \<longleftrightarrow>
   (\<exists>gs. fs = acc @ gs \<and> drop pos body = concat (map tlv gs) \<and> list_all tlv_ok gs \<and> distinct (map fv_id (acc @ gs)))"
proof (induction "length body - pos" arbitrary: pos acc rule: less_induct)
  case less
  show ?case
  proof (cases "pos < length body")
    case False
    then have "drop pos body = concat (map tlv gs) \<longleftrightarrow> gs = []" for gs
      by (cases gs) simp_all
    with False less.prems show ?thesis by (subst parse_fields_from.simps) auto
  next
    case True
    have IH: "parse_fields_from body (pos + length (tlv f)) (acc @ [f]) = Inr fs \<longleftrightarrow>
        (\<exists>gs. fs = acc @ f # gs \<and> rest = concat (map tlv gs) \<and> list_all tlv_ok gs \<and> distinct (map fv_id (acc @ f # gs)))"
      if "drop pos body = tlv f @ rest" "fv_id f \<notin> fv_id ` set acc" for f rest
    proof -
      have "cursor body (pos + length (tlv f)) rest"
        using that less.prems by (intro cursor_advance) (simp add: cursor_def)
      moreover have "length body - (pos + length (tlv f)) < length body - pos"
        using True by (simp add: length_tlv diff_less_mono2)
      ultimately show ?thesis
        using that less.prems less.hyps [of "pos + length (tlv f)" "acc @ [f]"] by (simp add: cursor_def)
    qed
    have "(\<exists>gs. fs = acc @ gs \<and> drop pos body = concat (map tlv gs) \<and> list_all tlv_ok gs \<and> distinct (map fv_id (acc @ gs))) \<longleftrightarrow>
        (\<exists>f gs. fs = acc @ f # gs \<and> drop pos body = tlv f @ concat (map tlv gs) \<and> tlv_ok f \<and> list_all tlv_ok gs \<and> distinct (map fv_id (acc @ f # gs)))"
      (is "(\<exists>gs. ?P gs) \<longleftrightarrow> (\<exists>f gs. ?Q f gs)")
    proof -
      have "\<not> ?P []" using True by simp
      moreover have "?P (f # gs) \<longleftrightarrow> ?Q f gs" for f gs by simp
      ultimately show ?thesis by (metis list.exhaust)
    qed
    also have "\<dots> \<longleftrightarrow> parse_fields_from body pos acc = Inr fs"
      unfolding parse_fields_step [OF True] using IH by fastforce
    finally show ?thesis by simp
  qed
qed

section \<open>The envelope header\<close>

definition brk2_header :: "u8 \<Rightarrow> u16 \<Rightarrow> u16 \<Rightarrow> u64 \<Rightarrow> u32 \<Rightarrow> nat \<Rightarrow> bytes" where
  "brk2_header minor type flags request_id schema n =
     be_bytes 4 BRK2_MAGIC @ [2] @ [minor] @ be_bytes 2 (32 :: u16) @ be_bytes 2 type @ be_bytes 2 flags @
     be_bytes 8 request_id @ be_bytes 4 schema @ be_bytes 2 (1 :: u16) @ be_bytes 2 (0 :: u16) @
     be_bytes 4 (word_of_nat n :: u32)"

lemma length_brk2_header [simp]: "length (brk2_header minor type flags rid schema n) = 32"
  by (simp add: brk2_header_def)

lemma envelope_eq: "envelope type flags rid schema p = brk2_header 0 type flags rid schema (length p) @ p"
  by (simp add: envelope_def brk2_header_def Let_def BRK2_MAJOR_def BRK2_HEADER_BYTES_def)

lemma bytes_at_append: "bytes_at f off m @ bytes_at f (off + m) n = bytes_at f off (m + n)"
  by (simp add: bytes_at_def take_add add.commute)

lemma bytes_at_two: "p + 2 \<le> length b \<Longrightarrow> bytes_at b p 2 = [b ! p, b ! (p + 1)]"
  using bytes_at_append [of b p 1 1] by (simp add: numeral_2_eq_2)

lemma bytes_at_four: "p + 4 \<le> length b \<Longrightarrow> bytes_at b p 4 = [b ! p, b ! (p + 1), b ! (p + 2), b ! (p + 3)]"
proof -
  assume "p + 4 \<le> length b"
  moreover have "bytes_at b p 4 = bytes_at b p 2 @ bytes_at b (p + 2) 2" using bytes_at_append [of b p 2 2] by simp
  ultimately show ?thesis by (simp add: bytes_at_two numeral_3_eq_3)
qed

lemma reads:
  "p + 2 \<le> length b \<Longrightarrow> read16 b p = be_word (bytes_at b p 2)"
  "p + 4 \<le> length b \<Longrightarrow> read32 b p = be_word (bytes_at b p 4)"
  by (simp_all add: read16_eq read32_eq bytes_at_two bytes_at_four)

lemma split_brk2_header:
  "take 32 f = bytes_at f 0 4 @ bytes_at f 4 1 @ bytes_at f 5 1 @ bytes_at f 6 2 @ bytes_at f 8 2 @ bytes_at f 10 2 @
     bytes_at f 12 8 @ bytes_at f 20 4 @ bytes_at f 24 2 @ bytes_at f 26 2 @ bytes_at f 28 4"
  using bytes_at_append [of f 0 4 28] bytes_at_append [of f 4 1 27] bytes_at_append [of f 5 1 26] bytes_at_append [of f 6 2 24]
    bytes_at_append [of f 8 2 22] bytes_at_append [of f 10 2 20] bytes_at_append [of f 12 8 12] bytes_at_append [of f 20 4 8]
    bytes_at_append [of f 24 2 6] bytes_at_append [of f 26 2 4]
  by (simp add: bytes_at_def del: One_nat_def)

lemma brk2_header_eq:
  assumes "32 \<le> length f"
  shows "take 32 f = brk2_header minor type flags rid schema n \<longleftrightarrow>
    read32 f 0 = BRK2_MAGIC \<and> f ! 4 = 2 \<and> f ! 5 = minor \<and> read16 f 6 = 32 \<and> read16 f 8 = type \<and> read16 f 10 = flags \<and>
    read64 f 12 = rid \<and> read32 f 20 = schema \<and> read16 f 24 = 1 \<and> read16 f 26 = 0 \<and> read32 f 28 = word_of_nat n"
proof -
  have app: "length xs = length ys \<Longrightarrow> xs @ us = ys @ vs \<longleftrightarrow> xs = ys \<and> us = vs" for xs ys us vs :: bytes by simp
  have one: "bytes_at f 4 1 = [f ! 4]" "bytes_at f 5 1 = [f ! 5]" using assms by simp_all
  show ?thesis
    unfolding split_brk2_header brk2_header_def using assms
    by (simp add: app one reads read64_eq be_word_eq_iff del: append.simps One_nat_def)
qed

definition brk2_request_bytes :: "u8 \<Rightarrow> u64 \<Rightarrow> FieldView list \<Rightarrow> bytes" where
  "brk2_request_bytes minor rid fs =
     (let p = concat (map tlv fs) in brk2_header minor MSG_REQUEST 0 rid BRK2_SCHEMA_REQUEST (length p) @ p)"

lemma brk2_check_header_iff:
  "brk2_check_header body limits = Inr u \<longleftrightarrow>
    32 \<le> length body \<and> length body \<le> max_frame_bytes limits \<and> length body - 32 \<le> max_payload_bytes limits \<and> length body - 32 < 2 ^ 32 \<and>
    take 32 body = brk2_header (body ! 5) MSG_REQUEST 0 (read64 body 12) BRK2_SCHEMA_REQUEST (length body - 32)"
proof (cases "32 \<le> length body")
  case True
  have "unat (read32 body 28) \<le> max_payload_bytes limits \<and> unat (read32 body 28) = length body - 32 \<longleftrightarrow>
      length body - 32 \<le> max_payload_bytes limits \<and> length body - 32 < 2 ^ 32 \<and> read32 body 28 = word_of_nat (length body - 32)"
    using unsigned_less [of "read32 body 28", where 'a = nat] by (auto simp: word_unat_eq_iff unat_of_nat)
  moreover have "unat (read16 body 6) = 32 \<longleftrightarrow> read16 body 6 = 32" by (simp add: word_unat_eq_iff)
  ultimately show ?thesis
    using True unfolding brk2_header_eq [OF True] brk2_check_header_def
    by (auto simp: Let_def BRK2_HEADER_BYTES_def not_less)
qed (simp add: brk2_check_header_def BRK2_HEADER_BYTES_def)

section \<open>Requests\<close>

text \<open>What the fields carry.\<close>

definition has_field :: "FieldView list \<Rightarrow> u16 \<Rightarrow> u8 \<Rightarrow> bytes \<Rightarrow> bool" where
  "has_field fs i t d \<longleftrightarrow> (\<exists>f. find_field fs i = Some f \<and> fv_type f = t \<and> fv_data f = d)"

definition opt_field :: "FieldView list \<Rightarrow> u16 \<Rightarrow> u8 \<Rightarrow> nat \<Rightarrow> bool" where
  "opt_field fs i t n \<longleftrightarrow> find_field fs i = None \<or> (\<exists>d. has_field fs i t d \<and> length d = n)"

definition brk2_no_unknown_critical :: "FieldView list \<Rightarrow> bool" where
  "brk2_no_unknown_critical fs \<longleftrightarrow> list_all (\<lambda>f. fv_id f \<in> {1..10} \<or> fv_flags f AND FIELD_CRITICAL = 0) fs"

definition brk2_string :: "ProtocolLimits \<Rightarrow> FieldView list \<Rightarrow> u16 \<Rightarrow> string \<Rightarrow> bool" where
  "brk2_string limits fs i s \<longleftrightarrow> has_field fs i WT_UTF8 (bytes_of_string s) \<and> utf8_text (bytes_of_string s) \<and>
     s \<noteq> [] \<and> length s \<le> max_string_bytes limits"

definition brk2_preference :: "FieldView list \<Rightarrow> string \<Rightarrow> bool" where
  "brk2_preference fs s \<longleftrightarrow> (if s = [] then find_field fs 10 = None
     else s \<in> {''cpu'', ''gpu'', ''npu'', ''auto''} \<and> has_field fs 10 WT_UTF8 (bytes_of_string s))"

definition brk2_carries :: "ProtocolLimits \<Rightarrow> FieldView list \<Rightarrow> BrokerRequest \<Rightarrow> bool" where
  "brk2_carries limits fs r \<longleftrightarrow>
     brk2_no_unknown_critical fs \<and>
     brk2_string limits fs 1 (rq_task_id r) \<and> brk2_string limits fs 2 (rq_source r) \<and>
     brk2_string limits fs 3 (rq_destination r) \<and> brk2_string limits fs 4 (rq_kind r) \<and>
     has_field fs 5 WT_U8 [rq_priority r] \<and> has_field fs 6 WT_U32 (be_bytes 4 (rq_timeout_ms r)) \<and>
     has_field fs 7 WT_BYTES (rq_payload r) \<and> opt_field fs 8 WT_UUID 16 \<and> opt_field fs 9 WT_U64 8 \<and>
     brk2_preference fs (rq_device_preference r) \<and>
     length (rq_payload r) \<le> max_payload_bytes limits \<and> rq_timeout_ms r \<noteq> 0 \<and> rq_timeout_ms r \<le> BROKER_MAX_TIMEOUT_MS \<and>
     rq_profile r = None"

lemma get_string_iff:
  "get_string fs i = Inr s \<longleftrightarrow> has_field fs i WT_UTF8 (bytes_of_string s) \<and> valid_utf8 (bytes_of_string s) \<and> s \<noteq> []"
  by (auto simp: get_string_def has_field_def Let_def split: option.splits)

lemma get_fixed_iff: "get_fixed fs i t n = Inr d \<longleftrightarrow> has_field fs i t d \<and> length d = n"
  by (auto simp: get_fixed_def has_field_def split: option.splits)

lemma bytes_of_string_inject [simp]: "bytes_of_string s = bytes_of_string t \<longleftrightarrow> s = t"
  by (metis string_of_bytes_of_string)

lemma string_of_bytes_eq_iff: "string_of_bytes d = s \<longleftrightarrow> d = bytes_of_string s"
  by auto

lemma brk2_read_preference_iff: "brk2_read_preference fs = Inr s \<longleftrightarrow> brk2_preference fs s"
  by (auto simp: brk2_read_preference_def brk2_preference_def has_field_def Let_def string_of_bytes_eq_iff split: option.splits if_splits)

lemma opt_field_iff:
  "opt_field fs i t n \<longleftrightarrow> \<not> (case find_field fs i of None \<Rightarrow> False | Some f \<Rightarrow> fv_type f \<noteq> t \<or> fv_size f \<noteq> n)"
  by (auto simp: opt_field_def has_field_def split: option.splits)

lemma brk2_no_unknown_critical_iff:
  "brk2_no_unknown_critical fs \<longleftrightarrow>
    \<not> list_ex (\<lambda>f. \<not> (fv_id f \<ge> 1 \<and> fv_id f \<le> 10) \<and> fv_flags f AND FIELD_CRITICAL \<noteq> 0) fs"
  by (auto simp: brk2_no_unknown_critical_def list_all_iff list_ex_iff)

lemma has_field_size:
  "has_field fs i t d \<Longrightarrow> length d = (case find_field fs i of None \<Rightarrow> 0 | Some f \<Rightarrow> fv_size f)"
  by (auto simp: has_field_def)

lemma timeout_field [simp]:
  "length p = 4 \<Longrightarrow> be_bytes 4 (read32 p 0) = p" "read32 (be_bytes 4 v) 0 = v"
  by (simp_all add: reads bytes_at_def be_bytes_be_word)

lemma brk2_read_request_iff: "brk2_read_request fs limits = Inr r \<longleftrightarrow> brk2_carries limits fs r"
proof -
  have "brk2_read_request fs limits = Inr r \<longleftrightarrow>
      (\<exists>task_id source destination kind p5 p6 payload pref.
        brk2_no_unknown_critical fs \<and> get_string fs 1 = Inr task_id \<and> get_string fs 2 = Inr source \<and>
        get_string fs 3 = Inr destination \<and> get_string fs 4 = Inr kind \<and>
        \<not> list_ex (\<lambda>v. length v > max_string_bytes limits) [task_id, source, destination, kind] \<and>
        get_fixed fs 5 WT_U8 1 = Inr p5 \<and> get_fixed fs 6 WT_U32 4 = Inr p6 \<and>
        get_fixed fs 7 WT_BYTES (case find_field fs 7 of None \<Rightarrow> 0 | Some f \<Rightarrow> fv_size f) = Inr payload \<and>
        length payload \<le> max_payload_bytes limits \<and> opt_field fs 8 WT_UUID 16 \<and> opt_field fs 9 WT_U64 8 \<and>
        brk2_read_preference fs = Inr pref \<and> read32 p6 0 \<noteq> 0 \<and> read32 p6 0 \<le> BROKER_MAX_TIMEOUT_MS \<and>
        r = \<lparr> rq_task_id = task_id, rq_source = source, rq_destination = destination, rq_kind = kind,
             rq_priority = p5 ! 0, rq_timeout_ms = read32 p6 0, rq_payload = payload, rq_profile = None,
             rq_device_preference = pref \<rparr>)"
    unfolding brk2_read_request_def Let_def brk2_no_unknown_critical_iff opt_field_iff
    by (simp only: res_bind_Inr_iff if_Inl_eq_Inr sum.inject not_less not_le de_Morgan_disj) blast
  also have "\<dots> \<longleftrightarrow> brk2_carries limits fs r"
    unfolding brk2_carries_def brk2_string_def get_string_iff get_fixed_iff brk2_read_preference_iff valid_utf8_utf8_text
    by (cases r) (fastforce simp: length_Suc_conv has_field_size [symmetric] not_less)
  finally show ?thesis .
qed

lemma parse_fields_iff:
  "32 \<le> length body \<Longrightarrow> parse_fields body = Inr fs \<longleftrightarrow>
    drop 32 body = concat (map tlv fs) \<and> list_all tlv_ok fs \<and> distinct (map fv_id fs)"
  using parse_fields_from_iff [of 32 body "[]" fs] by (simp add: parse_fields_def BRK2_HEADER_BYTES_def)

definition brk2_fits :: "ProtocolLimits \<Rightarrow> bytes \<Rightarrow> bool" where
  "brk2_fits limits body \<longleftrightarrow> length body \<le> max_frame_bytes limits \<and> length body - 32 \<le> max_payload_bytes limits \<and>
     length body - 32 < 2 ^ 32"

lemma brk2_request_bytes_header:
  "32 \<le> length body \<Longrightarrow> body = brk2_request_bytes minor rid fs \<longleftrightarrow>
    take 32 body = brk2_header minor MSG_REQUEST 0 rid BRK2_SCHEMA_REQUEST (length body - 32) \<and>
    drop 32 body = concat (map tlv fs)"
proof -
  assume "32 \<le> length body"
  have "body = brk2_request_bytes minor rid fs \<longleftrightarrow>
      take 32 body @ drop 32 body = brk2_header minor MSG_REQUEST 0 rid BRK2_SCHEMA_REQUEST (length (concat (map tlv fs))) @ concat (map tlv fs)"
    unfolding brk2_request_bytes_def Let_def append_take_drop_id ..
  also have "\<dots> \<longleftrightarrow> take 32 body = brk2_header minor MSG_REQUEST 0 rid BRK2_SCHEMA_REQUEST (length (concat (map tlv fs))) \<and>
      drop 32 body = concat (map tlv fs)"
    using \<open>32 \<le> length body\<close> by (intro append_eq_append_conv) simp
  finally show ?thesis by (metis length_drop)
qed

lemma length_brk2_request_bytes: "length (brk2_request_bytes minor rid fs) = 32 + length (concat (map tlv fs))"
  by (simp add: brk2_request_bytes_def Let_def)

lemma brk2_request_bytes_parts:
  fixes minor rid fs
  defines "body \<equiv> brk2_request_bytes minor rid fs"
  shows "32 \<le> length body" "body ! 5 = minor" "read64 body 12 = rid"
    "take 32 body = brk2_header minor MSG_REQUEST 0 rid BRK2_SCHEMA_REQUEST (length body - 32)"
    "drop 32 body = concat (map tlv fs)"
proof -
  show len: "32 \<le> length body" by (simp add: body_def length_brk2_request_bytes)
  then show t: "take 32 body = brk2_header minor MSG_REQUEST 0 rid BRK2_SCHEMA_REQUEST (length body - 32)"
    and "drop 32 body = concat (map tlv fs)"
    using brk2_request_bytes_header [OF len, of minor rid fs] by (simp_all add: body_def)
  show "body ! 5 = minor" "read64 body 12 = rid" using t unfolding brk2_header_eq [OF len] by simp_all
qed

lemma brk2_check_header_bytes:
  "brk2_check_header body limits = Inr u \<and> drop 32 body = concat (map tlv fs) \<and> read64 body 12 = rid \<longleftrightarrow>
   brk2_fits limits body \<and> (\<exists>minor. body = brk2_request_bytes minor rid fs)"
proof (cases "32 \<le> length body")
  case True
  show ?thesis (is "?L \<longleftrightarrow> ?R")
  proof
    assume ?L
    with True have "body = brk2_request_bytes (body ! 5) rid fs \<and> brk2_fits limits body"
      by (simp add: brk2_check_header_iff brk2_request_bytes_header brk2_fits_def)
    then show ?R by blast
  next
    assume ?R
    then obtain minor where b: "body = brk2_request_bytes minor rid fs" and "brk2_fits limits body" by blast
    then show ?L
      using brk2_request_bytes_parts [of minor rid fs] unfolding b by (simp add: brk2_check_header_iff brk2_fits_def)
  qed
next
  case False
  then show ?thesis by (auto simp: brk2_check_header_iff length_brk2_request_bytes)
qed

lemma decode_brk2_request_body_iff:
  "decode_brk2_request_body body limits id0 = (Inr r, rid) \<longleftrightarrow>
   (\<exists>minor fs. body = brk2_request_bytes minor rid fs \<and> brk2_fits limits body \<and> list_all tlv_ok fs \<and>
      distinct (map fv_id fs) \<and> brk2_carries limits fs r)"
proof -
  have frame: "brk2_check_header body limits = Inr u \<Longrightarrow> length body \<le> max_frame_bytes limits" for u
    by (simp add: brk2_check_header_iff)
  have "decode_brk2_request_body body limits id0 = (Inr r, rid) \<longleftrightarrow>
      brk2_check_header body limits = Inr () \<and> read64 body 12 = rid \<and>
      (\<exists>fs. parse_fields body = Inr fs \<and> brk2_carries limits fs r)"
    unfolding decode_brk2_request_body_def Let_def
    by (cases "brk2_check_header body limits") (auto simp: res_bind_Inr_iff brk2_read_request_iff dest: frame)
  also have "\<dots> \<longleftrightarrow> (\<exists>fs. (brk2_check_header body limits = Inr () \<and> drop 32 body = concat (map tlv fs) \<and> read64 body 12 = rid) \<and>
      list_all tlv_ok fs \<and> distinct (map fv_id fs) \<and> brk2_carries limits fs r)"
    by (cases "32 \<le> length body") (auto simp: parse_fields_iff brk2_check_header_iff)
  also have "\<dots> \<longleftrightarrow> (\<exists>minor fs. body = brk2_request_bytes minor rid fs \<and> brk2_fits limits body \<and> list_all tlv_ok fs \<and>
      distinct (map fv_id fs) \<and> brk2_carries limits fs r)"
    unfolding brk2_check_header_bytes by blast
  finally show ?thesis .
qed

text \<open>The fields are looked up by id, so their order does not matter.\<close>

lemma find_field_Some_iff:
  "distinct (map fv_id fs) \<Longrightarrow> find_field fs i = Some f \<longleftrightarrow> f \<in> set fs \<and> fv_id f = i"
  by (induction fs) (auto simp: find_field_def)

lemma find_field_perm:
  assumes "distinct (map fv_id fs)" "mset fs = mset gs"
  shows "find_field fs = find_field gs"
proof
  fix i
  have "distinct (map fv_id gs)" using assms by (metis mset_map mset_eq_imp_distinct_iff)
  moreover have "set fs = set gs" using assms(2) by (rule mset_eq_setD)
  ultimately have "find_field fs i = Some f \<longleftrightarrow> find_field gs i = Some f" for f
    using assms(1) by (simp add: find_field_Some_iff)
  then show "find_field fs i = find_field gs i" by (metis option.exhaust)
qed

lemma brk2_read_request_perm:
  assumes "distinct (map fv_id fs)" "mset fs = mset gs"
  shows "brk2_read_request fs limits = brk2_read_request gs limits"
  unfolding brk2_read_request_def get_string_def get_fixed_def brk2_read_preference_def find_field_perm [OF assms]
    list_ex_iff [of _ fs] list_ex_iff [of _ gs] mset_eq_setD [OF assms(2)] ..

lemma brk2_check_header_prefix:
  assumes "take 32 b = take 32 b'" "length b = length b'"
  shows "brk2_check_header b limits = brk2_check_header b' limits"
proof (cases "32 \<le> length b")
  case True
  have nth: "b ! i = b' ! i" if "i < 32" for i using assms(1) that by (metis nth_take)
  then have "i + 4 \<le> 32 \<Longrightarrow> read32 b i = read32 b' i" "i + 2 \<le> 32 \<Longrightarrow> read16 b i = read16 b' i" for i
    by (simp_all add: read32_def read16_def)
  then have "read32 b 0 = read32 b' 0" "b ! 4 = b' ! 4" "read16 b 6 = read16 b' 6" "read16 b 8 = read16 b' 8"
      "read16 b 10 = read16 b' 10" "read16 b 26 = read16 b' 26" "read32 b 28 = read32 b' 28"
      "read32 b 20 = read32 b' 20" "read16 b 24 = read16 b' 24"
    using nth by simp_all
  then show ?thesis unfolding brk2_check_header_def assms(2) by (simp only:)
qed (use assms(2) in \<open>simp add: brk2_check_header_def BRK2_HEADER_BYTES_def\<close>)

lemma decode_brk2_request_bytes:
  assumes "list_all tlv_ok fs" "distinct (map fv_id fs)"
  shows "decode_brk2_request_body (brk2_request_bytes minor rid fs) limits id0 =
    (case brk2_check_header (brk2_request_bytes minor rid fs) limits of
       Inl e \<Rightarrow> (Inl e, id0)
     | Inr _ \<Rightarrow> (brk2_read_request fs limits, rid))"
proof -
  let ?b = "brk2_request_bytes minor rid fs"
  have "parse_fields ?b = Inr fs"
    using assms brk2_request_bytes_parts [of minor rid fs] by (simp add: parse_fields_iff)
  moreover have "brk2_check_header ?b limits = Inr u \<Longrightarrow> length ?b \<le> max_frame_bytes limits" for u
    by (simp add: brk2_check_header_iff)
  ultimately show ?thesis
    using brk2_request_bytes_parts(3) [of minor rid fs]
    by (auto simp: decode_brk2_request_body_def res_bind_def split: sum.splits)
qed

section \<open>Responses\<close>

definition brk2_response_fields :: "BrokerResponse \<Rightarrow> FieldView list" where
  "brk2_response_fields r =
     [\<lparr> fv_id = 1, fv_type = WT_UTF8, fv_flags = 0, fv_data = bytes_of_string (rs_task_id r) \<rparr>,
      \<lparr> fv_id = 2, fv_type = WT_U8, fv_flags = 0, fv_data = [task_status_raw (rs_status r)] \<rparr>,
      \<lparr> fv_id = 3, fv_type = WT_I64, fv_flags = 0, fv_data = be_bytes 8 (scast (rs_selected_gpu r) :: i64) \<rparr>,
      \<lparr> fv_id = 4, fv_type = WT_U64, fv_flags = 0, fv_data = be_bytes 8 (rs_latency_ms r) \<rparr>,
      \<lparr> fv_id = 5, fv_type = WT_BYTES, fv_flags = 0, fv_data = rs_result r \<rparr>,
      \<lparr> fv_id = 6, fv_type = WT_UTF8, fv_flags = 0, fv_data = bytes_of_string (rs_error r) \<rparr>,
      \<lparr> fv_id = 7, fv_type = WT_UTF8, fv_flags = 0, fv_data = bytes_of_string (backend_name (rs_backend r)) \<rparr>]"

lemma put_field_iff:
  "put_field p i t d = Inr p' \<longleftrightarrow> length d < 2 ^ 32 \<and> p' = p @ tlv \<lparr> fv_id = i, fv_type = t, fv_flags = 0, fv_data = d \<rparr>"
  by (auto simp: put_field_eq)

lemma length_backend_name: "length (backend_name b) = 3"
  by (cases b) simp_all

lemma brk2_response_fields_ok:
  "list_all tlv_ok (brk2_response_fields r) \<longleftrightarrow>
     length (rs_task_id r) < 2 ^ 32 \<and> length (rs_result r) < 2 ^ 32 \<and> length (rs_error r) < 2 ^ 32"
  "distinct (map fv_id (brk2_response_fields r))"
  by (auto simp: brk2_response_fields_def tlv_ok_def WT_UTF8_def WT_U8_def WT_I64_def WT_U64_def WT_BYTES_def length_backend_name)

lemma encode_brk2_response_iff:
  "encode_brk2_response_body r rid limits = Inr b \<longleftrightarrow>
    length (rs_result r) \<le> max_payload_bytes limits \<and> length (rs_task_id r) \<le> max_string_bytes limits \<and>
    length (rs_error r) \<le> max_string_bytes limits \<and> list_all tlv_ok (brk2_response_fields r) \<and>
    (\<exists>p. p = concat (map tlv (brk2_response_fields r)) \<and> length p \<le> max_payload_bytes limits \<and> 32 + length p \<le> max_frame_bytes limits \<and>
      b = brk2_header 0 4 5 rid 2 (length p) @ p)"
  unfolding brk2_response_fields_ok(1) encode_brk2_response_body_def field_str_def field_u8_def field_i64_def field_u64_def field_bytes_def
  by (auto simp: res_bind_Inr_iff put_field_iff brk2_response_fields_def envelope_eq BRK2_HEADER_BYTES_def MSG_RESPONSE_def
      FLAG_RESPONSE_def FLAG_END_STREAM_def BRK2_SCHEMA_RESPONSE_def length_backend_name length_tlv not_less add.assoc)

section \<open>Properties\<close>

text \<open>A request to evaluate the properties on.\<close>

definition brk2_sample_request :: BrokerRequest where
  "brk2_sample_request = \<lparr> rq_task_id = ''t1'', rq_source = ''a'', rq_destination = ''b'', rq_kind = ''k'',
     rq_priority = 7, rq_timeout_ms = 1000, rq_payload = [1, 2], rq_profile = None, rq_device_preference = ''npu'' \<rparr>"

definition brk2_sample_fields :: "FieldView list" where
  "brk2_sample_fields =
     [\<lparr> fv_id = 1, fv_type = 8, fv_flags = 1, fv_data = bytes_of_string ''t1'' \<rparr>,
      \<lparr> fv_id = 2, fv_type = 8, fv_flags = 1, fv_data = bytes_of_string ''a'' \<rparr>,
      \<lparr> fv_id = 3, fv_type = 8, fv_flags = 1, fv_data = bytes_of_string ''b'' \<rparr>,
      \<lparr> fv_id = 4, fv_type = 8, fv_flags = 1, fv_data = bytes_of_string ''k'' \<rparr>,
      \<lparr> fv_id = 5, fv_type = 1, fv_flags = 0, fv_data = [7] \<rparr>,
      \<lparr> fv_id = 6, fv_type = 3, fv_flags = 0, fv_data = be_bytes 4 (1000 :: u32) \<rparr>,
      \<lparr> fv_id = 7, fv_type = 9, fv_flags = 0, fv_data = [1, 2] \<rparr>,
      \<lparr> fv_id = 10, fv_type = 8, fv_flags = 0, fv_data = bytes_of_string ''npu'' \<rparr>,
      \<lparr> fv_id = 99, fv_type = 2, fv_flags = 0, fv_data = [] \<rparr>]"

lemma brk2_sample_fields_ok: "list_all tlv_ok brk2_sample_fields" "distinct (map fv_id brk2_sample_fields)"
  by (simp_all add: brk2_sample_fields_def tlv_ok_def)

lemma ascii_text: "list_all (\<lambda>c. (of_char c :: nat) < 128) s \<Longrightarrow> utf8_text (bytes_of_string s)"
  by (induction s) (simp_all add: bytes_of_string_def utf8_text_Nil utf8_text_1 byte_of_char_def unat_of_nat)

lemma brk2_sample_carried: "brk2_carries ProtocolLimits_default brk2_sample_fields brk2_sample_request"
  unfolding brk2_carries_def brk2_sample_request_def brk2_sample_fields_def
  by (simp add: brk2_no_unknown_critical_def brk2_string_def has_field_def opt_field_def brk2_preference_def find_field_def
      ascii_text WT_UTF8_def WT_U8_def WT_U32_def WT_BYTES_def FIELD_CRITICAL_def ProtocolLimits_default_def BROKER_MAX_TIMEOUT_MS_def)

lemma brk2_sample_decodes:
  "decode_brk2_request_body (brk2_request_bytes 0 5 brk2_sample_fields) ProtocolLimits_default 0 = (Inr brk2_sample_request, 5)"
  unfolding decode_brk2_request_body_iff
  by (intro exI conjI, rule refl, simp_all add: brk2_sample_fields_ok brk2_sample_carried)
    (simp add: brk2_fits_def length_brk2_request_bytes ProtocolLimits_default_def brk2_sample_fields_def length_tlv)

text \<open>C10. A BRK2 request body is accepted if and only if it is a version-2 request envelope for the request id
  it yields (any minor version), within the size limits, followed by well-formed TLV fields with
  distinct ids that carry exactly the returned request: four non-empty UTF-8 strings within the limit,
  priority, a timeout of 1 to 300000 ms, a payload, optional idempotency key and deadline of the right
  type and size, an optional known device preference, and no unknown field marked critical.  This differs from the documentation of the protocol: header flags
  must be zero although the low eight bits are said to be accepted, the minor version is not looked at, a second field of an id is
  rejected also when it is flagged as repeated, the content of an unknown optional field is not checked, and the preference \<^verbatim>\<open>auto\<close> is accepted.\<close>

theorem brk2_request_accepted_iff:
  "decode_brk2_request_body body limits id0 = (Inr r, rid) \<longleftrightarrow>
   (\<exists>minor fs. body = brk2_request_bytes minor rid fs \<and> brk2_fits limits body \<and> list_all tlv_ok fs \<and>
      distinct (map fv_id fs) \<and> brk2_carries limits fs r)"
  by (rule decode_brk2_request_body_iff)

text \<open>C26. The order of the fields of a BRK2 request is irrelevant: permuting well-formed fields with distinct
  ids changes neither the request, nor the error text, nor the request id.\<close>

theorem brk2_field_order:
  assumes "list_all tlv_ok fs" "distinct (map fv_id fs)" "mset fs = mset gs"
  shows "decode_brk2_request_body (brk2_request_bytes minor rid fs) limits id0 =
         decode_brk2_request_body (brk2_request_bytes minor rid gs) limits id0"
proof -
  have gs: "list_all tlv_ok gs" "distinct (map fv_id gs)"
    using assms by (metis list_all_iff mset_eq_setD) (metis assms(2,3) mset_map mset_eq_imp_distinct_iff)
  have "length (concat (map tlv fs)) = length (concat (map tlv gs))"
  proof -
    have "mset (map (length \<circ> tlv) fs) = mset (map (length \<circ> tlv) gs)" using assms(3) by simp
    then have "sum_list (map (length \<circ> tlv) fs) = sum_list (map (length \<circ> tlv) gs)" by (metis sum_mset_sum_list)
    then show ?thesis by (simp add: length_concat comp_def)
  qed
  then have "brk2_check_header (brk2_request_bytes minor rid fs) limits = brk2_check_header (brk2_request_bytes minor rid gs) limits"
    by (intro brk2_check_header_prefix) (simp_all add: brk2_request_bytes_def Let_def)
  then show ?thesis
    unfolding decode_brk2_request_bytes [OF assms(1,2)] decode_brk2_request_bytes [OF gs] brk2_read_request_perm [OF assms(2,3)]
    by simp
qed

theorem brk2_field_order_witness:
  "decode_brk2_request_body (brk2_request_bytes 0 5 (rev brk2_sample_fields)) ProtocolLimits_default 0 =
     (Inr brk2_sample_request, 5)"
  using brk2_field_order [OF brk2_sample_fields_ok, of "rev brk2_sample_fields" 0 5 ProtocolLimits_default 0] brk2_sample_decodes
  by simp

text \<open>C25. Every request the BRK2 decoder returns passes the validation of the BRK1 path, has UTF-8 strings within
  the limit and a device preference that is unset or one of the four known ones, so both protocols hand the broker
  service requests of the same kind.\<close>

theorem brk2_request_valid:
  assumes "decode_brk2_request_body body limits id0 = (Inr r, rid)"
  shows "validate_request r limits = Inr () \<and>
    (\<forall>s \<in> {rq_task_id r, rq_source r, rq_destination r, rq_kind r}.
       utf8_text (bytes_of_string s) \<and> length s \<le> max_string_bytes limits) \<and>
    rq_device_preference r \<in> {[], ''cpu'', ''gpu'', ''npu'', ''auto''} \<and> rq_profile r = None \<and>
    length body \<le> max_frame_bytes limits"
proof -
  obtain fs where c: "brk2_carries limits fs r" and "brk2_fits limits body"
    using assms unfolding decode_brk2_request_body_iff by blast
  moreover have "validate_request r limits = Inr ()"
    using c by (auto simp: brk2_carries_def brk2_string_def validate_request_def)
  moreover have "rq_device_preference r \<in> {[], ''cpu'', ''gpu'', ''npu'', ''auto''}"
    using c by (simp add: brk2_carries_def brk2_preference_def split: if_splits)
  ultimately show ?thesis by (simp add: brk2_carries_def brk2_string_def brk2_fits_def)
qed

theorem brk2_request_valid_witness:
  "validate_request brk2_sample_request ProtocolLimits_default = Inr () \<and> rq_device_preference brk2_sample_request = ''npu''"
  using brk2_request_valid [OF brk2_sample_decodes] by (simp add: brk2_sample_request_def)

text \<open>A BRK2 response body is produced if and only if the response is within the limits, and then the
  repository's own field parser reads back from it exactly the seven fields of the response behind a response
  envelope with the caller's request id.\<close>

lemma brk2_response_codec:
  "encode_brk2_response_body r rid limits = Inr b \<longleftrightarrow>
    length (rs_result r) \<le> max_payload_bytes limits \<and> length (rs_task_id r) \<le> max_string_bytes limits \<and>
    length (rs_error r) \<le> max_string_bytes limits \<and> 32 \<le> length b \<and>
    length b - 32 \<le> max_payload_bytes limits \<and> length b \<le> max_frame_bytes limits \<and>
    take 32 b = brk2_header 0 4 5 rid 2 (length b - 32) \<and> parse_fields b = Inr (brk2_response_fields r)"
proof (cases "32 \<le> length b")
  case True
  define q where "q = concat (map tlv (brk2_response_fields r))"
  have b: "b = brk2_header 0 4 5 rid 2 (length p) @ p \<longleftrightarrow> take 32 b = brk2_header 0 4 5 rid 2 (length b - 32) \<and> drop 32 b = p" for p
    using append_eq_append_conv [of "take 32 b" "brk2_header 0 4 5 rid 2 (length p)" "drop 32 b" p] True by auto
  have len: "drop 32 b = q \<Longrightarrow> length q = length b - 32" by (metis length_drop)
  show ?thesis
    unfolding encode_brk2_response_iff parse_fields_iff [OF True] q_def [symmetric] b
    using True brk2_response_fields_ok(2) [of r] len by auto
qed (auto simp: encode_brk2_response_iff simp del: length_concat)

text \<open>No frame is both a BRK1 and a BRK2 request: a body the BRK1 decoder accepts is refused by the BRK2
  decoder because of its magic number, and leaves the request id untouched.\<close>

lemma brk1_brk2_disjoint:
  assumes "decode_request_frame h f limits = Inr r"
  shows "decode_brk2_request_body f limits' id0 = (Inl ''invalid BRK2 frame size'', id0) \<or>
         decode_brk2_request_body f limits' id0 = (Inl ''invalid BRK2 magic'', id0)"
proof -
  obtain b where "f = be_bytes 4 BROKER_MAGIC @ b"
    using assms by (auto simp: decode_request_frame_Inr_iff [where h' = h] encode_request_frame_iff brk1_header_def)
  then have "read32 f 0 \<noteq> BRK2_MAGIC"
    by (simp add: reads bytes_at_def BRK2_MAGIC_def BROKER_MAGIC_def)
  then show ?thesis by (simp add: decode_brk2_request_body_def brk2_check_header_def)
qed

end
