(* ===== verification/Nvlink_Placement.thy ===== *)
theory Nvlink_Placement
  imports Prelude "HOL-Library.AList"
begin

text \<open>
  GPU topology and task placement: \<^verbatim>\<open>include/nvlink_placement.h\<close> and
  \<^verbatim>\<open>src/nvlink_placement.cpp\<close>.  The CUDA runtime is a parameter: a record of its query functions,
  \<open>None\<close> for a call that does not return \<^verbatim>\<open>cudaSuccess\<close>; a build without CUDA has no record.
  The queue-depth callback of \<^verbatim>\<open>place\<close> is a state transformer, so that a depth may change between two
  calls.  \<^verbatim>\<open>NVLinkError\<close> is an \<open>Inl\<close>.
\<close>

section \<open>Topology\<close>

record CudaRuntime =
  cudaGetDeviceCount :: "int option"
  cudaGetDeviceName :: "int \<Rightarrow> string option"
  cudaDeviceCanAccessPeer :: "int \<Rightarrow> int \<Rightarrow> int option"
  cudaPerformanceRank :: "int \<Rightarrow> int \<Rightarrow> int option"
  cudaNativeAtomics :: "int \<Rightarrow> int \<Rightarrow> int option"
  cudaSetDevice :: "int \<Rightarrow> bool"

datatype LinkType = SELF | NVLINK | PCIE | NONE

definition link_type_name :: "LinkType \<Rightarrow> string" where
  "link_type_name lt =
     (case lt of SELF \<Rightarrow> ''SELF'' | NVLINK \<Rightarrow> ''NVLINK'' | PCIE \<Rightarrow> ''PCIE'' | NONE \<Rightarrow> ''NONE'')"

record GpuTopology =
  num_gpus :: int
  link_kind :: "LinkType list list"
  link_bandwidth :: "int list list"

definition get_gpu_count :: "CudaRuntime option \<Rightarrow> int" where
  "get_gpu_count cuda = (case cuda of None \<Rightarrow> 0 | Some c \<Rightarrow> (case cudaGetDeviceCount c of Some n \<Rightarrow> n | None \<Rightarrow> 0))"

definition is_valid_gpu :: "CudaRuntime option \<Rightarrow> int \<Rightarrow> bool" where
  "is_valid_gpu cuda gpu_idx = (let cnt = get_gpu_count cuda in gpu_idx \<ge> 0 \<and> gpu_idx < cnt)"

definition get_gpu_name :: "CudaRuntime option \<Rightarrow> int \<Rightarrow> string" where
  "get_gpu_name cuda gpu_idx =
     (case cuda of
        None \<Rightarrow> []
      | Some c \<Rightarrow> if \<not> is_valid_gpu cuda gpu_idx then []
          else case cudaGetDeviceName c gpu_idx of None \<Rightarrow> [] | Some name \<Rightarrow> name)"

text \<open>The element the loops address, \<^verbatim>\<open>m[i][j]\<close>, and the assignment to it.\<close>

definition entry :: "'a list list \<Rightarrow> int \<Rightarrow> int \<Rightarrow> 'a" where
  "entry m i j = m ! nat i ! nat j"

definition set_entry :: "int \<Rightarrow> int \<Rightarrow> 'a \<Rightarrow> 'a list list \<Rightarrow> 'a list list" where
  "set_entry i j x m = m[nat i := (m ! nat i)[nat j := x]]"

text \<open>The diagonal loop and the body of the peer loop.\<close>

definition set_diagonal :: "int \<Rightarrow> 'a \<Rightarrow> 'a list list \<Rightarrow> 'a list list" where
  "set_diagonal n x m = foldl (\<lambda>m i. set_entry i i x m) m [0..n - 1]"

definition detect_link :: "CudaRuntime \<Rightarrow> int \<Rightarrow> int \<Rightarrow> LinkType \<times> int" where
  "detect_link c i j =
     (let access = cudaDeviceCanAccessPeer c i j in
      if access = None \<or> access = Some 0 then (NONE, 0)
      else case cudaPerformanceRank c i j of
        None \<Rightarrow> (PCIE, 10)
      | Some perf_rank \<Rightarrow>
          let native_atomics = (case cudaNativeAtomics c i j of None \<Rightarrow> 0 | Some v \<Rightarrow> v) in
          if perf_rank = 0 \<and> native_atomics \<noteq> 0 then (NVLINK, 100)
          else if perf_rank = 0 then (NVLINK, 90)
          else (PCIE, 10))"

definition detect_pair :: "CudaRuntime \<Rightarrow> int \<times> int \<Rightarrow> GpuTopology \<Rightarrow> GpuTopology" where
  "detect_pair c = (\<lambda>(i, j) topo.
     if i = j then topo
     else let (kind, bandwidth) = detect_link c i j in
       topo \<lparr> link_kind := set_entry i j kind (link_kind topo),
              link_bandwidth := set_entry i j bandwidth (link_bandwidth topo) \<rparr>)"

definition detect :: "CudaRuntime option \<Rightarrow> GpuTopology res" where
  "detect cuda =
     (let n = get_gpu_count cuda in
      if n \<le> 0 then Inl ''No CUDA-enabled GPUs found.''
      else
        let topo = \<lparr> num_gpus = n,
              link_kind = set_diagonal n SELF (replicate (nat n) (replicate (nat n) NONE)),
              link_bandwidth = set_diagonal n 1000 (replicate (nat n) (replicate (nat n) 0)) \<rparr>
        in case cuda of
             None \<Rightarrow> Inr topo
           | Some c \<Rightarrow> Inr (fold (detect_pair c) (List.product [0..n - 1] [0..n - 1]) topo))"

definition synthetic :: "int \<Rightarrow> GpuTopology res" where
  "synthetic n =
     (if n \<le> 0 then Inl ''Synthetic topology requires at least one GPU.''
      else Inr \<lparr> num_gpus = n,
             link_kind = set_diagonal n SELF (replicate (nat n) (replicate (nat n) PCIE)),
             link_bandwidth = set_diagonal n 1000 (replicate (nat n) (replicate (nat n) 10)) \<rparr>)"

definition link :: "GpuTopology \<Rightarrow> int \<Rightarrow> int \<Rightarrow> LinkType" where
  "link t from_gpu to_gpu =
     (if from_gpu < 0 \<or> from_gpu \<ge> num_gpus t \<or> to_gpu < 0 \<or> to_gpu \<ge> num_gpus t then NONE
      else entry (link_kind t) from_gpu to_gpu)"

definition bandwidth_hint :: "GpuTopology \<Rightarrow> int \<Rightarrow> int \<Rightarrow> int" where
  "bandwidth_hint t from_gpu to_gpu =
     (if from_gpu < 0 \<or> from_gpu \<ge> num_gpus t \<or> to_gpu < 0 \<or> to_gpu \<ge> num_gpus t then 0
      else entry (link_bandwidth t) from_gpu to_gpu)"

definition best_nvlink_peer :: "GpuTopology \<Rightarrow> int \<Rightarrow> int" where
  "best_nvlink_peer t gpu =
     (if gpu < 0 \<or> gpu \<ge> num_gpus t then -1
      else fst (foldl (\<lambda>(best, best_score) j.
        if j = gpu then (best, best_score)
        else if entry (link_kind t) gpu j \<noteq> NVLINK then (best, best_score)
        else if entry (link_bandwidth t) gpu j > best_score then (j, entry (link_bandwidth t) gpu j)
        else (best, best_score)) (-1, -1) [0..num_gpus t - 1]))"

definition best_peer :: "GpuTopology \<Rightarrow> int \<Rightarrow> int" where
  "best_peer t gpu =
     (if gpu < 0 \<or> gpu \<ge> num_gpus t then -1
      else fst (foldl (\<lambda>(best, best_score) j.
        if j = gpu then (best, best_score)
        else if entry (link_kind t) gpu j = NONE then (best, best_score)
        else if entry (link_bandwidth t) gpu j > best_score then (j, entry (link_bandwidth t) gpu j)
        else (best, best_score)) (-1, -1) [0..num_gpus t - 1]))"

definition has_nvlink :: "GpuTopology \<Rightarrow> int \<Rightarrow> int \<Rightarrow> bool" where
  "has_nvlink t from_gpu to_gpu \<longleftrightarrow> link t from_gpu to_gpu = NVLINK"

definition can_access :: "GpuTopology \<Rightarrow> int \<Rightarrow> int \<Rightarrow> bool" where
  "can_access t from_gpu to_gpu = (let lt = link t from_gpu to_gpu in lt = NVLINK \<or> lt = PCIE)"

text \<open>\<^verbatim>\<open>enable_peer_access\<close>: the peer pairs it asks the runtime to enable, in order.  A failed request
  only prints a warning.\<close>

fun enable_rows :: "CudaRuntime \<Rightarrow> GpuTopology \<Rightarrow> int list \<Rightarrow> (int \<times> int) list res" where
  "enable_rows c t [] = Inr []"
| "enable_rows c t (i # is) =
     (if \<not> cudaSetDevice c i then Inl (''Failed to set device '' @ to_string (nat i))
      else res_bind (enable_rows c t is) (\<lambda>rest.
        Inr (map (Pair i) (filter (\<lambda>j. i \<noteq> j \<and> (entry (link_kind t) i j = NVLINK \<or> entry (link_kind t) i j = PCIE))
               [0..num_gpus t - 1]) @ rest)))"

definition enable_peer_access :: "CudaRuntime option \<Rightarrow> GpuTopology \<Rightarrow> (int \<times> int) list res" where
  "enable_peer_access cuda t = (case cuda of None \<Rightarrow> Inr [] | Some c \<Rightarrow> enable_rows c t [0..num_gpus t - 1])"

definition topo_to_string :: "CudaRuntime option \<Rightarrow> GpuTopology \<Rightarrow> string" where
  "topo_to_string cuda t =
     to_string (nat (num_gpus t)) @ '' GPU(s): '' @
     concat (map (\<lambda>i. get_gpu_name cuda i @ (if i < num_gpus t - 1 then '', '' else [])) [0..num_gpus t - 1])"

section \<open>Placement\<close>

record Placer =
  backlog_threshold :: nat
  rr_counter :: u64
  affinity :: "(int \<times> int) list"

definition Placer_init :: "nat \<Rightarrow> Placer" where
  "Placer_init threshold = \<lparr> backlog_threshold = threshold, rr_counter = 0, affinity = [] \<rparr>"

text \<open>\<^verbatim>\<open>rr_counter_.fetch_add(1) % topo_.num_gpus()\<close>.\<close>

definition next_rr :: "GpuTopology \<Rightarrow> Placer \<Rightarrow> int \<times> Placer" where
  "next_rr t p = (int (unat (rr_counter p) mod nat (num_gpus t)), p \<lparr> rr_counter := rr_counter p + 1 \<rparr>)"

definition assign_home :: "GpuTopology \<Rightarrow> Placer \<Rightarrow> int \<Rightarrow> int \<times> Placer" where
  "assign_home t p client_id =
     (let (home, p) = next_rr t p in (home, p \<lparr> affinity := AList.update client_id home (affinity p) \<rparr>))"

definition home_of :: "Placer \<Rightarrow> int \<Rightarrow> int" where
  "home_of p client_id = (case map_of (affinity p) client_id of Some home \<Rightarrow> home | None \<Rightarrow> -1)"

definition release_client :: "Placer \<Rightarrow> int \<Rightarrow> Placer" where
  "release_client p client_id = p \<lparr> affinity := AList.delete client_id (affinity p) \<rparr>"

definition num_clients :: "Placer \<Rightarrow> nat" where
  "num_clients p = length (affinity p)"

text \<open>The last loop of \<^verbatim>\<open>place\<close>.\<close>

fun least_loaded :: "('s \<Rightarrow> int \<Rightarrow> nat \<times> 's) \<Rightarrow> int list \<Rightarrow> int \<Rightarrow> nat \<Rightarrow> 's \<Rightarrow> int \<times> 's" where
  "least_loaded queue_depth [] best best_depth s = (best, s)"
| "least_loaded queue_depth (i # is) best best_depth s =
     (let (d, s) = queue_depth s i in
      if d < best_depth then least_loaded queue_depth is i d s
      else least_loaded queue_depth is best best_depth s)"

definition place :: "GpuTopology \<Rightarrow> Placer \<Rightarrow> int \<Rightarrow> ('s \<Rightarrow> int \<Rightarrow> nat \<times> 's) \<Rightarrow> 's \<Rightarrow> int \<times> Placer \<times> 's" where
  "place t p client_id queue_depth s =
     (let home = (case map_of (affinity p) client_id of Some h \<Rightarrow> h | None \<Rightarrow> -1);
          (home, p) = (if home < 0 \<or> home \<ge> num_gpus t then next_rr t p else (home, p));
          (home_depth, s) = queue_depth s home in
      if home_depth < backlog_threshold p then (home, p, s)
      else
        let peer = best_peer t home;
            (peer_ok, s) = (if peer \<ge> 0 then let (d, s) = queue_depth s peer in (d < backlog_threshold p, s) else (False, s)) in
        if peer_ok then (peer, p, s)
        else let (best, s) = least_loaded queue_depth [0..num_gpus t - 1] home home_depth s in (best, p, s))"

section \<open>Square tables\<close>

definition square :: "int \<Rightarrow> 'a list list \<Rightarrow> bool" where
  "square n m \<longleftrightarrow> length m = nat n \<and> list_all (\<lambda>row. length row = nat n) m"

abbreviation in_range :: "int \<Rightarrow> int \<Rightarrow> bool" where
  "in_range n i \<equiv> 0 \<le> i \<and> i < n"

lemma square_replicate [simp]: "square n (replicate (nat n) (replicate (nat n) x))"
  by (simp add: square_def list_all_length)

lemma square_set_entry [simp]: "square n m \<Longrightarrow> square n (set_entry i j x m)"
  by (cases "nat i < length m") (auto simp: square_def set_entry_def list_all_length nth_list_update)

lemma entry_replicate [simp]: "in_range n i \<Longrightarrow> in_range n j \<Longrightarrow> entry (replicate (nat n) (replicate (nat n) x)) i j = x"
  by (simp add: entry_def)

lemma entry_set_entry:
  assumes "square n m" "in_range n i" "in_range n j" "in_range n a" "in_range n b"
  shows "entry (set_entry i j x m) a b = (if a = i \<and> b = j then x else entry m a b)"
proof -
  have "nat a = nat i \<longleftrightarrow> a = i" "nat b = nat j \<longleftrightarrow> b = j" "nat i < length m" "nat j < length (m ! nat i)"
    using assms by (auto simp: square_def list_all_length)
  then show ?thesis by (auto simp: entry_def set_entry_def nth_list_update)
qed

lemma set_diagonal_entries:
  "square n m \<Longrightarrow> (\<forall>i \<in> set is. in_range n i) \<Longrightarrow>
    square n (foldl (\<lambda>m i. set_entry i i x m) m is) \<and>
    (\<forall>a b. in_range n a \<longrightarrow> in_range n b \<longrightarrow>
      entry (foldl (\<lambda>m i. set_entry i i x m) m is) a b = (if a = b \<and> a \<in> set is then x else entry m a b))"
proof (induction "is" arbitrary: m)
  case (Cons i "is")
  then have "square n (set_entry i i x m)" "\<forall>i \<in> set is. in_range n i" by simp_all
  from Cons.IH [OF this] Cons.prems show ?case by (auto simp: entry_set_entry [of n])
qed simp

lemma square_set_diagonal [simp]: "square n m \<Longrightarrow> square n (set_diagonal n x m)"
  using set_diagonal_entries [of n m "[0..n - 1]"] by (simp add: set_diagonal_def)

lemma entry_set_diagonal:
  "square n m \<Longrightarrow> in_range n a \<Longrightarrow> in_range n b \<Longrightarrow> entry (set_diagonal n x m) a b = (if a = b then x else entry m a b)"
  using set_diagonal_entries [of n m "[0..n - 1]"] by (simp add: set_diagonal_def)

section \<open>Topologies\<close>

text \<open>A topology is its table of links: every entry a link type with a non-negative bandwidth hint.\<close>

definition topo_wf :: "GpuTopology \<Rightarrow> bool" where
  "topo_wf t \<longleftrightarrow> 0 < num_gpus t \<and> square (num_gpus t) (link_kind t) \<and> square (num_gpus t) (link_bandwidth t) \<and>
     list_all (\<lambda>i. list_all (\<lambda>j. 0 \<le> entry (link_bandwidth t) i j \<and> (entry (link_kind t) i j = SELF \<longleftrightarrow> i = j))
       [0..num_gpus t - 1]) [0..num_gpus t - 1]"

lemma topo_wfD:
  assumes "topo_wf t"
  shows "0 < num_gpus t" "in_range (num_gpus t) i \<Longrightarrow> in_range (num_gpus t) j \<Longrightarrow> 0 \<le> entry (link_bandwidth t) i j"
  using assms by (auto simp: topo_wf_def list_all_iff)

lemma topo_wfI:
  assumes "0 < n" "num_gpus t = n" "square n (link_kind t)" "square n (link_bandwidth t)"
    "\<And>i j. in_range n i \<Longrightarrow> in_range n j \<Longrightarrow>
      entry (link_kind t) i j = (if i = j then SELF else fst (f i j)) \<and>
      entry (link_bandwidth t) i j = (if i = j then 1000 else snd (f i j)) \<and> fst (f i j) \<noteq> SELF \<and> 0 \<le> snd (f i j)"
  shows "topo_wf t"
  using assms by (auto simp: topo_wf_def list_all_iff)

lemma fold_detect_pair:
  "square n (link_kind t) \<Longrightarrow> square n (link_bandwidth t) \<Longrightarrow> (\<forall>(i, j) \<in> set ps. in_range n i \<and> in_range n j) \<Longrightarrow>
    num_gpus (fold (detect_pair c) ps t) = num_gpus t \<and>
    square n (link_kind (fold (detect_pair c) ps t)) \<and> square n (link_bandwidth (fold (detect_pair c) ps t)) \<and>
    (\<forall>a b. in_range n a \<longrightarrow> in_range n b \<longrightarrow>
      entry (link_kind (fold (detect_pair c) ps t)) a b =
        (if (a, b) \<in> set ps \<and> a \<noteq> b then fst (detect_link c a b) else entry (link_kind t) a b) \<and>
      entry (link_bandwidth (fold (detect_pair c) ps t)) a b =
        (if (a, b) \<in> set ps \<and> a \<noteq> b then snd (detect_link c a b) else entry (link_bandwidth t) a b))"
proof (induction ps arbitrary: t)
  case (Cons p ps)
  obtain i j where p: "p = (i, j)" by fastforce
  let ?t = "detect_pair c p t"
  have n: "num_gpus ?t = num_gpus t" by (simp add: detect_pair_def p split: prod.split)
  have sq: "square n (link_kind ?t)" "square n (link_bandwidth ?t)"
    using Cons.prems by (simp_all add: detect_pair_def p split: prod.split)
  have e: "in_range n a \<Longrightarrow> in_range n b \<Longrightarrow>
      entry (link_kind ?t) a b = (if (a, b) = p \<and> a \<noteq> b then fst (detect_link c a b) else entry (link_kind t) a b) \<and>
      entry (link_bandwidth ?t) a b = (if (a, b) = p \<and> a \<noteq> b then snd (detect_link c a b) else entry (link_bandwidth t) a b)" for a b
    using Cons.prems by (auto simp: detect_pair_def p entry_set_entry [of n] split: prod.split)
  have "\<forall>(i, j) \<in> set ps. in_range n i \<and> in_range n j" using Cons.prems by simp
  from Cons.IH [OF sq this] n show ?case by (auto simp: e)
qed simp

lemma detect_link_range: "fst (detect_link c i j) \<noteq> SELF" "0 \<le> snd (detect_link c i j)"
  by (auto simp: detect_link_def Let_def split: option.split)

lemma detect_entries:
  assumes "detect cuda = Inr t"
  obtains c n where "cuda = Some c" "num_gpus t = n" "0 < n" "n = get_gpu_count cuda" "square n (link_kind t)" "square n (link_bandwidth t)"
    "\<And>i j. in_range n i \<Longrightarrow> in_range n j \<Longrightarrow>
      entry (link_kind t) i j = (if i = j then SELF else fst (detect_link c i j)) \<and>
      entry (link_bandwidth t) i j = (if i = j then 1000 else snd (detect_link c i j))"
proof -
  let ?n = "get_gpu_count cuda"
  have n: "0 < ?n" using assms by (auto simp: detect_def Let_def split: if_splits)
  then obtain c where c: "cuda = Some c" by (cases cuda) (auto simp: get_gpu_count_def)
  define t0 where "t0 = \<lparr> num_gpus = ?n, link_kind = set_diagonal ?n SELF (replicate (nat ?n) (replicate (nat ?n) NONE)),
    link_bandwidth = set_diagonal ?n 1000 (replicate (nat ?n) (replicate (nat ?n) 0)) \<rparr>"
  let ?ps = "List.product [0..?n - 1] [0..?n - 1]"
  have t: "t = fold (detect_pair c) ?ps t0"
    using assms n by (simp add: detect_def Let_def c t0_def)
  have "\<forall>(i, j) \<in> set ?ps. in_range ?n i \<and> in_range ?n j" by auto
  from fold_detect_pair [of ?n t0 ?ps c, OF _ _ this]
  have f: "num_gpus t = ?n" "square ?n (link_kind t)" "square ?n (link_bandwidth t)"
    "\<And>i j. in_range ?n i \<Longrightarrow> in_range ?n j \<Longrightarrow>
      entry (link_kind t) i j = (if i = j then SELF else fst (detect_link c i j)) \<and>
      entry (link_bandwidth t) i j = (if i = j then 1000 else snd (detect_link c i j))"
    unfolding t by (auto simp: t0_def entry_set_diagonal)
  show thesis by (rule that [OF c f(1) n refl f(2,3)]) (rule f(4))
qed

lemma topo_wf_detect: "detect cuda = Inr t \<Longrightarrow> topo_wf t"
  by (elim detect_entries, rule topo_wfI) (auto simp: detect_link_range)

lemma synthetic_entries:
  assumes "synthetic n = Inr t"
  shows "num_gpus t = n" "0 < n" "square n (link_kind t)" "square n (link_bandwidth t)"
    "in_range n i \<Longrightarrow> in_range n j \<Longrightarrow> entry (link_kind t) i j = (if i = j then SELF else PCIE)"
    "in_range n i \<Longrightarrow> in_range n j \<Longrightarrow> entry (link_bandwidth t) i j = (if i = j then 1000 else 10)"
  using assms by (auto simp: synthetic_def entry_set_diagonal)

lemma topo_wf_synthetic: "synthetic n = Inr t \<Longrightarrow> topo_wf t"
  by (rule topo_wfI [where f = "\<lambda>_ _. (PCIE, 10)" and n = n]) (auto simp: synthetic_entries)

section \<open>The best peer\<close>

text \<open>Both peer loops are the loop that keeps the first eligible index with the highest score.\<close>

definition first_max :: "(int \<Rightarrow> bool) \<Rightarrow> (int \<Rightarrow> int) \<Rightarrow> int list \<Rightarrow> int" where
  "first_max P f xs = fst (foldl (\<lambda>(best, best_score) j. if P j \<and> f j > best_score then (j, f j) else (best, best_score)) (-1, -1) xs)"

lemma best_peer_first_max:
  "in_range (num_gpus t) gpu \<Longrightarrow>
    best_peer t gpu = first_max (\<lambda>j. j \<noteq> gpu \<and> entry (link_kind t) gpu j \<noteq> NONE) (entry (link_bandwidth t) gpu) [0..num_gpus t - 1]"
  "in_range (num_gpus t) gpu \<Longrightarrow>
    best_nvlink_peer t gpu = first_max (\<lambda>j. j \<noteq> gpu \<and> entry (link_kind t) gpu j = NVLINK) (entry (link_bandwidth t) gpu) [0..num_gpus t - 1]"
  by (auto simp: best_peer_def best_nvlink_peer_def first_max_def intro!: arg_cong [where f = fst] foldl_cong)

definition is_first_max :: "(int \<Rightarrow> bool) \<Rightarrow> (int \<Rightarrow> int) \<Rightarrow> int set \<Rightarrow> int \<Rightarrow> bool" where
  "is_first_max P f A b \<longleftrightarrow> b \<in> A \<and> P b \<and> (\<forall>j \<in> A. P j \<longrightarrow> f j \<le> f b \<and> (f j = f b \<longrightarrow> b \<le> j))"

lemma first_max_state:
  assumes "sorted_wrt (<) xs" "\<And>j. j \<in> set xs \<Longrightarrow> P j \<Longrightarrow> 0 \<le> f j"
    "foldl (\<lambda>(b, s) j. if P j \<and> f j > s then (j, f j) else (b, s)) (-1, -1 :: int) xs = (b, s)"
  shows "(\<exists>j \<in> set xs. P j) \<and> is_first_max P f (set xs) b \<and> s = f b \<or> \<not> (\<exists>j \<in> set xs. P j) \<and> b = -1 \<and> s = -1"
  using assms
proof (induction xs arbitrary: b s rule: rev_induct)
  case (snoc x xs)
  have sorted: "sorted_wrt (<) xs" and less: "\<And>j. j \<in> set xs \<Longrightarrow> j < x" using snoc.prems(1) by (auto simp: sorted_wrt_append)
  obtain b' s' where bs: "foldl (\<lambda>(b, s) j. if P j \<and> f j > s then (j, f j) else (b, s)) (-1, -1) xs = (b', s')" by fastforce
  then have b: "(b, s) = (if P x \<and> f x > s' then (x, f x) else (b', s'))" using snoc.prems(3) by simp
  have IH: "(\<exists>j \<in> set xs. P j) \<and> is_first_max P f (set xs) b' \<and> s' = f b' \<or> \<not> (\<exists>j \<in> set xs. P j) \<and> b' = -1 \<and> s' = -1"
    using snoc.prems(2) by (intro snoc.IH [OF sorted _ bs]) simp
  show ?case
  proof (cases "P x \<and> f x > s'")
    case True
    with b have "b = x" "s = f x" by simp_all
    moreover have "is_first_max P f (set (xs @ [x])) x"
      using IH True unfolding is_first_max_def by (elim disjE conjE) force+
    ultimately show ?thesis using True by auto
  next
    case False
    with b have bs: "b = b'" "s = s'" by simp_all
    from IH show ?thesis
    proof (elim disjE conjE)
      assume "\<exists>j \<in> set xs. P j" "is_first_max P f (set xs) b'" "s' = f b'"
      moreover from this False have "is_first_max P f (set (xs @ [x])) b'"
        using less unfolding is_first_max_def by (auto simp: not_less dest: less_imp_le)
      ultimately show ?thesis using bs by auto
    next
      assume "\<not> (\<exists>j \<in> set xs. P j)" "b' = -1" "s' = -1"
      moreover from this False have "\<not> P x" using snoc.prems(2) [of x] by auto
      ultimately show ?thesis using bs by auto
    qed
  qed
qed simp

lemma first_max_spec:
  assumes "\<And>j. in_range n j \<Longrightarrow> P j \<Longrightarrow> 0 \<le> f j"
  shows "first_max P f [0..n - 1] = -1 \<and> (\<forall>j. in_range n j \<longrightarrow> \<not> P j) \<or> is_first_max P f {0..<n} (first_max P f [0..n - 1])"
proof -
  obtain b s where bs: "foldl (\<lambda>(b, s) j. if P j \<and> f j > s then (j, f j) else (b, s)) (-1, -1) [0..n - 1] = (b, s)" by fastforce
  then have "first_max P f [0..n - 1] = b" by (simp add: first_max_def)
  moreover have "set [0..n - 1] = {0..<n}" by auto
  ultimately show ?thesis
    using first_max_state [OF _ _ bs] assms by (auto simp: sorted_wrt_upto)
qed

lemma best_peer_range: "topo_wf t \<Longrightarrow> 0 \<le> best_peer t g \<Longrightarrow> best_peer t g < num_gpus t"
proof -
  assume wf: "topo_wf t" and nonneg: "0 \<le> best_peer t g"
  then have g: "in_range (num_gpus t) g" by (auto simp: best_peer_def split: if_splits)
  have "0 \<le> entry (link_bandwidth t) g j" if "in_range (num_gpus t) j" for j using topo_wfD(2) [OF wf g that] .
  then show ?thesis
    using nonneg first_max_spec [of "num_gpus t" "\<lambda>j. j \<noteq> g \<and> entry (link_kind t) g j \<noteq> NONE" "entry (link_bandwidth t) g"]
    unfolding best_peer_first_max(1) [OF g] by (auto simp: is_first_max_def)
qed

section \<open>Where tasks go\<close>

lemma least_loaded_range: "fst (least_loaded qd is best bd s) \<in> insert best (set is)"
proof (induction "is" arbitrary: best bd s)
  case (Cons i "is")
  obtain d s' where d: "qd s i = (d, s')" by fastforce
  show ?case using Cons [of i d s'] Cons [of best bd s'] by (auto simp: d)
qed simp

lemma next_rr_range: "topo_wf t \<Longrightarrow> next_rr t p = (h, p') \<Longrightarrow> in_range (num_gpus t) h"
  using topo_wfD(1) [of t] by (auto simp: next_rr_def zless_nat_eq_int_zless [symmetric])

lemma next_rr_placer: "next_rr t p = (h, p') \<Longrightarrow> backlog_threshold p' = backlog_threshold p \<and> affinity p' = affinity p"
  by (auto simp: next_rr_def)

definition place_home :: "GpuTopology \<Rightarrow> Placer \<Rightarrow> int \<Rightarrow> int \<times> Placer" where
  "place_home t p client_id = (if in_range (num_gpus t) (home_of p client_id) then (home_of p client_id, p) else next_rr t p)"

lemma place_home_range: "topo_wf t \<Longrightarrow> place_home t p c = (h, p') \<Longrightarrow> in_range (num_gpus t) h"
  by (auto simp: place_home_def next_rr_range split: if_splits)

lemma place_unfold:
  "place t p c qd s =
    (let (home, p') = place_home t p c; (d, s) = qd s home in
     if d < backlog_threshold p then (home, p', s)
     else let peer = best_peer t home;
              (peer_ok, s) = (if peer \<ge> 0 then let (d, s) = qd s peer in (d < backlog_threshold p, s) else (False, s)) in
       if peer_ok then (peer, p', s)
       else let (best, s) = least_loaded qd [0..num_gpus t - 1] home d s in (best, p', s))"
proof -
  obtain home q where h: "place_home t p c = (home, q)" by fastforce
  have b: "backlog_threshold q = backlog_threshold p"
    using h by (auto simp: place_home_def dest: next_rr_placer split: if_splits)
  have "(if home_of p c < 0 \<or> home_of p c \<ge> num_gpus t then next_rr t p else (home_of p c, p)) = (home, q)"
    using h by (auto simp: place_home_def)
  then show ?thesis unfolding place_def home_of_def [symmetric] Let_def h by (simp only: prod.case b)
qed

lemma place_cases:
  assumes "place t p c qd s = (g, p', s')"
  obtains (home) "place_home t p c = (g, p')"
  | (peer) home where "place_home t p c = (home, p')" "g = best_peer t home" "0 \<le> g"
  | (least) home bd s0 where "place_home t p c = (home, p')" "g = fst (least_loaded qd [0..num_gpus t - 1] home bd s0)"
proof -
  obtain home q where h: "place_home t p c = (home, q)" by fastforce
  obtain d s1 where d: "qd s home = (d, s1)" by fastforce
  obtain d2 s2 where d2: "qd s1 (best_peer t home) = (d2, s2)" by fastforce
  note eq = assms [unfolded place_unfold h Let_def prod.case d d2]
  consider "d < backlog_threshold p" | "\<not> d < backlog_threshold p" "0 \<le> best_peer t home" "d2 < backlog_threshold p"
    | s0 where "least_loaded qd [0..num_gpus t - 1] home d s0 = (g, s')" "p' = q"
    using eq by (fastforce split: if_splits prod.splits)
  then show thesis
  proof cases
    case 1
    with eq show thesis by (intro home) (simp add: h)
  next
    case 2
    with eq have "p' = q" "g = best_peer t home" by simp_all
    with 2 show thesis by (intro peer [of home]) (simp_all add: h)
  next
    case 3
    then show thesis by (intro least [of home d s0]) (simp_all add: h)
  qed
qed

lemma place_range:
  assumes wf: "topo_wf t" and "place t p c qd s = (g, p', s')"
  shows "in_range (num_gpus t) g"
  using assms(2)
proof (cases rule: place_cases)
  case home
  then show ?thesis by (rule place_home_range [OF wf])
next
  case (peer home)
  then show ?thesis using best_peer_range [OF wf, of home] by simp
next
  case (least home bd s0)
  then show ?thesis
    using least_loaded_range [of qd "[0..num_gpus t - 1]" home bd s0] place_home_range [OF wf least(1)] by auto
qed

lemma place_placer:
  "place t p c qd s = (g, p', s') \<Longrightarrow> backlog_threshold p' = backlog_threshold p \<and> affinity p' = affinity p"
  by (erule place_cases) (auto simp: place_home_def dest: next_rr_placer split: if_splits)

text \<open>With depths that do not change during the call.\<close>

lemma least_loaded_snapshot:
  "least_loaded (\<lambda>s g. (d g, s)) is best (d best) s = (b, s') \<Longrightarrow> d b \<le> d best \<and> (\<forall>i \<in> set is. d b \<le> d i)"
proof (induction "is" arbitrary: best)
  case (Cons i "is")
  then show ?case by (cases "d i < d best") (fastforce simp: not_less)+
qed simp

lemma place_snapshot:
  assumes "place t p c (\<lambda>s g. (d g, s)) s = (g, p', s')"
  obtains home where "place_home t p c = (home, p')"
    "d home < backlog_threshold p \<longrightarrow> g = home"
    "d g < backlog_threshold p \<or> (\<forall>i. in_range (num_gpus t) i \<longrightarrow> d g \<le> d i)"
proof -
  obtain home q where h: "place_home t p c = (home, q)" by fastforce
  note eq = assms [unfolded place_unfold h Let_def prod.case]
  consider "d home < backlog_threshold p" | "\<not> d home < backlog_threshold p" "d g < backlog_threshold p" "p' = q"
    | "\<not> d home < backlog_threshold p" "least_loaded (\<lambda>s g. (d g, s)) [0..num_gpus t - 1] home (d home) s = (g, s')" "p' = q"
    using eq by (auto split: if_splits prod.splits)
  then show thesis
  proof cases
    case 1
    with eq show thesis by (intro that [of home]) (auto simp: h)
  next
    case 2
    then show thesis by (intro that [of home]) (auto simp: h)
  next
    case 3
    with least_loaded_snapshot [OF 3(2)] show thesis by (intro that [of home]) (auto simp: h)
  qed
qed

section \<open>Round robin\<close>

lemma residue_step: "0 < n \<Longrightarrow> g < n \<Longrightarrow> \<exists>!x. a \<le> x \<and> x < a + n \<and> x mod n = (g :: nat)"
proof -
  assume n: "0 < n" "g < n"
  define x where "x = (if a mod n \<le> g then a - a mod n + g else a - a mod n + n + g)"
  have am: "a mod n \<le> a" "a mod n < n" using n by simp_all
  have "x mod n = g"
  proof -
    have "a - a mod n = n * (a div n)" by (simp add: minus_mod_eq_mult_div)
    then have "x = n * (a div n) + g \<or> x = n * (a div n + 1) + g" by (simp add: x_def)
    moreover have "(n * k + g) mod n = g" for k using n by simp
    ultimately show ?thesis by blast
  qed
  moreover have "a \<le> x" "x < a + n" using am n unfolding x_def by (split if_split, linarith)+
  moreover have "x = y" if "a \<le> x" "x < a + n" "x mod n = g" "a \<le> y" "y < a + n" "y mod n = g" for x y
  proof -
    have "n dvd nat \<bar>int x - int y\<bar>" using that by (metis mod_eq_dvd_iff_nat nat_le_linear nat_abs_triangle_ineq nat_int abs_of_nat of_nat_diff abs_minus_commute)
    moreover have "nat \<bar>int x - int y\<bar> < n" using that by auto
    ultimately show ?thesis by (metis abs_of_nat dvd_imp_le int_nat_eq linorder_not_less nat_0_iff eq_iff_diff_eq_0 of_nat_eq_iff zero_less_iff_neq_zero abs_le_zero_iff)
  qed
  ultimately show ?thesis by blast
qed

definition residues :: "nat \<Rightarrow> nat \<Rightarrow> nat \<Rightarrow> nat \<Rightarrow> nat set" where
  "residues n g a m = {x. a \<le> x \<and> x < a + m \<and> x mod n = g}"

lemma residues_add: "residues n g a (m + k) = residues n g a m \<union> residues n g (a + m) k"
  "residues n g a m \<inter> residues n g (a + m) k = {}" "finite (residues n g a m)"
  by (auto simp: residues_def intro: finite_subset [of _ "{..<a + m}"])

lemma residues_mono: "m \<le> k \<Longrightarrow> residues n g a m \<subseteq> residues n g a k"
  by (auto simp: residues_def)

lemma residues_image: "residues n g a m = (\<lambda>i. a + i) ` {i. i < m \<and> (a + i) mod n = g}"
proof (intro set_eqI iffI)
  fix x assume "x \<in> residues n g a m"
  then show "x \<in> (\<lambda>i. a + i) ` {i. i < m \<and> (a + i) mod n = g}"
    by (intro image_eqI [of _ _ "x - a"]) (auto simp: residues_def)
qed (auto simp: residues_def)

lemma card_residues_period: "0 < n \<Longrightarrow> g < n \<Longrightarrow> card (residues n g a n) = 1"
proof -
  assume "0 < n" "g < n"
  then obtain x where "residues n g a n = {x}" using residue_step [of n g a] unfolding residues_def by auto
  then show ?thesis by simp
qed

lemma card_residues_periods: "0 < n \<Longrightarrow> g < n \<Longrightarrow> card (residues n g a (k * n)) = k"
proof (induction k arbitrary: a)
  case (Suc k)
  have "card (residues n g a (n + k * n)) = card (residues n g a n) + card (residues n g (a + n) (k * n))"
    unfolding residues_add(1) by (intro card_Un_disjoint residues_add)
  with Suc show ?case by (simp add: card_residues_period)
qed (simp add: residues_def)

lemma card_residues:
  assumes "0 < n" "g < n"
  shows "m div n \<le> card (residues n g a m) \<and> card (residues n g a m) \<le> m div n + 1"
proof -
  let ?r = "m mod n" and ?b = "a + m div n * n"
  have "card (residues n g a (m div n * n + ?r)) = card (residues n g a (m div n * n)) + card (residues n g ?b ?r)"
    unfolding residues_add(1) by (intro card_Un_disjoint residues_add)
  moreover have "residues n g ?b ?r \<subseteq> residues n g ?b n" using assms by (intro residues_mono) simp
  then have "card (residues n g ?b ?r) \<le> 1"
    using card_mono [OF residues_add(3)] card_residues_period [OF assms] by metis
  ultimately show ?thesis using assms by (simp add: card_residues_periods)
qed

text \<open>A run of \<^verbatim>\<open>assign_home\<close> calls.\<close>

definition assign_all :: "GpuTopology \<Rightarrow> int list \<Rightarrow> Placer \<Rightarrow> Placer" where
  "assign_all t cs p = fold (\<lambda>c p. snd (assign_home t p c)) cs p"

lemma home_of_assign_home:
  "assign_home t p c = (h, p') \<Longrightarrow> home_of p' c' = (if c' = c then h else home_of p c')"
  by (auto simp: assign_home_def home_of_def update_conv next_rr_def)

lemma home_of_release_client: "home_of (release_client p c) c' = (if c' = c then -1 else home_of p c')"
  by (simp add: release_client_def home_of_def delete_conv)

lemma assign_all_homes:
  assumes "distinct cs" "unat (rr_counter p) + length cs < 2 ^ 64" "i < length cs"
  shows "home_of (assign_all t cs p) (cs ! i) = int ((unat (rr_counter p) + i) mod nat (num_gpus t))"
  using assms
proof (induction cs arbitrary: p i)
  case (Cons c cs)
  obtain h p' where a: "assign_home t p c = (h, p')" by fastforce
  then have p': "rr_counter p' = rr_counter p + 1" and h: "h = int (unat (rr_counter p) mod nat (num_gpus t))"
    by (auto simp: assign_home_def next_rr_def)
  have u: "unat (rr_counter p') = unat (rr_counter p) + 1"
    using Cons.prems(2) unfolding p' by (simp add: unat_word_ariths)
  have keep: "home_of (assign_all t cs q) c = home_of q c" if "c \<notin> set cs" for cs q
    using that
  proof (induction cs arbitrary: q)
    case (Cons c' cs)
    obtain h' q' where "assign_home t q c' = (h', q')" by fastforce
    with Cons show ?case by (simp add: assign_all_def home_of_assign_home)
  qed (simp add: assign_all_def)
  have step: "assign_all t (c # cs) p = assign_all t cs p'" by (simp add: assign_all_def a)
  show ?case
  proof (cases i)
    case 0
    then show ?thesis using Cons.prems(1) by (simp add: step keep home_of_assign_home [OF a] h)
  next
    case (Suc j)
    then show ?thesis using Cons.prems Cons.IH [of p' j] by (simp add: step u)
  qed
qed simp

section \<open>Properties\<close>

definition sample_topo :: GpuTopology where
  "sample_topo = \<lparr> num_gpus = 3,
     link_kind = [[SELF, PCIE, NVLINK], [PCIE, SELF, NONE], [NVLINK, NONE, SELF]],
     link_bandwidth = [[1000, 10, 90], [10, 1000, 0], [90, 0, 1000]] \<rparr>"

lemma topo_wf_sample: "topo_wf sample_topo"
  by code_simp

text \<open>The topology \<^verbatim>\<open>detect\<close> returns has one GPU per CUDA device and records for every ordered pair exactly
  what the runtime reports: no peer access is no link, performance rank 0 is NVLink with hint 100 or 90 by native
  atomics, everything else is PCIe with hint 10, and the diagonal is the device itself.\<close>

lemma detect_faithful:
  assumes "detect cuda = Inr t"
  shows "topo_wf t \<and> num_gpus t = get_gpu_count cuda \<and>
    (\<exists>c. cuda = Some c \<and> (\<forall>i j. in_range (num_gpus t) i \<longrightarrow> in_range (num_gpus t) j \<longrightarrow>
       (link t i j, bandwidth_hint t i j) = (if i = j then (SELF, 1000) else detect_link c i j)))"
proof (rule detect_entries [OF assms])
  fix c n
  assume "cuda = Some c" "num_gpus t = n" "n = get_gpu_count cuda" and
    e: "\<And>i j. in_range n i \<Longrightarrow> in_range n j \<Longrightarrow>
      entry (link_kind t) i j = (if i = j then SELF else fst (detect_link c i j)) \<and>
      entry (link_bandwidth t) i j = (if i = j then 1000 else snd (detect_link c i j))"
  moreover have "topo_wf t" using assms by (rule topo_wf_detect)
  ultimately show ?thesis by (auto simp: link_def bandwidth_hint_def)
qed

definition sample_cuda :: CudaRuntime where
  "sample_cuda = \<lparr> cudaGetDeviceCount = Some 2, cudaGetDeviceName = (\<lambda>_. Some ''gpu''),
     cudaDeviceCanAccessPeer = (\<lambda>i j. Some 1), cudaPerformanceRank = (\<lambda>i j. Some i),
     cudaNativeAtomics = (\<lambda>i j. None), cudaSetDevice = (\<lambda>_. True) \<rparr>"

definition sample_detected :: GpuTopology where
  "sample_detected = \<lparr> num_gpus = 2, link_kind = [[SELF, NVLINK], [PCIE, SELF]], link_bandwidth = [[1000, 90], [10, 1000]] \<rparr>"

lemma detect_sample: "detect (Some sample_cuda) = Inr sample_detected"
  by code_simp

definition best_link :: "GpuTopology \<Rightarrow> int \<Rightarrow> (LinkType \<Rightarrow> bool) \<Rightarrow> int \<Rightarrow> bool" where
  "best_link t g ok p \<longleftrightarrow>
     (if \<exists>j. j \<noteq> g \<and> in_range (num_gpus t) j \<and> ok (link t g j)
      then p \<noteq> g \<and> in_range (num_gpus t) p \<and> ok (link t g p) \<and>
        (\<forall>j. j \<noteq> g \<and> in_range (num_gpus t) j \<and> ok (link t g j) \<longrightarrow>
          bandwidth_hint t g j < bandwidth_hint t g p \<or> bandwidth_hint t g j = bandwidth_hint t g p \<and> p \<le> j)
      else p = -1)"

lemma best_link_first_max:
  assumes "topo_wf t" "in_range (num_gpus t) g"
  shows "best_link t g ok (first_max (\<lambda>j. j \<noteq> g \<and> ok (entry (link_kind t) g j)) (entry (link_bandwidth t) g) [0..num_gpus t - 1])"
proof -
  let ?p = "first_max (\<lambda>j. j \<noteq> g \<and> ok (entry (link_kind t) g j)) (entry (link_bandwidth t) g) [0..num_gpus t - 1]"
  have e: "in_range (num_gpus t) j \<Longrightarrow> link t g j = entry (link_kind t) g j \<and> bandwidth_hint t g j = entry (link_bandwidth t) g j" for j
    using assms(2) by (simp add: link_def bandwidth_hint_def)
  have "?p = -1 \<and> (\<forall>j. in_range (num_gpus t) j \<longrightarrow> \<not> (j \<noteq> g \<and> ok (entry (link_kind t) g j))) \<or>
      is_first_max (\<lambda>j. j \<noteq> g \<and> ok (entry (link_kind t) g j)) (entry (link_bandwidth t) g) {0..<num_gpus t} ?p"
    by (rule first_max_spec) (rule topo_wfD(2) [OF assms], simp)
  then show ?thesis
  proof
    assume none: "?p = -1 \<and> (\<forall>j. in_range (num_gpus t) j \<longrightarrow> \<not> (j \<noteq> g \<and> ok (entry (link_kind t) g j)))"
    then have "\<not> (\<exists>j. j \<noteq> g \<and> in_range (num_gpus t) j \<and> ok (link t g j))" using e by auto
    with none show ?thesis unfolding best_link_def by simp
  next
    assume m: "is_first_max (\<lambda>j. j \<noteq> g \<and> ok (entry (link_kind t) g j)) (entry (link_bandwidth t) g) {0..<num_gpus t} ?p"
    then have p: "?p \<noteq> g" "in_range (num_gpus t) ?p" "ok (link t g ?p)" using e by (simp_all add: is_first_max_def)
    have "bandwidth_hint t g j < bandwidth_hint t g ?p \<or> bandwidth_hint t g j = bandwidth_hint t g ?p \<and> ?p \<le> j"
      if "j \<noteq> g" "in_range (num_gpus t) j" "ok (link t g j)" for j
      using m that e [OF that(2)] e [OF p(2)] unfolding is_first_max_def order.order_iff_strict by auto
    with p show ?thesis unfolding best_link_def by (metis (no_types, lifting))
  qed
qed

text \<open>\<^verbatim>\<open>best_peer\<close> and \<^verbatim>\<open>best_nvlink_peer\<close> return -1 if and only if no other GPU is linked (by NVLink),
  and otherwise a linked one with the highest bandwidth hint, the lowest index among equals.\<close>

lemma best_peer_optimal:
  assumes "topo_wf t" "in_range (num_gpus t) g"
  shows "best_link t g (\<lambda>k. k \<noteq> NONE) (best_peer t g) \<and> best_link t g (\<lambda>k. k = NVLINK) (best_nvlink_peer t g)"
  unfolding best_peer_first_max [OF assms(2)] using best_link_first_max [OF assms] by blast

text \<open>Placement always yields an existing GPU, whatever the queue depths do between two looks at them, and
  changes nothing but the round-robin counter.\<close>

lemma place_in_range:
  assumes "topo_wf t" "place t p c queue_depth s = (g, p', s')"
  shows "in_range (num_gpus t) g \<and> affinity p' = affinity p \<and> backlog_threshold p' = backlog_threshold p \<and>
    (rr_counter p' = rr_counter p \<or> rr_counter p' = rr_counter p + 1)"
proof -
  have "rr_counter p' = rr_counter p \<or> rr_counter p' = rr_counter p + 1"
    using assms(2) by (rule place_cases) (auto simp: place_home_def next_rr_def split: if_splits)
  then show ?thesis using place_range [OF assms] place_placer [OF assms(2)] by simp
qed

definition sample_placer :: Placer where
  "sample_placer = \<lparr> backlog_threshold = 2, rr_counter = 7, affinity = [(5, 1)] \<rparr>"

text \<open>Depths that change with every look: a counter.\<close>

text \<open>With depths that stay put during the call, a client whose home GPU is below the backlog threshold gets its
  home, and a GPU at or above the threshold is only chosen when no GPU has a shorter queue.\<close>

lemma place_balances:
  assumes "topo_wf t" "place t p c (\<lambda>s g. (depth g, s)) s = (g, p', s')"
  shows "(in_range (num_gpus t) (home_of p c) \<and> depth (home_of p c) < backlog_threshold p \<longrightarrow> g = home_of p c) \<and>
    (backlog_threshold p \<le> depth g \<longrightarrow> (\<forall>i. in_range (num_gpus t) i \<longrightarrow> depth g \<le> depth i))"
proof -
  obtain home where "place_home t p c = (home, p')" "depth home < backlog_threshold p \<longrightarrow> g = home"
    "depth g < backlog_threshold p \<or> (\<forall>i. in_range (num_gpus t) i \<longrightarrow> depth g \<le> depth i)"
    by (rule place_snapshot [OF assms(2)])
  then show ?thesis by (auto simp: place_home_def)
qed

text \<open>Round robin is fair: of any run of consecutive home assignments to distinct clients, every GPU receives the
  rounded-down average or one more, as long as the 64-bit counter does not wrap within the run.\<close>

lemma assign_home_fair:
  assumes "topo_wf t" "distinct cs" "unat (rr_counter p) + length cs < 2 ^ 64" "in_range (num_gpus t) g"
  shows "length cs div nat (num_gpus t) \<le> card {i. i < length cs \<and> home_of (assign_all t cs p) (cs ! i) = g} \<and>
    card {i. i < length cs \<and> home_of (assign_all t cs p) (cs ! i) = g} \<le> length cs div nat (num_gpus t) + 1"
proof -
  let ?a = "unat (rr_counter p)" and ?n = "nat (num_gpus t)"
  let ?A = "{i. i < length cs \<and> home_of (assign_all t cs p) (cs ! i) = g}"
  have n: "0 < ?n" "nat g < ?n" using assms(1,4) topo_wfD(1) by auto
  have "?A = {i. i < length cs \<and> (?a + i) mod ?n = nat g}"
    using assms(2-4) by (auto simp: assign_all_homes)
  then have "residues ?n (nat g) ?a (length cs) = (\<lambda>i. ?a + i) ` ?A"
    by (simp add: residues_image)
  moreover have "card ((\<lambda>i. ?a + i) ` ?A) = card ?A" by (intro card_image inj_onI) simp
  ultimately show ?thesis using card_residues [OF n, of "length cs" ?a] by simp
qed

definition sample_clients :: "int list" where
  "sample_clients = [1, 2, 3, 4, 5, 6, 7]"

end
