(* ===== verification/Float64.thy ===== *)
theory Float64
  imports Prelude
begin

text \<open>
  IEEE 754 binary64 values as the repository uses them.  A \<^verbatim>\<open>double\<close> is its 64-bit pattern, as every
  codec of the sources copies it; \<^verbatim>\<open>std::isfinite\<close> reads the exponent field; multiplication by
  \<^verbatim>\<open>2.0\<close>, the toy kernel of the CPU path, needs no rounding and is written out on the fields of the
  pattern.  \<open>double_magnitude\<close> is the exact absolute value in units of \<open>2 ^ -1074\<close>, the least
  positive subnormal.
\<close>

type_synonym double = u64

definition double_sign :: "double \<Rightarrow> nat" where
  "double_sign v = unat v div 2 ^ 63"

definition double_exponent :: "double \<Rightarrow> nat" where
  "double_exponent v = unat v div 2 ^ 52 mod 2 ^ 11"

definition double_mantissa :: "double \<Rightarrow> nat" where
  "double_mantissa v = unat v mod 2 ^ 52"

definition mk_double :: "nat \<Rightarrow> nat \<Rightarrow> nat \<Rightarrow> double" where
  "mk_double s e m = word_of_nat (s * 2 ^ 63 + e * 2 ^ 52 + m)"

definition double_isfinite :: "double \<Rightarrow> bool" where
  "double_isfinite v \<longleftrightarrow> double_exponent v \<noteq> 2047"

definition double_magnitude :: "double \<Rightarrow> nat" where
  "double_magnitude v =
     (if double_exponent v = 0 then double_mantissa v
      else (2 ^ 52 + double_mantissa v) * 2 ^ (double_exponent v - 1))"

text \<open>\<^verbatim>\<open>value *= 2.0\<close>.  A signalling NaN becomes quiet, as IEEE 754 prescribes for every operation.\<close>

definition double_mul2 :: "double \<Rightarrow> double" where
  "double_mul2 v =
     (let s = double_sign v; e = double_exponent v; m = double_mantissa v in
      if e = 2047 then (if m = 0 \<or> 2 ^ 51 \<le> m then v else mk_double s e (m + 2 ^ 51))
      else if e = 0 then (if 2 * m < 2 ^ 52 then mk_double s 0 (2 * m) else mk_double s 1 (2 * m - 2 ^ 52))
      else if e = 2046 then mk_double s 2047 0
      else mk_double s (e + 1) m)"

lemma double_fields_less:
  "double_sign v < 2" "double_exponent v < 2048" "double_mantissa v < 2 ^ 52"
  using unsigned_less [of v, where 'a = nat]
  by (simp_all add: double_sign_def double_exponent_def double_mantissa_def less_mult_imp_div_less)

lemma unat_mk_double:
  assumes "s < 2" "e < 2048" "m < 2 ^ 52"
  shows "unat (mk_double s e m) = s * 2 ^ 63 + e * 2 ^ 52 + m"
proof -
  from assms have "s * 2 ^ 63 + e * 2 ^ 52 + m < 2 ^ 64" by simp
  then show ?thesis by (simp add: mk_double_def unat_of_nat del: of_nat_add of_nat_mult)
qed

lemma mk_double_fields:
  assumes "s < 2" "e < 2048" "m < 2 ^ 52"
  shows "double_sign (mk_double s e m) = s" "double_exponent (mk_double s e m) = e"
    "double_mantissa (mk_double s e m) = m"
proof -
  have u: "unat (mk_double s e m) = (s * 2048 + e) * 2 ^ 52 + m"
    using unat_mk_double [OF assms] by simp
  have d: "((s * 2048 + e) * 2 ^ 52 + m) div 2 ^ 52 = s * 2048 + e" using assms(3) by simp
  have "((s * 2048 + e) * 2 ^ 52 + m) div (2 ^ 52 * 2 ^ 11) = (s * 2048 + e) div 2 ^ 11"
    by (simp only: div_mult2_eq d)
  then show "double_sign (mk_double s e m) = s"
    using assms(2) unfolding double_sign_def u by simp
  show "double_exponent (mk_double s e m) = e"
    using assms(2) unfolding double_exponent_def u d by simp
  show "double_mantissa (mk_double s e m) = m"
    using assms(3) unfolding double_mantissa_def u mod_mult_self3 by (rule mod_less)
qed

text \<open>Doubling a finite value is exact unless it leaves the range, and then it gives infinity.\<close>

lemma double_mul2_exact:
  assumes "double_isfinite v" "double_exponent v \<noteq> 2046"
  shows "double_isfinite (double_mul2 v) \<and> double_sign (double_mul2 v) = double_sign v \<and>
    double_magnitude (double_mul2 v) = 2 * double_magnitude v"
proof -
  note f = double_fields_less [of v]
  let ?s = "double_sign v" and ?e = "double_exponent v" and ?m = "double_mantissa v"
  consider (sub) "?e = 0" "2 * ?m < 2 ^ 52" | (norm) "?e = 0" "\<not> 2 * ?m < 2 ^ 52" | (exp) "?e \<noteq> 0" by blast
  then show ?thesis
  proof cases
    case sub
    then have "double_mul2 v = mk_double ?s 0 (2 * ?m)" by (simp add: double_mul2_def Let_def)
    then show ?thesis
      using sub f by (simp add: mk_double_fields double_isfinite_def double_magnitude_def)
  next
    case norm
    then have "double_mul2 v = mk_double ?s 1 (2 * ?m - 2 ^ 52)" by (simp add: double_mul2_def Let_def)
    moreover have "2 * ?m - 2 ^ 52 < 2 ^ 52" using f(3) by simp
    ultimately show ?thesis
      using norm f by (simp add: mk_double_fields double_isfinite_def double_magnitude_def)
  next
    case exp
    then have eq: "double_mul2 v = mk_double ?s (?e + 1) ?m"
      using assms by (simp add: double_mul2_def Let_def double_isfinite_def)
    have e: "?e + 1 < 2047" using assms f(2) by (auto simp: double_isfinite_def)
    obtain d where "?e = Suc d" using exp by (cases ?e) auto
    with eq e f show ?thesis by (simp add: mk_double_fields double_isfinite_def double_magnitude_def)
  qed
qed

text \<open>What doubling means on every pattern: a NaN stays a NaN; otherwise the sign is kept, and the magnitude is doubled exactly if twice the magnitude is below
  \<open>2 ^ 1024\<close>, the first power of two that is no double (which is \<open>2 ^ 2098\<close> in units of the least subnormal), and infinite if not.\<close>

definition doubled :: "double \<Rightarrow> double \<Rightarrow> bool" where
  "doubled v w \<longleftrightarrow>
     (if \<not> double_isfinite v \<and> double_mantissa v \<noteq> 0 then \<not> double_isfinite w \<and> double_mantissa w \<noteq> 0
      else double_sign w = double_sign v \<and>
        (if double_isfinite v \<and> 2 * double_magnitude v < 2 ^ 2098 then double_isfinite w \<and> double_magnitude w = 2 * double_magnitude v
         else \<not> double_isfinite w \<and> double_mantissa w = 0))"

lemma double_magnitude_exponent:
  assumes "double_isfinite v"
  shows "2 * double_magnitude v < 2 ^ 2098 \<longleftrightarrow> double_exponent v \<noteq> 2046"
proof -
  note f = double_fields_less [of v]
  show ?thesis
  proof (cases "double_exponent v = 2046")
    case True
    have "2 * double_magnitude v = (2 ^ 52 + double_mantissa v) * (2 * 2 ^ 2045)" using True by (simp add: double_magnitude_def)
    also have "\<dots> \<ge> 2 ^ 52 * (2 * 2 ^ 2045)" by (rule mult_le_mono1) simp
    finally have "2 * double_magnitude v \<ge> 2 ^ 52 * (2 * 2 ^ 2045)" .
    moreover have "2 ^ 52 * (2 * 2 ^ 2045) = (2 ^ 2098 :: nat)" unfolding power_Suc [symmetric] power_add [symmetric] by simp
    ultimately have "\<not> 2 * double_magnitude v < 2 ^ 2098" by linarith
    with True show ?thesis by simp
  next
    case False
    then have e: "double_exponent v - 1 \<le> 2044" using f(2) assms by (auto simp: double_isfinite_def)
    have "double_magnitude v < 2 ^ 53 * 2 ^ (double_exponent v - 1)"
      using f(3) by (simp add: double_magnitude_def)
    also have "\<dots> \<le> 2 ^ 53 * 2 ^ 2044" using e by (intro mult_le_mono2 power_increasing) simp_all
    finally have "2 * double_magnitude v < 2 * (2 ^ 53 * 2 ^ 2044)" by simp
    moreover have "2 * (2 ^ 53 * 2 ^ 2044) = (2 ^ 2098 :: nat)" unfolding power_add [symmetric] power_Suc [symmetric] by simp
    ultimately have "2 * double_magnitude v < 2 ^ 2098" by linarith
    with False show ?thesis by simp
  qed
qed

lemma doubled_mul2: "doubled v (double_mul2 v)"
proof -
  note f = double_fields_less [of v]
  consider (special) "double_exponent v = 2047" | (overflow) "double_exponent v = 2046" | (exact) "double_isfinite v" "double_exponent v \<noteq> 2046"
    by (auto simp: double_isfinite_def)
  then show ?thesis
  proof cases
    case special
    then show ?thesis using f by (auto simp: doubled_def double_isfinite_def double_mul2_def Let_def mk_double_fields)
  next
    case overflow
    then have v: "double_isfinite v" "\<not> 2 * double_magnitude v < 2 ^ 2098" using double_magnitude_exponent by (simp_all add: double_isfinite_def)
    have "double_mul2 v = mk_double (double_sign v) 2047 0" using overflow by (simp add: double_mul2_def Let_def)
    with v f(1) show ?thesis by (simp add: doubled_def mk_double_fields double_isfinite_def)
  next
    case exact
    with double_mul2_exact [OF exact] double_magnitude_exponent [OF exact(1)] show ?thesis by (simp add: doubled_def)
  qed
qed

end
