(* ===== verification/Geospatial_Frame.thy ===== *)
theory Geospatial_Frame
  imports Wire Host_Order Float64
begin

text \<open>
  The NXR1 geospatial frame: \<^verbatim>\<open>include/geospatial_frame.h\<close> and \<^verbatim>\<open>src/geospatial_frame.cpp\<close>.  Nine
  finite doubles and an opaque payload behind a 6-byte header.  The codec is correct between hosts of
  the same byte order; its layout is the documented one on little-endian hosts only.
\<close>

subsection \<open>Definitions\<close>

definition NXR1_MAGIC :: u32 where "NXR1_MAGIC = 0x4E585231"
definition NXR1_VERSION :: u16 where "NXR1_VERSION = 1"
definition kGeospatialFrameKind :: string where "kGeospatialFrameKind = ''geospatial.frame.v1''"

definition kFieldCount :: nat where "kFieldCount = 9"
definition kHeaderBytes :: nat where "kHeaderBytes = 4 + 2"
definition kPayloadLenBytes :: nat where "kPayloadLenBytes = 4"

record GeospatialFrame =
  latitude :: double
  longitude :: double
  altitude :: double
  velocity_x :: double
  velocity_y :: double
  velocity_z :: double
  fluidity :: double
  drag :: double
  divergence :: double
  gf_payload :: bytes

text \<open>The arrays of field pointers over which both functions loop.\<close>

definition nxr1_fields :: "GeospatialFrame \<Rightarrow> double list" where
  "nxr1_fields frame = [latitude frame, longitude frame, altitude frame, velocity_x frame, velocity_y frame,
     velocity_z frame, fluidity frame, drag frame, divergence frame]"

definition nxr1_of_fields :: "double list \<Rightarrow> bytes \<Rightarrow> GeospatialFrame" where
  "nxr1_of_fields ds payload = \<lparr> latitude = ds ! 0, longitude = ds ! 1, altitude = ds ! 2,
     velocity_x = ds ! 3, velocity_y = ds ! 4, velocity_z = ds ! 5, fluidity = ds ! 6, drag = ds ! 7,
     divergence = ds ! 8, gf_payload = payload \<rparr>"

definition nxr1_append_double :: "endian \<Rightarrow> bytes \<Rightarrow> double \<Rightarrow> bytes res" where
  "nxr1_append_double h out v =
     (if \<not> double_isfinite v then Inl ''geospatial frame contains a non-finite number''
      else let be = nxr1_host_to_be64 h v in Inr (append_bytes out (store h 8 be)))"

primrec nxr1_append_doubles :: "endian \<Rightarrow> bytes \<Rightarrow> double list \<Rightarrow> bytes res" where
  "nxr1_append_doubles h out [] = Inr out"
| "nxr1_append_doubles h out (v # vs) =
     res_bind (nxr1_append_double h out v) (\<lambda>out. nxr1_append_doubles h out vs)"

definition nxr1_take :: "nat \<Rightarrow> nat \<Rightarrow> nat \<Rightarrow> unit res" where
  "nxr1_take need sz off = take_or ''NXR1 frame truncated'' need sz off"

definition nxr1_read_double :: "endian \<Rightarrow> bytes \<Rightarrow> nat \<Rightarrow> (double \<times> nat) res" where
  "nxr1_read_double h bytes off =
     res_bind (nxr1_take 8 (length bytes) off) (\<lambda>_.
     let be = load h (bytes_at bytes off 8);
         off = off + 8;
         bits = nxr1_be64_to_host h be in
     if \<not> double_isfinite bits then Inl ''geospatial frame contains a non-finite number''
     else Inr (bits, off))"

primrec nxr1_read_doubles :: "endian \<Rightarrow> nat \<Rightarrow> bytes \<Rightarrow> nat \<Rightarrow> (double list \<times> nat) res" where
  "nxr1_read_doubles h 0 bytes off = Inr ([], off)"
| "nxr1_read_doubles h (Suc n) bytes off =
     res_bind (nxr1_read_double h bytes off) (\<lambda>(v, off).
     res_bind (nxr1_read_doubles h n bytes off) (\<lambda>(vs, off). Inr (v # vs, off)))"

definition encode_nxr1_frame :: "endian \<Rightarrow> GeospatialFrame \<Rightarrow> nat \<Rightarrow> bytes res" where
  "encode_nxr1_frame h frame max_payload_bytes =
     (if length (gf_payload frame) > max_payload_bytes \<or> length (gf_payload frame) > 0xffffffff
      then Inl ''geospatial frame payload exceeds maximum length''
      else
        let frame_bytes = append_bytes [] (store h 4 (htonl h NXR1_MAGIC));
            frame_bytes = append_bytes frame_bytes (store h 2 (htons h NXR1_VERSION)) in
        res_bind (nxr1_append_doubles h frame_bytes (nxr1_fields frame)) (\<lambda>frame_bytes.
        let payload_len_be = htonl h (word_of_nat (length (gf_payload frame)));
            frame_bytes = append_bytes frame_bytes (store h 4 payload_len_be) in
        Inr (append_bytes frame_bytes (gf_payload frame))))"

definition decode_nxr1_frame :: "endian \<Rightarrow> bytes \<Rightarrow> nat \<Rightarrow> GeospatialFrame res" where
  "decode_nxr1_frame h bytes max_payload_bytes =
     res_bind (nxr1_take kHeaderBytes (length bytes) 0) (\<lambda>_.
     let magic_be = load h (bytes_at bytes 0 4);
         version_be = load h (bytes_at bytes 4 2);
         off = kHeaderBytes in
     if ntohl h magic_be \<noteq> NXR1_MAGIC then Inl ''invalid NXR1 magic''
     else if ntohs h version_be \<noteq> NXR1_VERSION then Inl ''unsupported NXR1 version''
     else res_bind (nxr1_read_doubles h kFieldCount bytes off) (\<lambda>(fields, off).
     res_bind (nxr1_take kPayloadLenBytes (length bytes) off) (\<lambda>_.
     let payload_len_be = load h (bytes_at bytes off 4);
         off = off + 4;
         payload_len = unat (ntohl h payload_len_be) in
     if payload_len > max_payload_bytes then Inl ''geospatial frame payload exceeds configured limit''
     else res_bind (nxr1_take payload_len (length bytes) off) (\<lambda>_.
     let payload = bytes_at bytes off payload_len;
         off = off + payload_len in
     if off \<noteq> length bytes then Inl ''geospatial frame contains trailing bytes''
     else Inr (nxr1_of_fields fields payload)))))"

subsection \<open>The wire form of a double\<close>

definition nxr1_double_bytes :: "endian \<Rightarrow> double \<Rightarrow> bytes" where
  "nxr1_double_bytes h v = store h 8 (nxr1_host_to_be64 h v)"

lemma nxr1_double_bytes_eq:
  "nxr1_double_bytes h v = (case h of LittleEndian \<Rightarrow> be_bytes 8 v
     | BigEndian \<Rightarrow> be_bytes 4 (ucast v :: u32) @ be_bytes 4 (ucast (drop_bit 32 v) :: u32))"
  by (cases h) (simp_all add: nxr1_double_bytes_def nxr1_host_to_be64_big)

lemma length_nxr1_double_bytes [simp]: "length (nxr1_double_bytes h v) = 8"
  by (cases h) (simp_all add: nxr1_double_bytes_eq)

lemma be64_load_big:
  assumes "length bs = 8"
  shows "nxr1_be64_to_host BigEndian (load BigEndian bs) = join64 (be_word (drop 4 bs)) (be_word (take 4 bs))"
proof -
  have "be_word bs = join64 (be_word (take 4 bs)) (be_word (drop 4 bs))"
    using assms by (simp add: join64_be_word)
  then show ?thesis
    unfolding nxr1_be64_to_host_def ntohl_def Let_def swap_halves load_def
    by (simp add: join64_halves htonl_def)
qed

lemma nxr1_load_double_bytes: "nxr1_be64_to_host h (load h (nxr1_double_bytes h v)) = v"
proof (cases h)
  case BigEndian
  have "join64 (ucast (drop_bit 32 v)) (ucast v) = v"
    using be_word_be_bytes_widths(4) [of "join64 (ucast (drop_bit 32 v)) (ucast v)"]
    by (simp add: be_bytes_join64 be_bytes_split64 [symmetric])
  with BigEndian show ?thesis
    by (simp add: be64_load_big nxr1_double_bytes_eq)
qed (simp add: nxr1_be64_to_host_load nxr1_double_bytes_eq)

lemma nxr1_double_bytes_load:
  assumes "length bs = 8"
  shows "nxr1_double_bytes h (nxr1_be64_to_host h (load h bs)) = bs"
proof (cases h)
  case BigEndian
  with assms show ?thesis
    by (simp add: be64_load_big nxr1_double_bytes_eq join64_halves be_bytes_be_word)
qed (use assms in \<open>simp add: nxr1_be64_to_host_load nxr1_double_bytes_eq be_bytes_be_word\<close>)

interpretation nxr1_double: wire_field "nxr1_double_bytes h" "nxr1_read_double h" double_isfinite for h
proof (rule wire_block [where m = "''NXR1 frame truncated''" and n = 8 and
      dec = "\<lambda>bs. if \<not> double_isfinite (nxr1_be64_to_host h (load h bs))
        then Inl ''geospatial frame contains a non-finite number'' else Inr (nxr1_be64_to_host h (load h bs))"])
  fix f off
  show "nxr1_read_double h f off = res_bind (take_or ''NXR1 frame truncated'' 8 (length f) off)
      (\<lambda>_. res_bind (if \<not> double_isfinite (nxr1_be64_to_host h (load h (bytes_at f off 8)))
        then Inl ''geospatial frame contains a non-finite number''
        else Inr (nxr1_be64_to_host h (load h (bytes_at f off 8)))) (\<lambda>x. Inr (x, off + 8)))"
    by (simp add: nxr1_read_double_def nxr1_take_def Let_def cong: if_cong)
next
  fix bs x
  assume "length bs = 8" "(if \<not> double_isfinite (nxr1_be64_to_host h (load h bs))
        then Inl ''geospatial frame contains a non-finite number''
        else Inr (nxr1_be64_to_host h (load h bs))) = Inr x"
  then show "double_isfinite x \<and> nxr1_double_bytes h x = bs"
    by (auto simp: nxr1_double_bytes_load split: if_splits)
qed (simp add: nxr1_load_double_bytes)

interpretation nxr1_doubles: wire_repeat "nxr1_double_bytes h" "nxr1_read_double h" double_isfinite
  "nxr1_read_doubles h" for h
  by unfold_locales simp_all

subsection \<open>Whole frames\<close>

definition nxr1_header :: bytes where
  "nxr1_header = be_bytes 4 NXR1_MAGIC @ be_bytes 2 NXR1_VERSION"

definition nxr1_body :: "endian \<Rightarrow> GeospatialFrame \<Rightarrow> bytes" where
  "nxr1_body h frame = concat (map (nxr1_double_bytes h) (nxr1_fields frame)) @ prefixed32 (gf_payload frame)"

lemma length_nxr1_header [simp]: "length nxr1_header = 6"
  by (simp add: nxr1_header_def)

lemma nxr1_append_doubles_iff:
  "nxr1_append_doubles h out vs = Inr out' \<longleftrightarrow>
     list_all double_isfinite vs \<and> out' = out @ concat (map (nxr1_double_bytes h) vs)"
  by (induction vs arbitrary: out)
    (auto simp: nxr1_append_double_def append_bytes_def nxr1_double_bytes_def Let_def split: if_splits)

lemma encode_nxr1_frame_iff:
  "encode_nxr1_frame h frame lim = Inr f \<longleftrightarrow>
     f = nxr1_header @ nxr1_body h frame \<and> list_all double_isfinite (nxr1_fields frame) \<and>
     length (gf_payload frame) \<le> lim \<and> length (gf_payload frame) < 2 ^ 32"
  by (auto simp: encode_nxr1_frame_def Let_def res_bind_Inr_iff nxr1_append_doubles_iff append_bytes_def
      nxr1_header_def nxr1_body_def prefixed32_def)

definition nxr1_read_payload :: "endian \<Rightarrow> nat \<Rightarrow> bytes \<Rightarrow> nat \<Rightarrow> (bytes \<times> nat) res" where
  "nxr1_read_payload h lim bytes off =
     res_bind (nxr1_take kPayloadLenBytes (length bytes) off) (\<lambda>_.
     let n = unat (ntohl h (load h (bytes_at bytes off 4))) in
     if n > lim then Inl ''geospatial frame payload exceeds configured limit''
     else res_bind (nxr1_take n (length bytes) (off + 4)) (\<lambda>_. Inr (bytes_at bytes (off + 4) n, off + 4 + n)))"

interpretation nxr1_payload: wire_field prefixed32 "nxr1_read_payload h lim"
  "\<lambda>b. length b \<le> lim \<and> length b < 2 ^ 32" for h lim
  by (rule wire_prefixed32)
    (auto simp: nxr1_read_payload_def nxr1_take_def kPayloadLenBytes_def Let_def be_word_load_32 intro!: take_or_cong)

definition nxr1_read_header :: "endian \<Rightarrow> bytes \<Rightarrow> (unit \<times> nat) res" where
  "nxr1_read_header h bytes =
     res_bind (nxr1_take kHeaderBytes (length bytes) 0) (\<lambda>_.
     if ntohl h (load h (bytes_at bytes 0 4)) \<noteq> NXR1_MAGIC then Inl ''invalid NXR1 magic''
     else if ntohs h (load h (bytes_at bytes 4 2)) \<noteq> NXR1_VERSION then Inl ''unsupported NXR1 version''
     else Inr ((), kHeaderBytes))"

lemma nxr1_read_header_iff:
  "nxr1_read_header h f = Inr (u, off) \<longleftrightarrow> off = 6 \<and> length f \<le> length f \<and> (\<exists>r. f = nxr1_header @ r)"
proof (cases "6 \<le> length f")
  case True
  have "take 6 f = bytes_at f 0 4 @ bytes_at f 4 2" using take_add [of 4 2 f] by (simp add: bytes_at_def)
  with True have "take 6 f = nxr1_header \<longleftrightarrow>
      be_word (bytes_at f 0 4) = NXR1_MAGIC \<and> be_word (bytes_at f 4 2) = NXR1_VERSION"
    by (simp add: nxr1_header_def be_word_eq_iff)
  moreover have "take 6 f = nxr1_header \<longleftrightarrow> (\<exists>r. f = nxr1_header @ r)"
    by (metis append_eq_conv_conj append_take_drop_id length_nxr1_header)
  ultimately show ?thesis
    using True by (auto simp: nxr1_read_header_def nxr1_take_def kHeaderBytes_def be_word_load_16 be_word_load_32)
next
  case False
  then have "f \<noteq> nxr1_header @ r" for r by auto
  with False show ?thesis by (simp add: nxr1_read_header_def nxr1_take_def kHeaderBytes_def)
qed

lemma nxr1_fields_of_fields:
  "length ds = 9 \<Longrightarrow> nxr1_fields (nxr1_of_fields ds p) = ds" "nxr1_of_fields (nxr1_fields f) (gf_payload f) = f"
  by (auto simp: nxr1_fields_def nxr1_of_fields_def numeral_eq_Suc length_Suc_conv)

lemma nxr1_of_fields_simps [simp]:
  "gf_payload (nxr1_of_fields ds p) = p" "length (nxr1_fields f) = 9"
  by (simp_all add: nxr1_of_fields_def nxr1_fields_def)

lemma decode_nxr1_frame_norm:
  "decode_nxr1_frame h f lim = res_bind (nxr1_read_header h f) (\<lambda>(b, off).
     res_bind (seq_rd (nxr1_read_doubles h kFieldCount) (nxr1_read_payload h lim) f off) (\<lambda>(x, off).
     if off \<noteq> length f then Inl ''geospatial frame contains trailing bytes''
     else case x of (ds, p) \<Rightarrow> Inr (nxr1_of_fields ds p)))"
  by (simp add: decode_nxr1_frame_def nxr1_read_header_def nxr1_read_payload_def seq_rd_norm Let_def cong: if_cong)

lemma decode_nxr1_frame_iff:
  "decode_nxr1_frame h f lim = Inr frame \<longleftrightarrow> encode_nxr1_frame h frame lim = Inr f"
proof -
  note w = wire_seq [OF nxr1_doubles.repeat_wire_field [of h kFieldCount] nxr1_payload.wire_field_axioms [of h lim]]
  have "decode_nxr1_frame h f lim = Inr frame \<longleftrightarrow>
      (\<exists>(b :: unit) x. f = nxr1_header @ (case x of (ds, p) \<Rightarrow> concat (map (nxr1_double_bytes h) ds) @ prefixed32 p) \<and>
        (case x of (ds, p) \<Rightarrow> (length ds = kFieldCount \<and> list_all double_isfinite ds) \<and>
          length p \<le> lim \<and> length p < 2 ^ 32) \<and>
        length f \<le> length f \<and> (case x of (ds, p) \<Rightarrow> Inr (nxr1_of_fields ds p)) = (Inr frame :: GeospatialFrame res))"
    by (rule framed_decode_iff [OF w, where m = "''geospatial frame contains trailing bytes''" and
          hdr = "nxr1_read_header h f" and H = "\<lambda>_. nxr1_header" and n = 6 and
          fin = "\<lambda>_ x. case x of (ds, p) \<Rightarrow> Inr (nxr1_of_fields ds p)"])
      (simp_all add: decode_nxr1_frame_norm nxr1_read_header_iff)
  also have "\<dots> \<longleftrightarrow> encode_nxr1_frame h frame lim = Inr f"
    unfolding encode_nxr1_frame_iff nxr1_body_def kFieldCount_def
    by (auto simp: nxr1_fields_of_fields intro!: exI [of _ "nxr1_fields frame"] exI [of _ "gf_payload frame"])
  finally show ?thesis .
qed

subsection \<open>Properties\<close>

text \<open>C28. The NXR1 decoder accepts exactly the frames the encoder produces on a host of the same byte
  order, and returns the encoded frame, for every payload limit; in particular every accepted field is
  finite and no accepted frame has trailing bytes.\<close>

theorem nxr1_codec:
  "decode_nxr1_frame h f lim = Inr frame \<longleftrightarrow> encode_nxr1_frame h frame lim = Inr f"
  by (rule decode_nxr1_frame_iff)

text \<open>On a little-endian host an encoded NXR1 frame has the documented layout: magic, version, the
  nine fields as big-endian doubles in declaration order, and the length-prefixed payload.\<close>

lemma nxr1_layout_little_endian:
  assumes "encode_nxr1_frame LittleEndian frame lim = Inr f"
  shows "f = be_bytes 4 (0x4E585231 :: u32) @ be_bytes 2 (1 :: u16) @
    be_bytes 8 (latitude frame) @ be_bytes 8 (longitude frame) @ be_bytes 8 (altitude frame) @
    be_bytes 8 (velocity_x frame) @ be_bytes 8 (velocity_y frame) @ be_bytes 8 (velocity_z frame) @
    be_bytes 8 (fluidity frame) @ be_bytes 8 (drag frame) @ be_bytes 8 (divergence frame) @
    be_bytes 4 (word_of_nat (length (gf_payload frame)) :: u32) @ gf_payload frame"
  using assms by (simp add: encode_nxr1_frame_iff nxr1_header_def nxr1_body_def nxr1_fields_def
      nxr1_double_bytes_eq prefixed32_def NXR1_MAGIC_def NXR1_VERSION_def)

definition nxr1_sample :: GeospatialFrame where
  "nxr1_sample = \<lparr> latitude = 0x3FF0000000000000, longitude = 0, altitude = 0, velocity_x = 0, velocity_y = 0,
     velocity_z = 0, fluidity = 0, drag = 0, divergence = 0, gf_payload = [7] \<rparr>"

lemma nxr1_sample_encodes:
  "encode_nxr1_frame h nxr1_sample 16 = Inr (nxr1_header @ nxr1_body h nxr1_sample)"
proof -
  have "double_isfinite 0x3FF0000000000000" "double_isfinite 0"
    by (simp_all add: double_isfinite_def double_exponent_def)
  then show ?thesis
    by (simp add: encode_nxr1_frame_iff) (simp add: nxr1_sample_def nxr1_fields_def)
qed

text \<open>C39. On a big-endian host the encoder exchanges the two halves of every double, so a frame written
  there is not the documented one: the same frame is encoded to different bytes on the two kinds of
  host, and what a little-endian host writes is not read back on a big-endian host as the same frame.\<close>

theorem nxr1_byte_order_mismatch:
  "\<exists>frame f. encode_nxr1_frame LittleEndian frame 16 = Inr f \<and> encode_nxr1_frame BigEndian frame 16 \<noteq> Inr f \<and>
     decode_nxr1_frame BigEndian f 16 \<noteq> Inr frame"
proof (intro exI conjI)
  let ?f = "nxr1_header @ nxr1_body LittleEndian nxr1_sample"
  show "encode_nxr1_frame LittleEndian nxr1_sample 16 = Inr ?f" by (rule nxr1_sample_encodes)
  have "nxr1_body LittleEndian nxr1_sample \<noteq> nxr1_body BigEndian nxr1_sample"
    by (simp add: nxr1_body_def nxr1_fields_def nxr1_sample_def nxr1_double_bytes_eq be_eval)
  then show "encode_nxr1_frame BigEndian nxr1_sample 16 \<noteq> Inr ?f" by (simp add: nxr1_sample_encodes)
  then show "decode_nxr1_frame BigEndian ?f 16 \<noteq> Inr nxr1_sample" by (simp only: decode_nxr1_frame_iff simp_thms)
qed

end
