(* ===== verification/Media_Stream.thy ===== *)
theory Media_Stream
  imports Wire Host_Order
begin

text \<open>
  The MED1 media stream frame: \<^verbatim>\<open>include/media_stream.h\<close> and \<^verbatim>\<open>src/media_stream.cpp\<close>.  This codec
  shifts integers into bytes, so it does not depend on the host.  \<^verbatim>\<open>MediaType\<close> has a further
  constructor for the bytes the encoder's range check is about.
\<close>

subsection \<open>Definitions\<close>

definition MEDIA_MAGIC :: u32 where "MEDIA_MAGIC = 0x4D454431"
definition MEDIA_VERSION :: u16 where "MEDIA_VERSION = 1"
definition kMediaStreamKind :: string where "kMediaStreamKind = ''media.stream.v1''"

datatype MediaType = Video | Audio | GenericData | MediaTypeRaw u8

fun media_type_raw :: "MediaType \<Rightarrow> u8" where
  "media_type_raw Video = 0"
| "media_type_raw Audio = 1"
| "media_type_raw GenericData = 2"
| "media_type_raw (MediaTypeRaw b) = b"

definition media_type_of_raw :: "u64 \<Rightarrow> MediaType" where
  "media_type_of_raw v = (if v = 0 then Video else if v = 1 then Audio else GenericData)"

record MediaStreamFrame =
  ms_media_type :: MediaType
  ms_codec :: string
  ms_stream_id :: string
  ms_sequence_number :: u64
  ms_timestamp_ns :: u64
  ms_sample_rate :: u32
  ms_width :: u32
  ms_height :: u32
  ms_channels :: u32
  ms_is_keyframe :: bool
  ms_is_final_chunk :: bool
  ms_payload :: bytes

text \<open>\<open>med1_append_uint out v n\<close>: the loop counts \<open>i\<close> down from \<open>n\<close> to 1.\<close>

primrec med1_append_uint :: "bytes \<Rightarrow> u64 \<Rightarrow> nat \<Rightarrow> bytes" where
  "med1_append_uint out v 0 = out"
| "med1_append_uint out v (Suc i) = med1_append_uint (out @ [ucast (drop_bit (i * 8) v)]) v i"

definition med1_append_string :: "bytes \<Rightarrow> string \<Rightarrow> bytes" where
  "med1_append_string out s = med1_append_uint out (word_of_nat (length s)) 2 @ bytes_of_string s"

definition med1_take :: "nat \<Rightarrow> nat \<Rightarrow> nat \<Rightarrow> unit res" where
  "med1_take need sz off = take_or ''MED1 frame truncated'' need sz off"

definition med1_read_uint :: "nat \<Rightarrow> bytes \<Rightarrow> nat \<Rightarrow> (u64 \<times> nat) res" where
  "med1_read_uint count bytes off =
     res_bind (med1_take count (length bytes) off) (\<lambda>_.
     let result = foldl (\<lambda>result i. shift_in result (bytes ! (off + i))) 0 [0..<count]
     in Inr (result, off + count))"

definition med1_read_string :: "nat \<Rightarrow> bytes \<Rightarrow> nat \<Rightarrow> (string \<times> nat) res" where
  "med1_read_string max_string_bytes bytes off =
     res_bind (med1_read_uint 2 bytes off) (\<lambda>(len, off).
     if unat len > max_string_bytes then Inl ''MED1 string exceeds configured limit''
     else res_bind (med1_take (unat len) (length bytes) off) (\<lambda>_.
       Inr (string_of_bytes (bytes_at bytes off (unat len)), off + unat len)))"

definition encode_media_stream_frame :: "MediaStreamFrame \<Rightarrow> nat \<Rightarrow> nat \<Rightarrow> bytes res" where
  "encode_media_stream_frame frame max_payload_bytes max_string_bytes =
     (let media_type = media_type_raw (ms_media_type frame) in
      if media_type > media_type_raw GenericData then Inl ''invalid MED1 media type''
      else if length (ms_codec frame) > max_string_bytes \<or> length (ms_stream_id frame) > max_string_bytes \<or>
        length (ms_codec frame) > 0xffff \<or> length (ms_stream_id frame) > 0xffff
      then Inl ''MED1 string exceeds configured limit''
      else if length (ms_payload frame) > max_payload_bytes \<or> length (ms_payload frame) > 0xffffffff
      then Inl ''MED1 payload exceeds maximum length''
      else let
        encoded = med1_append_uint [] (ucast MEDIA_MAGIC) 4;
        encoded = med1_append_uint encoded (ucast MEDIA_VERSION) 2;
        encoded = med1_append_uint encoded (ucast media_type) 1;
        encoded = med1_append_string encoded (ms_codec frame);
        encoded = med1_append_string encoded (ms_stream_id frame);
        encoded = med1_append_uint encoded (ms_sequence_number frame) 8;
        encoded = med1_append_uint encoded (ms_timestamp_ns frame) 8;
        encoded = med1_append_uint encoded (ucast (ms_sample_rate frame)) 4;
        encoded = med1_append_uint encoded (ucast (ms_width frame)) 4;
        encoded = med1_append_uint encoded (ucast (ms_height frame)) 4;
        encoded = med1_append_uint encoded (ucast (ms_channels frame)) 4;
        flags = (if ms_is_keyframe frame then 0x01 else 0) OR (if ms_is_final_chunk frame then 0x02 else 0) :: u8;
        encoded = med1_append_uint encoded (ucast flags) 1;
        encoded = med1_append_uint encoded (word_of_nat (length (ms_payload frame))) 4
      in Inr (encoded @ ms_payload frame))"

definition decode_media_stream_frame :: "bytes \<Rightarrow> nat \<Rightarrow> nat \<Rightarrow> MediaStreamFrame res" where
  "decode_media_stream_frame bytes max_payload_bytes max_string_bytes =
     res_bind (med1_read_uint 4 bytes 0) (\<lambda>(magic, off).
     res_bind (med1_read_uint 2 bytes off) (\<lambda>(version, off).
     if magic \<noteq> ucast MEDIA_MAGIC then Inl ''invalid MED1 magic''
     else if version \<noteq> ucast MEDIA_VERSION then Inl ''unsupported MED1 version''
     else res_bind (med1_read_uint 1 bytes off) (\<lambda>(media_type, off).
     if media_type > ucast (media_type_raw GenericData) then Inl ''invalid MED1 media type''
     else res_bind (med1_read_string max_string_bytes bytes off) (\<lambda>(codec, off).
     res_bind (med1_read_string max_string_bytes bytes off) (\<lambda>(stream_id, off).
     res_bind (med1_read_uint 8 bytes off) (\<lambda>(sequence_number, off).
     res_bind (med1_read_uint 8 bytes off) (\<lambda>(timestamp_ns, off).
     res_bind (med1_read_uint 4 bytes off) (\<lambda>(sample_rate, off).
     res_bind (med1_read_uint 4 bytes off) (\<lambda>(width, off).
     res_bind (med1_read_uint 4 bytes off) (\<lambda>(height, off).
     res_bind (med1_read_uint 4 bytes off) (\<lambda>(channels, off).
     res_bind (med1_read_uint 1 bytes off) (\<lambda>(flags, off).
     if flags AND NOT 0x03 \<noteq> 0 then Inl ''invalid MED1 flags''
     else res_bind (med1_read_uint 4 bytes off) (\<lambda>(payload_len, off).
     if unat payload_len > max_payload_bytes then Inl ''MED1 payload exceeds configured limit''
     else res_bind (med1_take (unat payload_len) (length bytes) off) (\<lambda>_.
     let payload = bytes_at bytes off (unat payload_len);
         off = off + unat payload_len in
     if off \<noteq> length bytes then Inl ''MED1 frame contains trailing bytes''
     else Inr \<lparr> ms_media_type = media_type_of_raw media_type, ms_codec = codec, ms_stream_id = stream_id,
       ms_sequence_number = sequence_number, ms_timestamp_ns = timestamp_ns,
       ms_sample_rate = ucast sample_rate, ms_width = ucast width, ms_height = ucast height,
       ms_channels = ucast channels, ms_is_keyframe = (flags AND 0x01 \<noteq> 0),
       ms_is_final_chunk = (flags AND 0x02 \<noteq> 0), ms_payload = payload \<rparr>))))))))))))))"

subsection \<open>Integers\<close>

lemma med1_append_uint_eq: "med1_append_uint out v n = out @ be_of_nat n (unat v)"
proof (induction n arbitrary: out)
  case (Suc n)
  with ucast_drop_bit [of n v] show ?case by (simp add: be_of_nat_Suc_Cons del: be_of_nat.simps)
qed simp

lemma bytes_at_conv_map: "off + n \<le> length f \<Longrightarrow> bytes_at f off n = map (\<lambda>i. f ! (off + i)) [0..<n]"
  by (auto simp: bytes_at_def intro!: nth_equalityI)

lemma med1_read_uint_eq:
  "med1_read_uint n f off = res_bind (take_or ''MED1 frame truncated'' n (length f) off)
     (\<lambda>_. Inr (be_word (bytes_at f off n), off + n))"
  unfolding med1_read_uint_def med1_take_def
  by (rule take_or_cong) (simp_all add: foldl_map bytes_at_conv_map foldl_shift_in_0 [symmetric])

lemma med1_uint_wire:
  assumes "n \<le> 8"
  shows "wire_field (\<lambda>v. be_of_nat n (unat v)) (med1_read_uint n) (\<lambda>v. unat v < 256 ^ n)"
proof (rule wire_block [where m = "''MED1 frame truncated''" and n = n and dec = "\<lambda>bs. Inr (be_word bs)"])
  fix v :: u64 assume "unat v < 256 ^ n"
  then show "length (be_of_nat n (unat v)) = n \<and> Inr (be_word (be_of_nat n (unat v))) = (Inr v :: u64 res)"
    by (simp add: be_word_def be_nat_be_of_nat)
next
  fix bs and v :: u64 assume "length bs = n" "Inr (be_word bs) = (Inr v :: u64 res)"
  then have v: "unat v = be_nat bs" using assms by (auto simp: unat_be_word)
  then show "unat v < 256 ^ n \<and> be_of_nat n (unat v) = bs"
    using be_nat_less [of bs] be_of_nat_be_nat [of bs] \<open>length bs = n\<close> by simp
qed (simp add: med1_read_uint_eq)

text \<open>Fields narrower than the 64-bit accumulator.\<close>

lemma unat_ucast_narrow:
  "unat (ucast (a :: u8) :: u64) = unat a" "unat (ucast (b :: u16) :: u64) = unat b"
  "unat (ucast (c :: u32) :: u64) = unat c"
proof -
  have "unat a < 2 ^ 64" "unat b < 2 ^ 64" "unat c < 2 ^ 64"
    by (rule less_le_trans [OF unsigned_less]; simp)+
  then show "unat (ucast a :: u64) = unat a" "unat (ucast b :: u64) = unat b" "unat (ucast c :: u64) = unat c"
    by (simp_all add: unsigned_ucast_eq take_bit_eq_mod)
qed

lemma ucast_eq_iff_narrow:
  "ucast (a :: u16) = (ucast (a' :: u16) :: u64) \<longleftrightarrow> a = a'" "ucast (c :: u32) = (ucast (c' :: u32) :: u64) \<longleftrightarrow> c = c'"
  by (metis unat_ucast_narrow(2) word_unat_eq_iff) (metis unat_ucast_narrow(3) word_unat_eq_iff)

lemma med1_narrow_wire:
  "wire_field (be_bytes 4) (\<lambda>f off. res_bind (med1_read_uint 4 f off) (\<lambda>(v, off). Inr (ucast v :: u32, off))) (\<lambda>_. True)"
proof -
  have "wire_field (\<lambda>v :: u32. be_of_nat 4 (unat (ucast v :: u64)))
      (\<lambda>f off. res_bind (med1_read_uint 4 f off) (\<lambda>(v, off). Inr (ucast v :: u32, off))) (\<lambda>_. True)"
  proof (rule wire_convert [OF med1_uint_wire, where mk = ucast])
    fix v :: u32
    have "unat v < 2 ^ 32" by (rule less_le_trans [OF unsigned_less]) simp
    then have "ucast (ucast v :: u64) = v"
      by (intro word_unat_eq_iff [THEN iffD2]) (simp add: unat_lo32 unat_ucast_narrow)
    then show "True \<longleftrightarrow> unat (ucast v :: u64) < 256 ^ 4 \<and> ucast (ucast v :: u64) = v"
      using unsigned_less [of v, where 'a = nat] by (simp add: unat_ucast_narrow)
  next
    fix v :: u64 assume "unat v < 256 ^ 4"
    then show "ucast (ucast v :: u32) = v"
      by (intro word_unat_eq_iff [THEN iffD2]) (simp add: unat_ucast_narrow unat_lo32)
  qed simp_all
  then show ?thesis by (simp add: unat_ucast_narrow be_bytes_def [abs_def])
qed

lemma med1_wide_wire: "wire_field (be_bytes 8) (med1_read_uint 8) (\<lambda>_. True)"
proof -
  have "unat v < 256 ^ 8" for v :: u64 using unsigned_less [of v, where 'a = nat] by simp
  with med1_uint_wire [of 8] show ?thesis by (simp add: be_bytes_def [abs_def])
qed

subsection \<open>The other fields\<close>

interpretation med1_string: wire_field prefixed16 "med1_read_string lim" "\<lambda>s. length s \<le> lim \<and> length s < 2 ^ 16"
  for lim
  by (rule wire_prefixed16)
    (auto simp: med1_read_string_def med1_read_uint_eq med1_take_def Let_def res_bind_assoc unat_be_word
      intro!: take_or_cong)

definition med1_read_type :: "bytes \<Rightarrow> nat \<Rightarrow> (MediaType \<times> nat) res" where
  "med1_read_type f off = res_bind (med1_read_uint 1 f off) (\<lambda>(v, off).
     if v > ucast (media_type_raw GenericData) then Inl ''invalid MED1 media type''
     else Inr (media_type_of_raw v, off))"

definition med1_read_flags :: "bytes \<Rightarrow> nat \<Rightarrow> ((bool \<times> bool) \<times> nat) res" where
  "med1_read_flags f off = res_bind (med1_read_uint 1 f off) (\<lambda>(v, off).
     if v AND NOT 0x03 \<noteq> 0 then Inl ''invalid MED1 flags'' else Inr ((v AND 0x01 \<noteq> 0, v AND 0x02 \<noteq> 0), off))"

definition med1_read_payload :: "nat \<Rightarrow> bytes \<Rightarrow> nat \<Rightarrow> (bytes \<times> nat) res" where
  "med1_read_payload lim f off = res_bind (med1_read_uint 4 f off) (\<lambda>(n, off).
     if unat n > lim then Inl ''MED1 payload exceeds configured limit''
     else res_bind (med1_take (unat n) (length f) off) (\<lambda>_. Inr (bytes_at f off (unat n), off + unat n)))"

interpretation med1_payload: wire_field prefixed32 "med1_read_payload lim" "\<lambda>b. length b \<le> lim \<and> length b < 2 ^ 32"
  for lim
  by (rule wire_prefixed32)
    (auto simp: med1_read_payload_def med1_read_uint_eq med1_take_def Let_def res_bind_assoc unat_be_word
      intro!: take_or_cong)

lemma med1_read_byte: "med1_read_uint 1 f off =
    res_bind (take_or ''MED1 frame truncated'' 1 (length f) off) (\<lambda>_. Inr (ucast (hd (bytes_at f off 1)), off + 1))"
  unfolding med1_read_uint_eq by (rule take_or_cong) (simp_all add: be_word_def)

lemma media_type_raw_of_raw:
  "\<not> ucast (b :: u8) > (2 :: u64) \<Longrightarrow> media_type_raw (media_type_of_raw (ucast b)) = b"
proof -
  assume "\<not> ucast b > (2 :: u64)"
  then have "unat b \<le> 2" by (simp add: word_less_nat_alt unat_ucast_narrow)
  then have "unat b \<in> {0, 1, 2}" by auto
  then have "b \<in> {0, 1, 2}" by (auto simp: word_unat_eq_iff)
  then show ?thesis by (auto simp: media_type_of_raw_def)
qed

lemma media_type_of_raw_mem: "media_type_of_raw v \<in> {Video, Audio, GenericData}"
  by (simp add: media_type_of_raw_def)

interpretation med1_type: wire_field "\<lambda>t. [media_type_raw t]" med1_read_type "\<lambda>t. t \<in> {Video, Audio, GenericData}"
proof (rule wire_block [where m = "''MED1 frame truncated''" and n = 1 and
      dec = "\<lambda>bs. if ucast (hd bs) > (2 :: u64) then Inl ''invalid MED1 media type''
        else Inr (media_type_of_raw (ucast (hd bs)))"])
  fix bs :: bytes and t
  assume "length bs = 1" "(if ucast (hd bs) > (2 :: u64) then Inl ''invalid MED1 media type''
        else Inr (media_type_of_raw (ucast (hd bs)))) = Inr t"
  then obtain b where bs: "bs = [b]" and b: "\<not> ucast b > (2 :: u64)" and t: "t = media_type_of_raw (ucast b)"
    by (cases bs) (auto split: if_splits)
  show "t \<in> {Video, Audio, GenericData} \<and> [media_type_raw t] = bs"
    unfolding t bs using media_type_of_raw_mem media_type_raw_of_raw [OF b] by blast
next
  fix t assume "t \<in> {Video, Audio, GenericData}"
  then show "length [media_type_raw t] = 1 \<and> (if ucast (hd [media_type_raw t]) > (2 :: u64)
      then Inl ''invalid MED1 media type'' else Inr (media_type_of_raw (ucast (hd [media_type_raw t])))) = Inr t"
    by (auto simp: media_type_of_raw_def)
qed (simp add: med1_read_type_def med1_read_byte res_bind_assoc del: One_nat_def cong: if_cong)

definition med1_flag_byte :: "bool \<Rightarrow> bool \<Rightarrow> u8" where
  "med1_flag_byte keyframe final = (if keyframe then 0x01 else 0) OR (if final then 0x02 else 0)"

lemma med1_flags_valid:
  assumes "ucast (b :: u8) AND NOT 0x03 = (0 :: u64)"
  shows "b \<in> {0, 1, 2, 3}"
proof -
  let ?v = "ucast b :: u64"
  have "?v = (?v AND m) OR (?v AND NOT m)" for m by (rule bit_word_eqI) (auto simp: bit_simps)
  from this [of "0x03"] have "?v = ?v AND 0x03" unfolding assms by simp
  then have "?v \<le> 0x03" by (metis word_and_le1)
  then have "unat b \<le> 3" by (simp add: word_le_nat_alt unat_ucast_narrow)
  then have "unat b \<in> {0, 1, 2, 3}" by auto
  then show ?thesis by (auto simp: word_unat_eq_iff)
qed

interpretation med1_flags: wire_field "\<lambda>(k, f). [med1_flag_byte k f]" med1_read_flags "\<lambda>_. True"
proof (rule wire_block [where m = "''MED1 frame truncated''" and n = 1 and
      dec = "\<lambda>bs. if ucast (hd bs) AND NOT 0x03 \<noteq> (0 :: u64) then Inl ''invalid MED1 flags''
        else Inr (ucast (hd bs) AND 0x01 \<noteq> (0 :: u64), ucast (hd bs) AND 0x02 \<noteq> (0 :: u64))"])
  fix bs :: bytes and x :: "bool \<times> bool"
  assume "length bs = 1" "(if ucast (hd bs) AND NOT 0x03 \<noteq> (0 :: u64) then Inl ''invalid MED1 flags''
        else Inr (ucast (hd bs) AND 0x01 \<noteq> (0 :: u64), ucast (hd bs) AND 0x02 \<noteq> (0 :: u64))) = Inr x"
  then obtain b where bs: "bs = [b]" and b: "ucast b AND NOT 0x03 = (0 :: u64)"
    and x: "x = (ucast b AND 0x01 \<noteq> (0 :: u64), ucast b AND 0x02 \<noteq> (0 :: u64))"
    by (cases bs) (auto split: if_splits)
  from med1_flags_valid [OF b] show "True \<and> (case x of (k, f) \<Rightarrow> [med1_flag_byte k f]) = bs"
    unfolding x bs by (auto simp: med1_flag_byte_def)
next
  fix x :: "bool \<times> bool"
  obtain k f where "x = (k, f)" by (cases x)
  then show "length (case x of (k, f) \<Rightarrow> [med1_flag_byte k f]) = 1 \<and>
      (if ucast (hd (case x of (k, f) \<Rightarrow> [med1_flag_byte k f])) AND NOT 0x03 \<noteq> (0 :: u64)
       then Inl ''invalid MED1 flags''
       else Inr (ucast (hd (case x of (k, f) \<Rightarrow> [med1_flag_byte k f])) AND 0x01 \<noteq> (0 :: u64),
         ucast (hd (case x of (k, f) \<Rightarrow> [med1_flag_byte k f])) AND 0x02 \<noteq> (0 :: u64))) = Inr x"
    by (cases k; cases f) (simp_all add: med1_flag_byte_def)
qed (simp add: med1_read_flags_def med1_read_byte res_bind_assoc del: One_nat_def cong: if_cong)

subsection \<open>Whole frames\<close>

definition med1_header :: bytes where
  "med1_header = be_bytes 4 MEDIA_MAGIC @ be_bytes 2 MEDIA_VERSION"

definition med1_body :: "MediaStreamFrame \<Rightarrow> bytes" where
  "med1_body r = [media_type_raw (ms_media_type r)] @ prefixed16 (ms_codec r) @ prefixed16 (ms_stream_id r) @
     be_bytes 8 (ms_sequence_number r) @ be_bytes 8 (ms_timestamp_ns r) @ be_bytes 4 (ms_sample_rate r) @
     be_bytes 4 (ms_width r) @ be_bytes 4 (ms_height r) @ be_bytes 4 (ms_channels r) @
     [med1_flag_byte (ms_is_keyframe r) (ms_is_final_chunk r)] @ prefixed32 (ms_payload r)"

lemma length_med1_header [simp]: "length med1_header = 6"
  by (simp add: med1_header_def)

lemma med1_append_simps:
  "med1_append_uint out (ucast (a :: u8)) 1 = out @ [a]"
  "med1_append_uint out (ucast (b :: u16)) 2 = out @ be_bytes 2 b"
  "med1_append_uint out (ucast (c :: u32)) 4 = out @ be_bytes 4 c"
  "med1_append_uint out d 8 = out @ be_bytes 8 d"
  "length s < 2 ^ 16 \<Longrightarrow> med1_append_string out s = out @ prefixed16 s"
  "length p < 2 ^ 32 \<Longrightarrow> med1_append_uint out (word_of_nat (length p)) 4 @ p = out @ prefixed32 p"
  by (simp_all add: med1_append_uint_eq unat_ucast_narrow be_bytes_def med1_append_string_def
      prefixed16_def prefixed32_def unat_of_nat)

lemma encode_media_stream_frame_iff:
  "encode_media_stream_frame r lp ls = Inr f \<longleftrightarrow>
     f = med1_header @ med1_body r \<and> media_type_raw (ms_media_type r) \<le> 2 \<and>
     (length (ms_codec r) \<le> ls \<and> length (ms_codec r) < 2 ^ 16) \<and>
     (length (ms_stream_id r) \<le> ls \<and> length (ms_stream_id r) < 2 ^ 16) \<and>
     length (ms_payload r) \<le> lp \<and> length (ms_payload r) < 2 ^ 32"
  unfolding encode_media_stream_frame_def Let_def
  by (auto simp: med1_append_simps med1_header_def med1_body_def med1_flag_byte_def not_less
      simp del: One_nat_def)

definition med1_read_header :: "bytes \<Rightarrow> (unit \<times> nat) res" where
  "med1_read_header bytes =
     res_bind (med1_read_uint 4 bytes 0) (\<lambda>(magic, off).
     res_bind (med1_read_uint 2 bytes off) (\<lambda>(version, off).
     if magic \<noteq> ucast MEDIA_MAGIC then Inl ''invalid MED1 magic''
     else if version \<noteq> ucast MEDIA_VERSION then Inl ''unsupported MED1 version'' else Inr ((), off)))"

lemma be_word_narrow_eq:
  "length bs = 4 \<Longrightarrow> be_word bs = (ucast (c :: u32) :: u64) \<longleftrightarrow> bs = be_bytes 4 c"
  "length bs = 2 \<Longrightarrow> be_word bs = (ucast (b :: u16) :: u64) \<longleftrightarrow> bs = be_bytes 2 b"
proof -
  have "be_word bs = (ucast c :: u64) \<longleftrightarrow> (be_word bs :: u32) = c" if "length bs = 4"
    using that by (simp add: word_unat_eq_iff unat_be_word unat_ucast_narrow)
  then show "length bs = 4 \<Longrightarrow> be_word bs = (ucast c :: u64) \<longleftrightarrow> bs = be_bytes 4 c" by (simp add: be_word_eq_iff)
  have "be_word bs = (ucast b :: u64) \<longleftrightarrow> (be_word bs :: u16) = b" if "length bs = 2"
    using that by (simp add: word_unat_eq_iff unat_be_word unat_ucast_narrow)
  then show "length bs = 2 \<Longrightarrow> be_word bs = (ucast b :: u64) \<longleftrightarrow> bs = be_bytes 2 b" by (simp add: be_word_eq_iff)
qed

lemma med1_read_header_iff:
  "med1_read_header f = Inr (u, off) \<longleftrightarrow> off = 6 \<and> length f \<le> length f \<and> (\<exists>r. f = med1_header @ r)"
proof (cases "6 \<le> length f")
  case True
  have "take 6 f = bytes_at f 0 4 @ bytes_at f 4 2" using take_add [of 4 2 f] by (simp add: bytes_at_def)
  with True have "take 6 f = med1_header \<longleftrightarrow>
      be_word (bytes_at f 0 4) = (ucast MEDIA_MAGIC :: u64) \<and> be_word (bytes_at f 4 2) = (ucast MEDIA_VERSION :: u64)"
    by (simp add: med1_header_def be_word_narrow_eq)
  moreover have "take 6 f = med1_header \<longleftrightarrow> (\<exists>r. f = med1_header @ r)"
    by (metis append_eq_conv_conj append_take_drop_id length_med1_header)
  ultimately show ?thesis
    using True by (auto simp: med1_read_header_def med1_read_uint_eq)
next
  case False
  then have "f \<noteq> med1_header @ r" for r by auto
  with False show ?thesis by (auto simp: med1_read_header_def med1_read_uint_eq)
qed

definition med1_read_narrow :: "bytes \<Rightarrow> nat \<Rightarrow> (u32 \<times> nat) res" where
  "med1_read_narrow f off = res_bind (med1_read_uint 4 f off) (\<lambda>(v, off). Inr (ucast v, off))"

interpretation med1_narrow: wire_field "be_bytes 4" med1_read_narrow "\<lambda>_. True"
  unfolding med1_read_narrow_def [abs_def] by (rule med1_narrow_wire)

interpretation med1_wide: wire_field "be_bytes 8" "med1_read_uint 8" "\<lambda>_. True"
  by (rule med1_wide_wire)

lemmas med1_frame_wire =
  wire_seq [OF med1_type.wire_field_axioms wire_seq [OF med1_string.wire_field_axioms [of ls]
    wire_seq [OF med1_string.wire_field_axioms [of ls] wire_seq [OF med1_wide.wire_field_axioms
    wire_seq [OF med1_wide.wire_field_axioms wire_seq [OF med1_narrow.wire_field_axioms
    wire_seq [OF med1_narrow.wire_field_axioms wire_seq [OF med1_narrow.wire_field_axioms
    wire_seq [OF med1_narrow.wire_field_axioms wire_seq [OF med1_flags.wire_field_axioms
    med1_payload.wire_field_axioms [of lp]]]]]]]]]]] for ls lp

definition med1_read_frame :: "nat \<Rightarrow> nat \<Rightarrow> bytes \<Rightarrow> nat \<Rightarrow> ((MediaType \<times> string \<times> string \<times> u64 \<times> u64 \<times>
    u32 \<times> u32 \<times> u32 \<times> u32 \<times> (bool \<times> bool) \<times> bytes) \<times> nat) res" where
  "med1_read_frame ls lp = seq_rd med1_read_type (seq_rd (med1_read_string ls) (seq_rd (med1_read_string ls)
     (seq_rd (med1_read_uint 8) (seq_rd (med1_read_uint 8) (seq_rd med1_read_narrow (seq_rd med1_read_narrow
     (seq_rd med1_read_narrow (seq_rd med1_read_narrow (seq_rd med1_read_flags (med1_read_payload lp))))))))))"

definition med1_of_fields :: "MediaType \<times> string \<times> string \<times> u64 \<times> u64 \<times> u32 \<times> u32 \<times> u32 \<times> u32 \<times>
    (bool \<times> bool) \<times> bytes \<Rightarrow> MediaStreamFrame" where
  "med1_of_fields = (\<lambda>(t, c, i, sq, ts, sr, w, ht, ch, (k, fc), p). \<lparr> ms_media_type = t, ms_codec = c,
    ms_stream_id = i, ms_sequence_number = sq, ms_timestamp_ns = ts, ms_sample_rate = sr, ms_width = w,
    ms_height = ht, ms_channels = ch, ms_is_keyframe = k, ms_is_final_chunk = fc, ms_payload = p \<rparr>)"

lemma decode_media_stream_frame_norm:
  "decode_media_stream_frame f lp ls = res_bind (med1_read_header f) (\<lambda>(u, off).
     res_bind (med1_read_frame ls lp f off) (\<lambda>(x, off).
     if off \<noteq> length f then Inl ''MED1 frame contains trailing bytes'' else Inr (med1_of_fields x)))"
  by (simp add: decode_media_stream_frame_def med1_read_header_def med1_read_frame_def med1_read_type_def
      med1_read_flags_def med1_read_payload_def med1_read_narrow_def med1_of_fields_def seq_rd_norm Let_def
      cong: if_cong)

lemma decode_media_stream_frame_iff:
  "decode_media_stream_frame f lp ls = Inr r \<longleftrightarrow>
     encode_media_stream_frame r lp ls = Inr f \<and> ms_media_type r \<in> {Video, Audio, GenericData}"
proof -
  have raw: "t \<in> {Video, Audio, GenericData} \<Longrightarrow> media_type_raw t \<le> 2" for t by auto
  note w = med1_frame_wire [of ls lp, folded med1_read_frame_def]
  show ?thesis
    unfolding encode_media_stream_frame_iff
    by (subst framed_decode_iff [OF w, where fin = "\<lambda>_ x. Inr (med1_of_fields x)" and
          m = "''MED1 frame contains trailing bytes''" and hdr = "med1_read_header f"
          and H = "\<lambda>_. med1_header" and n = 6 and lim = "length f"])
      (cases r; use raw in \<open>auto simp: decode_media_stream_frame_norm med1_of_fields_def
         med1_read_header_iff med1_body_def\<close>)+
qed

subsection \<open>Properties\<close>

text \<open>C29. The MED1 decoder accepts exactly the frames the encoder produces, for every choice of limits, and
  returns the encoded frame: a frame decodes to \<open>r\<close> if and only if encoding \<open>r\<close> gives that
  frame and the media type of \<open>r\<close> is named by its enumerator.  The keyframe and final-chunk flags
  and the four 32-bit fields survive the passage through the 64-bit accumulator.\<close>

theorem med1_codec:
  "decode_media_stream_frame f lp ls = Inr r \<longleftrightarrow>
     encode_media_stream_frame r lp ls = Inr f \<and> ms_media_type r \<in> {Video, Audio, GenericData}"
  by (rule decode_media_stream_frame_iff)

text \<open>What the MED1 encoder refuses: a frame is encoded if and only if its media type is one of the
  three, both strings are within the configured limit and 65535 bytes, and the payload is within the
  configured limit and 4294967295 bytes; the encoded frame then has exactly the documented length.\<close>

lemma med1_encodes_iff:
  "(\<exists>f. encode_media_stream_frame r lp ls = Inr f \<and>
      length f = 48 + length (ms_codec r) + length (ms_stream_id r) + length (ms_payload r)) \<longleftrightarrow>
   media_type_raw (ms_media_type r) \<le> 2 \<and> max (length (ms_codec r)) (length (ms_stream_id r)) \<le> min ls 65535 \<and>
   length (ms_payload r) \<le> min lp 4294967295"
  by (auto simp: encode_media_stream_frame_iff med1_body_def)

end
