(* ===== verification/Wasm_Protocol.thy ===== *)
theory Wasm_Protocol
  imports Wire Host_Order
begin

text \<open>
  The WSM1 wire format of WASM sandboxes: the structs of \<^verbatim>\<open>include/wasm_sandbox.h\<close> and the codec
  half of \<^verbatim>\<open>src/wasm_sandbox.cpp\<close> (the manager is in \<open>Wasm_Manager\<close>).  The decoders cast
  status, action and state bytes to their enums without a check, so each of these enums has a further
  constructor for the bytes that are no enumerator; a value that uses it for an enumerator's byte is
  not canonical and no decoder produces it.
\<close>

subsection \<open>Constants and enums\<close>

definition WASM_MAGIC :: u32 where "WASM_MAGIC = 0x57534D31"
definition WASM_PROTOCOL_VERSION :: u16 where "WASM_PROTOCOL_VERSION = 1"

definition kWasmTaskKind :: string where "kWasmTaskKind = ''wasm.task.v1''"
definition kWasmLifecycleKind :: string where "kWasmLifecycleKind = ''wasm.lifecycle.v1''"
definition kWasmLifecyclePrepareKind :: string where "kWasmLifecyclePrepareKind = ''wasm.lifecycle.prepare.v1''"
definition kWasmLifecycleDrainKind :: string where "kWasmLifecycleDrainKind = ''wasm.lifecycle.drain.v1''"
definition kWasmLifecycleReleaseKind :: string where "kWasmLifecycleReleaseKind = ''wasm.lifecycle.release.v1''"
definition kWasmLifecycleQueryKind :: string where "kWasmLifecycleQueryKind = ''wasm.lifecycle.query.v1''"

datatype WasmMessageType = TaskRequest | TaskResponse | LifecycleRequest | LifecycleResponse

fun wasm_message_type_raw :: "WasmMessageType \<Rightarrow> u8" where
  "wasm_message_type_raw TaskRequest = 1"
| "wasm_message_type_raw TaskResponse = 2"
| "wasm_message_type_raw LifecycleRequest = 3"
| "wasm_message_type_raw LifecycleResponse = 4"

datatype WasmTaskStatus = TaskOk | TaskRejected | TaskError | TaskTimeout | ModuleDraining
  | ModuleNotFound | VersionMismatch | TaskStatusRaw u8

fun wasm_task_status_raw :: "WasmTaskStatus \<Rightarrow> u8" where
  "wasm_task_status_raw TaskOk = 0"
| "wasm_task_status_raw TaskRejected = 1"
| "wasm_task_status_raw TaskError = 2"
| "wasm_task_status_raw TaskTimeout = 3"
| "wasm_task_status_raw ModuleDraining = 4"
| "wasm_task_status_raw ModuleNotFound = 5"
| "wasm_task_status_raw VersionMismatch = 6"
| "wasm_task_status_raw (TaskStatusRaw b) = b"

definition wasm_task_status_of_raw :: "u8 \<Rightarrow> WasmTaskStatus" where
  "wasm_task_status_of_raw b =
     (if b = 0 then TaskOk else if b = 1 then TaskRejected else if b = 2 then TaskError
      else if b = 3 then TaskTimeout else if b = 4 then ModuleDraining
      else if b = 5 then ModuleNotFound else if b = 6 then VersionMismatch else TaskStatusRaw b)"

datatype WasmLifecycleAction = Prepare | Drain | Release | Query | ActionRaw u8

fun wasm_lifecycle_action_raw :: "WasmLifecycleAction \<Rightarrow> u8" where
  "wasm_lifecycle_action_raw Prepare = 1"
| "wasm_lifecycle_action_raw Drain = 2"
| "wasm_lifecycle_action_raw Release = 3"
| "wasm_lifecycle_action_raw Query = 4"
| "wasm_lifecycle_action_raw (ActionRaw b) = b"

definition wasm_lifecycle_action_of_raw :: "u8 \<Rightarrow> WasmLifecycleAction" where
  "wasm_lifecycle_action_of_raw b =
     (if b = 1 then Prepare else if b = 2 then Drain else if b = 3 then Release
      else if b = 4 then Query else ActionRaw b)"

datatype WasmLifecycleStatus = LifecycleOk | LifecycleRejected | LifecycleError | LifecycleBusy
  | LifecycleNotFound | LifecycleStatusRaw u8

fun wasm_lifecycle_status_raw :: "WasmLifecycleStatus \<Rightarrow> u8" where
  "wasm_lifecycle_status_raw LifecycleOk = 0"
| "wasm_lifecycle_status_raw LifecycleRejected = 1"
| "wasm_lifecycle_status_raw LifecycleError = 2"
| "wasm_lifecycle_status_raw LifecycleBusy = 3"
| "wasm_lifecycle_status_raw LifecycleNotFound = 4"
| "wasm_lifecycle_status_raw (LifecycleStatusRaw b) = b"

definition wasm_lifecycle_status_of_raw :: "u8 \<Rightarrow> WasmLifecycleStatus" where
  "wasm_lifecycle_status_of_raw b =
     (if b = 0 then LifecycleOk else if b = 1 then LifecycleRejected else if b = 2 then LifecycleError
      else if b = 3 then LifecycleBusy else if b = 4 then LifecycleNotFound else LifecycleStatusRaw b)"

datatype WasmModuleState = StateUnknown | Prepared | Active | Draining | Stopped | Released | StateRaw u8

fun wasm_module_state_raw :: "WasmModuleState \<Rightarrow> u8" where
  "wasm_module_state_raw StateUnknown = 0"
| "wasm_module_state_raw Prepared = 1"
| "wasm_module_state_raw Active = 2"
| "wasm_module_state_raw Draining = 3"
| "wasm_module_state_raw Stopped = 4"
| "wasm_module_state_raw Released = 5"
| "wasm_module_state_raw (StateRaw b) = b"

definition wasm_module_state_of_raw :: "u8 \<Rightarrow> WasmModuleState" where
  "wasm_module_state_of_raw b =
     (if b = 0 then StateUnknown else if b = 1 then Prepared else if b = 2 then Active
      else if b = 3 then Draining else if b = 4 then Stopped else if b = 5 then Released else StateRaw b)"

subsection \<open>Structs\<close>

record WasmBufferDescriptor =
  bd_buffer_id :: u32
  bd_flags :: u32
  bd_offset :: u64
  bd_length :: u64
  bd_name :: string

record WasmLimits =
  wl_max_string_bytes :: nat
  wl_max_payload_bytes :: nat
  wl_max_buffers :: nat
  wl_max_frame_bytes :: nat

definition WasmLimits_default :: WasmLimits where
  "WasmLimits_default = \<lparr> wl_max_string_bytes = 1024, wl_max_payload_bytes = 512 * 1024,
     wl_max_buffers = 64, wl_max_frame_bytes = 1024 * 1024 \<rparr>"

record WasmTaskRequest =
  tq_task_id :: string
  tq_sandbox_id :: string
  tq_module_id :: string
  tq_module_version :: string
  tq_task_kind :: string
  tq_priority :: u8
  tq_deadline_ms :: u64
  tq_buffer_descriptors :: "WasmBufferDescriptor list"
  tq_payload :: bytes

record WasmTaskResponse =
  tr_task_id :: string
  tr_status :: WasmTaskStatus
  tr_protocol_version :: u16
  tr_selected_gpu :: i32
  tr_latency_ms :: u64
  tr_buffer_descriptors :: "WasmBufferDescriptor list"
  tr_result :: bytes
  tr_error :: string

record WasmLifecycleRequest =
  lq_action :: WasmLifecycleAction
  lq_request_id :: string
  lq_sandbox_id :: string
  lq_module_id :: string
  lq_module_version :: string
  lq_target_gpu :: i32
  lq_grace_period_ms :: u32
  lq_ack_token :: string
  lq_payload :: bytes

record WasmLifecycleResponse =
  lr_action :: WasmLifecycleAction
  lr_status :: WasmLifecycleStatus
  lr_protocol_version :: u16
  lr_request_id :: string
  lr_sandbox_id :: string
  lr_module_id :: string
  lr_module_version :: string
  lr_assigned_gpu :: i32
  lr_active_tasks :: u32
  lr_state :: WasmModuleState
  lr_lease_token :: string
  lr_error :: string

definition WasmTaskResponse_default :: WasmTaskResponse where
  "WasmTaskResponse_default = \<lparr> tr_task_id = [], tr_status = TaskError,
     tr_protocol_version = WASM_PROTOCOL_VERSION, tr_selected_gpu = -1, tr_latency_ms = 0,
     tr_buffer_descriptors = [], tr_result = [], tr_error = [] \<rparr>"

definition WasmLifecycleResponse_default :: WasmLifecycleResponse where
  "WasmLifecycleResponse_default = \<lparr> lr_action = Prepare, lr_status = LifecycleError,
     lr_protocol_version = WASM_PROTOCOL_VERSION, lr_request_id = [], lr_sandbox_id = [],
     lr_module_id = [], lr_module_version = [], lr_assigned_gpu = -1, lr_active_tasks = 0,
     lr_state = StateUnknown, lr_lease_token = [], lr_error = [] \<rparr>"

subsection \<open>Appending and reading\<close>

definition wsm1_append_be16 :: "endian \<Rightarrow> bytes \<Rightarrow> u16 \<Rightarrow> bytes" where
  "wsm1_append_be16 h out value = append_bytes out (store h 2 (htons h value))"

definition wsm1_append_be32 :: "endian \<Rightarrow> bytes \<Rightarrow> u32 \<Rightarrow> bytes" where
  "wsm1_append_be32 h out value = append_bytes out (store h 4 (htonl h value))"

definition wsm1_append_be64 :: "endian \<Rightarrow> bytes \<Rightarrow> u64 \<Rightarrow> bytes" where
  "wsm1_append_be64 h out value =
     (let hi = htonl h (ucast (drop_bit 32 value));
          lo = htonl h (ucast (value AND 0xffffffff))
      in append_bytes (append_bytes out (store h 4 hi)) (store h 4 lo))"

definition wsm1_append_string :: "endian \<Rightarrow> WasmLimits \<Rightarrow> bytes \<Rightarrow> string \<Rightarrow> bytes res" where
  "wsm1_append_string h limits out value =
     (if length value > wl_max_string_bytes limits \<or> length value > 0xffff
      then Inl ''string length exceeds maximum allowed limit''
      else Inr (append_bytes (wsm1_append_be16 h out (word_of_nat (length value))) (bytes_of_string value)))"

definition wsm1_append_blob :: "endian \<Rightarrow> WasmLimits \<Rightarrow> bytes \<Rightarrow> bytes \<Rightarrow> bytes res" where
  "wsm1_append_blob h limits out blob =
     (if length blob > wl_max_payload_bytes limits \<or> length blob > 0xffffffff
      then Inl ''payload blob exceeds maximum allowed limit''
      else Inr (append_bytes (wsm1_append_be32 h out (word_of_nat (length blob))) blob))"

text \<open>The loop of \<^verbatim>\<open>append_buffer_descriptors\<close>.\<close>

primrec wsm1_append_buffers ::
  "endian \<Rightarrow> WasmLimits \<Rightarrow> bytes \<Rightarrow> WasmBufferDescriptor list \<Rightarrow> bytes res" where
  "wsm1_append_buffers h limits out [] = Inr out"
| "wsm1_append_buffers h limits out (buf # buffers) =
     (let out = wsm1_append_be32 h out (bd_buffer_id buf);
          out = wsm1_append_be32 h out (bd_flags buf);
          out = wsm1_append_be64 h out (bd_offset buf);
          out = wsm1_append_be64 h out (bd_length buf)
      in res_bind (wsm1_append_string h limits out (bd_name buf)) (\<lambda>out.
         wsm1_append_buffers h limits out buffers))"

definition wsm1_append_buffer_descriptors ::
  "endian \<Rightarrow> WasmLimits \<Rightarrow> bytes \<Rightarrow> WasmBufferDescriptor list \<Rightarrow> bytes res" where
  "wsm1_append_buffer_descriptors h limits out buffers =
     (if length buffers > wl_max_buffers limits \<or> length buffers > 0xffff
      then Inl ''buffer descriptor count exceeds maximum allowed limit''
      else wsm1_append_buffers h limits (wsm1_append_be16 h out (word_of_nat (length buffers))) buffers)"

definition wsm1_take :: "nat \<Rightarrow> nat \<Rightarrow> nat \<Rightarrow> unit res" where
  "wsm1_take need sz off = take_or ''frame truncated or incomplete'' need sz off"

definition wsm1_read_be16 :: "endian \<Rightarrow> bytes \<Rightarrow> nat \<Rightarrow> (u16 \<times> nat) res" where
  "wsm1_read_be16 h frame off = res_bind (wsm1_take 2 (length frame) off) (\<lambda>_.
     let be = load h (bytes_at frame off 2) in Inr (ntohs h be, off + 2))"

definition wsm1_read_be32 :: "endian \<Rightarrow> bytes \<Rightarrow> nat \<Rightarrow> (u32 \<times> nat) res" where
  "wsm1_read_be32 h frame off = res_bind (wsm1_take 4 (length frame) off) (\<lambda>_.
     let be = load h (bytes_at frame off 4) in Inr (ntohl h be, off + 4))"

definition wsm1_read_be64 :: "endian \<Rightarrow> bytes \<Rightarrow> nat \<Rightarrow> (u64 \<times> nat) res" where
  "wsm1_read_be64 h frame off = res_bind (wsm1_take 8 (length frame) off) (\<lambda>_.
     let hi_be = load h (bytes_at frame off 4);
         lo_be = load h (bytes_at frame (off + 4) 4)
     in Inr (push_bit 32 (ucast (ntohl h hi_be)) OR ucast (ntohl h lo_be), off + 8))"

definition wsm1_read_string :: "endian \<Rightarrow> WasmLimits \<Rightarrow> bytes \<Rightarrow> nat \<Rightarrow> (string \<times> nat) res" where
  "wsm1_read_string h limits frame off =
     res_bind (wsm1_read_be16 h frame off) (\<lambda>(len, off).
     if unat len > wl_max_string_bytes limits then Inl ''string length exceeds configured limit''
     else res_bind (wsm1_take (unat len) (length frame) off) (\<lambda>_.
       Inr (string_of_bytes (bytes_at frame off (unat len)), off + unat len)))"

definition wsm1_read_blob :: "endian \<Rightarrow> WasmLimits \<Rightarrow> bytes \<Rightarrow> nat \<Rightarrow> (bytes \<times> nat) res" where
  "wsm1_read_blob h limits frame off =
     res_bind (wsm1_read_be32 h frame off) (\<lambda>(len, off).
     if unat len > wl_max_payload_bytes limits then Inl ''payload length exceeds configured limit''
     else res_bind (wsm1_take (unat len) (length frame) off) (\<lambda>_.
       Inr (bytes_at frame off (unat len), off + unat len)))"

text \<open>The body and the loop of \<^verbatim>\<open>read_buffer_descriptors\<close>.\<close>

definition wsm1_read_buffer :: "endian \<Rightarrow> WasmLimits \<Rightarrow> bytes \<Rightarrow> nat \<Rightarrow> (WasmBufferDescriptor \<times> nat) res" where
  "wsm1_read_buffer h limits frame off =
     res_bind (wsm1_read_be32 h frame off) (\<lambda>(buffer_id, off).
     res_bind (wsm1_read_be32 h frame off) (\<lambda>(flags, off).
     res_bind (wsm1_read_be64 h frame off) (\<lambda>(offset, off).
     res_bind (wsm1_read_be64 h frame off) (\<lambda>(len, off).
     res_bind (wsm1_read_string h limits frame off) (\<lambda>(name, off).
     Inr (\<lparr> bd_buffer_id = buffer_id, bd_flags = flags, bd_offset = offset, bd_length = len,
       bd_name = name \<rparr>, off))))))"

primrec wsm1_read_buffers ::
  "endian \<Rightarrow> WasmLimits \<Rightarrow> nat \<Rightarrow> bytes \<Rightarrow> nat \<Rightarrow> (WasmBufferDescriptor list \<times> nat) res" where
  "wsm1_read_buffers h limits 0 frame off = Inr ([], off)"
| "wsm1_read_buffers h limits (Suc n) frame off =
     res_bind (wsm1_read_buffer h limits frame off) (\<lambda>(desc, off).
     res_bind (wsm1_read_buffers h limits n frame off) (\<lambda>(rest, off).
     Inr (desc # rest, off)))"

definition wsm1_read_buffer_descriptors ::
  "endian \<Rightarrow> WasmLimits \<Rightarrow> bytes \<Rightarrow> nat \<Rightarrow> (WasmBufferDescriptor list \<times> nat) res" where
  "wsm1_read_buffer_descriptors h limits frame off =
     res_bind (wsm1_read_be16 h frame off) (\<lambda>(count, off).
     if unat count > wl_max_buffers limits then Inl ''buffer descriptor count exceeds configured limit''
     else wsm1_read_buffers h limits (unat count) frame off)"

definition wsm1_decode_header ::
  "endian \<Rightarrow> WasmLimits \<Rightarrow> WasmMessageType \<Rightarrow> bytes \<Rightarrow> nat \<Rightarrow> (u8 \<times> nat) res" where
  "wsm1_decode_header h limits expected_type frame off =
     (if frame = [] \<or> length frame > wl_max_frame_bytes limits then Inl ''invalid frame size''
      else res_bind (wsm1_take 8 (length frame) off) (\<lambda>_.
        res_bind (wsm1_read_be32 h frame off) (\<lambda>(magic, off).
        if magic \<noteq> WASM_MAGIC then Inl ''invalid WSM1 protocol magic''
        else res_bind (wsm1_read_be16 h frame off) (\<lambda>(version, off).
        if version \<noteq> WASM_PROTOCOL_VERSION then Inl ''unsupported WSM1 protocol version''
        else let msg_type_raw = frame ! off; off = off + 1 in
        if msg_type_raw \<noteq> wasm_message_type_raw expected_type then Inl ''unexpected WSM1 message type''
        else let action_or_flags = frame ! off; off = off + 1 in Inr (action_or_flags, off)))))"

definition wsm1_append_header :: "endian \<Rightarrow> bytes \<Rightarrow> WasmMessageType \<Rightarrow> u8 \<Rightarrow> bytes" where
  "wsm1_append_header h frame type action_or_flags =
     (let frame = wsm1_append_be32 h frame WASM_MAGIC;
          frame = wsm1_append_be16 h frame WASM_PROTOCOL_VERSION;
          frame = append_bytes frame [wasm_message_type_raw type]
      in append_bytes frame [action_or_flags])"

definition is_wasm_request_kind :: "string \<Rightarrow> bool" where
  "is_wasm_request_kind kind \<longleftrightarrow> kind = kWasmTaskKind \<or> kind = kWasmLifecycleKind \<or>
     kind = kWasmLifecyclePrepareKind \<or> kind = kWasmLifecycleDrainKind \<or>
     kind = kWasmLifecycleReleaseKind \<or> kind = kWasmLifecycleQueryKind"

fun wasm_task_status_name :: "WasmTaskStatus \<Rightarrow> string" where
  "wasm_task_status_name TaskOk = ''Ok''"
| "wasm_task_status_name TaskRejected = ''Rejected''"
| "wasm_task_status_name TaskError = ''Error''"
| "wasm_task_status_name TaskTimeout = ''Timeout''"
| "wasm_task_status_name ModuleDraining = ''ModuleDraining''"
| "wasm_task_status_name ModuleNotFound = ''ModuleNotFound''"
| "wasm_task_status_name VersionMismatch = ''VersionMismatch''"
| "wasm_task_status_name (TaskStatusRaw _) = ''Unknown''"

fun wasm_lifecycle_action_name :: "WasmLifecycleAction \<Rightarrow> string" where
  "wasm_lifecycle_action_name Prepare = ''Prepare''"
| "wasm_lifecycle_action_name Drain = ''Drain''"
| "wasm_lifecycle_action_name Release = ''Release''"
| "wasm_lifecycle_action_name Query = ''Query''"
| "wasm_lifecycle_action_name (ActionRaw _) = ''Unknown''"

fun wasm_lifecycle_status_name :: "WasmLifecycleStatus \<Rightarrow> string" where
  "wasm_lifecycle_status_name LifecycleOk = ''Ok''"
| "wasm_lifecycle_status_name LifecycleRejected = ''Rejected''"
| "wasm_lifecycle_status_name LifecycleError = ''Error''"
| "wasm_lifecycle_status_name LifecycleBusy = ''Busy''"
| "wasm_lifecycle_status_name LifecycleNotFound = ''NotFound''"
| "wasm_lifecycle_status_name (LifecycleStatusRaw _) = ''Unknown''"

fun wasm_module_state_name :: "WasmModuleState \<Rightarrow> string" where
  "wasm_module_state_name StateUnknown = ''Unknown''"
| "wasm_module_state_name Prepared = ''Prepared''"
| "wasm_module_state_name Active = ''Active''"
| "wasm_module_state_name Draining = ''Draining''"
| "wasm_module_state_name Stopped = ''Stopped''"
| "wasm_module_state_name Released = ''Released''"
| "wasm_module_state_name (StateRaw _) = ''Unknown''"

subsection \<open>Task frames\<close>

definition encode_wasm_task_request :: "endian \<Rightarrow> WasmTaskRequest \<Rightarrow> WasmLimits \<Rightarrow> bytes res" where
  "encode_wasm_task_request h req limits =
     (if tq_task_id req = [] \<or> tq_sandbox_id req = [] \<or> tq_module_id req = [] \<or>
         tq_module_version req = [] \<or> tq_task_kind req = []
      then Inl ''task_id, sandbox_id, module_id, module_version, and task_kind must be non-empty''
      else let frame = wsm1_append_header h [] TaskRequest 0 in
        res_bind (wsm1_append_string h limits frame (tq_task_id req)) (\<lambda>frame.
        res_bind (wsm1_append_string h limits frame (tq_sandbox_id req)) (\<lambda>frame.
        res_bind (wsm1_append_string h limits frame (tq_module_id req)) (\<lambda>frame.
        res_bind (wsm1_append_string h limits frame (tq_module_version req)) (\<lambda>frame.
        res_bind (wsm1_append_string h limits frame (tq_task_kind req)) (\<lambda>frame.
        let frame = append_bytes frame [tq_priority req];
            frame = wsm1_append_be64 h frame (tq_deadline_ms req) in
        res_bind (wsm1_append_buffer_descriptors h limits frame (tq_buffer_descriptors req)) (\<lambda>frame.
        res_bind (wsm1_append_blob h limits frame (tq_payload req)) (\<lambda>frame.
        if length frame > wl_max_frame_bytes limits
        then Inl ''encoded task request exceeds max_frame_bytes''
        else Inr frame))))))))"

definition decode_wasm_task_request :: "endian \<Rightarrow> bytes \<Rightarrow> WasmLimits \<Rightarrow> WasmTaskRequest res" where
  "decode_wasm_task_request h frame limits =
     res_bind (wsm1_decode_header h limits TaskRequest frame 0) (\<lambda>(flags, off).
     res_bind (wsm1_read_string h limits frame off) (\<lambda>(task_id, off).
     res_bind (wsm1_read_string h limits frame off) (\<lambda>(sandbox_id, off).
     res_bind (wsm1_read_string h limits frame off) (\<lambda>(module_id, off).
     res_bind (wsm1_read_string h limits frame off) (\<lambda>(module_version, off).
     res_bind (wsm1_read_string h limits frame off) (\<lambda>(task_kind, off).
     res_bind (wsm1_take 1 (length frame) off) (\<lambda>_.
     let priority = frame ! off; off = off + 1 in
     res_bind (wsm1_read_be64 h frame off) (\<lambda>(deadline_ms, off).
     res_bind (wsm1_read_buffer_descriptors h limits frame off) (\<lambda>(buffer_descriptors, off).
     res_bind (wsm1_read_blob h limits frame off) (\<lambda>(payload, off).
     if off \<noteq> length frame then Inl ''task request frame contains trailing bytes''
     else if task_id = [] \<or> sandbox_id = [] \<or> module_id = [] \<or> module_version = [] \<or> task_kind = []
     then Inl ''task_id, sandbox_id, module_id, module_version, and task_kind must be non-empty''
     else Inr \<lparr> tq_task_id = task_id, tq_sandbox_id = sandbox_id, tq_module_id = module_id,
       tq_module_version = module_version, tq_task_kind = task_kind, tq_priority = priority,
       tq_deadline_ms = deadline_ms, tq_buffer_descriptors = buffer_descriptors,
       tq_payload = payload \<rparr>))))))))))"

definition encode_wasm_task_response :: "endian \<Rightarrow> WasmTaskResponse \<Rightarrow> WasmLimits \<Rightarrow> bytes res" where
  "encode_wasm_task_response h resp limits =
     (let status_raw = wasm_task_status_raw (tr_status resp);
          frame = wsm1_append_header h [] TaskResponse status_raw;
          frame = wsm1_append_be16 h frame (tr_protocol_version resp) in
      res_bind (wsm1_append_string h limits frame (tr_task_id resp)) (\<lambda>frame.
      let frame = wsm1_append_be32 h frame (tr_selected_gpu resp);
          frame = wsm1_append_be64 h frame (tr_latency_ms resp) in
      res_bind (wsm1_append_string h limits frame (tr_error resp)) (\<lambda>frame.
      res_bind (wsm1_append_buffer_descriptors h limits frame (tr_buffer_descriptors resp)) (\<lambda>frame.
      res_bind (wsm1_append_blob h limits frame (tr_result resp)) (\<lambda>frame.
      if length frame > wl_max_frame_bytes limits
      then Inl ''encoded task response exceeds max_frame_bytes''
      else Inr frame)))))"

definition decode_wasm_task_response :: "endian \<Rightarrow> bytes \<Rightarrow> WasmLimits \<Rightarrow> WasmTaskResponse res" where
  "decode_wasm_task_response h frame limits =
     res_bind (wsm1_decode_header h limits TaskResponse frame 0) (\<lambda>(status_raw, off).
     let status = wasm_task_status_of_raw status_raw in
     res_bind (wsm1_read_be16 h frame off) (\<lambda>(protocol_version, off).
     res_bind (wsm1_read_string h limits frame off) (\<lambda>(task_id, off).
     res_bind (wsm1_read_be32 h frame off) (\<lambda>(selected_gpu, off).
     res_bind (wsm1_read_be64 h frame off) (\<lambda>(latency_ms, off).
     res_bind (wsm1_read_string h limits frame off) (\<lambda>(error, off).
     res_bind (wsm1_read_buffer_descriptors h limits frame off) (\<lambda>(buffer_descriptors, off).
     res_bind (wsm1_read_blob h limits frame off) (\<lambda>(result, off).
     if off \<noteq> length frame then Inl ''task response frame contains trailing bytes''
     else Inr \<lparr> tr_task_id = task_id, tr_status = status, tr_protocol_version = protocol_version,
       tr_selected_gpu = selected_gpu, tr_latency_ms = latency_ms,
       tr_buffer_descriptors = buffer_descriptors, tr_result = result, tr_error = error \<rparr>))))))))"

subsection \<open>Lifecycle frames\<close>

definition encode_wasm_lifecycle_request :: "endian \<Rightarrow> WasmLifecycleRequest \<Rightarrow> WasmLimits \<Rightarrow> bytes res" where
  "encode_wasm_lifecycle_request h req limits =
     (if lq_request_id req = [] \<or> lq_sandbox_id req = [] \<or> lq_module_id req = [] \<or> lq_module_version req = []
      then Inl ''request_id, sandbox_id, module_id, and module_version must be non-empty''
      else let action_raw = wasm_lifecycle_action_raw (lq_action req);
               frame = wsm1_append_header h [] LifecycleRequest action_raw in
        res_bind (wsm1_append_string h limits frame (lq_request_id req)) (\<lambda>frame.
        res_bind (wsm1_append_string h limits frame (lq_sandbox_id req)) (\<lambda>frame.
        res_bind (wsm1_append_string h limits frame (lq_module_id req)) (\<lambda>frame.
        res_bind (wsm1_append_string h limits frame (lq_module_version req)) (\<lambda>frame.
        let frame = wsm1_append_be32 h frame (lq_target_gpu req);
            frame = wsm1_append_be32 h frame (lq_grace_period_ms req) in
        res_bind (wsm1_append_string h limits frame (lq_ack_token req)) (\<lambda>frame.
        res_bind (wsm1_append_blob h limits frame (lq_payload req)) (\<lambda>frame.
        if length frame > wl_max_frame_bytes limits
        then Inl ''encoded lifecycle request exceeds max_frame_bytes''
        else Inr frame)))))))"

definition decode_wasm_lifecycle_request :: "endian \<Rightarrow> bytes \<Rightarrow> WasmLimits \<Rightarrow> WasmLifecycleRequest res" where
  "decode_wasm_lifecycle_request h frame limits =
     res_bind (wsm1_decode_header h limits LifecycleRequest frame 0) (\<lambda>(action_raw, off).
     let action = wasm_lifecycle_action_of_raw action_raw in
     res_bind (wsm1_read_string h limits frame off) (\<lambda>(request_id, off).
     res_bind (wsm1_read_string h limits frame off) (\<lambda>(sandbox_id, off).
     res_bind (wsm1_read_string h limits frame off) (\<lambda>(module_id, off).
     res_bind (wsm1_read_string h limits frame off) (\<lambda>(module_version, off).
     res_bind (wsm1_read_be32 h frame off) (\<lambda>(target_gpu, off).
     res_bind (wsm1_read_be32 h frame off) (\<lambda>(grace_period_ms, off).
     res_bind (wsm1_read_string h limits frame off) (\<lambda>(ack_token, off).
     res_bind (wsm1_read_blob h limits frame off) (\<lambda>(payload, off).
     if off \<noteq> length frame then Inl ''lifecycle request frame contains trailing bytes''
     else if request_id = [] \<or> sandbox_id = [] \<or> module_id = [] \<or> module_version = []
     then Inl ''request_id, sandbox_id, module_id, and module_version must be non-empty''
     else Inr \<lparr> lq_action = action, lq_request_id = request_id, lq_sandbox_id = sandbox_id,
       lq_module_id = module_id, lq_module_version = module_version, lq_target_gpu = target_gpu,
       lq_grace_period_ms = grace_period_ms, lq_ack_token = ack_token, lq_payload = payload \<rparr>)))))))))"

definition encode_wasm_lifecycle_response :: "endian \<Rightarrow> WasmLifecycleResponse \<Rightarrow> WasmLimits \<Rightarrow> bytes res" where
  "encode_wasm_lifecycle_response h resp limits =
     (let action_raw = wasm_lifecycle_action_raw (lr_action resp);
          frame = wsm1_append_header h [] LifecycleResponse action_raw;
          status_raw = wasm_lifecycle_status_raw (lr_status resp);
          frame = append_bytes frame [status_raw];
          frame = wsm1_append_be16 h frame (lr_protocol_version resp);
          state_raw = wasm_module_state_raw (lr_state resp);
          frame = append_bytes frame [state_raw] in
      res_bind (wsm1_append_string h limits frame (lr_request_id resp)) (\<lambda>frame.
      res_bind (wsm1_append_string h limits frame (lr_sandbox_id resp)) (\<lambda>frame.
      res_bind (wsm1_append_string h limits frame (lr_module_id resp)) (\<lambda>frame.
      res_bind (wsm1_append_string h limits frame (lr_module_version resp)) (\<lambda>frame.
      let frame = wsm1_append_be32 h frame (lr_assigned_gpu resp);
          frame = wsm1_append_be32 h frame (lr_active_tasks resp) in
      res_bind (wsm1_append_string h limits frame (lr_lease_token resp)) (\<lambda>frame.
      res_bind (wsm1_append_string h limits frame (lr_error resp)) (\<lambda>frame.
      if length frame > wl_max_frame_bytes limits
      then Inl ''encoded lifecycle response exceeds max_frame_bytes''
      else Inr frame)))))))"

definition decode_wasm_lifecycle_response :: "endian \<Rightarrow> bytes \<Rightarrow> WasmLimits \<Rightarrow> WasmLifecycleResponse res" where
  "decode_wasm_lifecycle_response h frame limits =
     res_bind (wsm1_decode_header h limits LifecycleResponse frame 0) (\<lambda>(action_raw, off).
     let action = wasm_lifecycle_action_of_raw action_raw in
     res_bind (wsm1_take 1 (length frame) off) (\<lambda>_.
     let status = wasm_lifecycle_status_of_raw (frame ! off); off = off + 1 in
     res_bind (wsm1_read_be16 h frame off) (\<lambda>(protocol_version, off).
     res_bind (wsm1_take 1 (length frame) off) (\<lambda>_.
     let state = wasm_module_state_of_raw (frame ! off); off = off + 1 in
     res_bind (wsm1_read_string h limits frame off) (\<lambda>(request_id, off).
     res_bind (wsm1_read_string h limits frame off) (\<lambda>(sandbox_id, off).
     res_bind (wsm1_read_string h limits frame off) (\<lambda>(module_id, off).
     res_bind (wsm1_read_string h limits frame off) (\<lambda>(module_version, off).
     res_bind (wsm1_read_be32 h frame off) (\<lambda>(assigned_gpu, off).
     res_bind (wsm1_read_be32 h frame off) (\<lambda>(active_tasks, off).
     res_bind (wsm1_read_string h limits frame off) (\<lambda>(lease_token, off).
     res_bind (wsm1_read_string h limits frame off) (\<lambda>(error, off).
     if off \<noteq> length frame then Inl ''lifecycle response frame contains trailing bytes''
     else Inr \<lparr> lr_action = action, lr_status = status, lr_protocol_version = protocol_version,
       lr_request_id = request_id, lr_sandbox_id = sandbox_id, lr_module_id = module_id,
       lr_module_version = module_version, lr_assigned_gpu = assigned_gpu,
       lr_active_tasks = active_tasks, lr_state = state, lr_lease_token = lease_token,
       lr_error = error \<rparr>))))))))))))"

end
