(* ===== verification/Wasm_Codec.thy ===== *)
theory Wasm_Codec
  imports Wasm_Protocol
begin

text \<open>
  Correctness of the WSM1 codec: every reader of \<open>Wasm_Protocol\<close> interprets the contract
  \<open>wire_field\<close>, the loop over buffer descriptors interprets \<open>wire_repeat\<close>, and the four
  frame decoders accept exactly what the four encoders produce.
\<close>

subsection \<open>Enums\<close>

lemma wasm_raw_of_raw [simp]:
  "wasm_task_status_raw (wasm_task_status_of_raw b) = b"
  "wasm_lifecycle_action_raw (wasm_lifecycle_action_of_raw b) = b"
  "wasm_lifecycle_status_raw (wasm_lifecycle_status_of_raw b) = b"
  "wasm_module_state_raw (wasm_module_state_of_raw b) = b"
  by (simp_all add: wasm_task_status_of_raw_def wasm_lifecycle_action_of_raw_def
      wasm_lifecycle_status_of_raw_def wasm_module_state_of_raw_def)

text \<open>A canonical value names an enumerator by its constructor.\<close>

definition canonical_task_status :: "WasmTaskStatus \<Rightarrow> bool" where
  "canonical_task_status s \<longleftrightarrow> wasm_task_status_of_raw (wasm_task_status_raw s) = s"

definition canonical_action :: "WasmLifecycleAction \<Rightarrow> bool" where
  "canonical_action a \<longleftrightarrow> wasm_lifecycle_action_of_raw (wasm_lifecycle_action_raw a) = a"

definition canonical_lifecycle_status :: "WasmLifecycleStatus \<Rightarrow> bool" where
  "canonical_lifecycle_status s \<longleftrightarrow> wasm_lifecycle_status_of_raw (wasm_lifecycle_status_raw s) = s"

definition canonical_module_state :: "WasmModuleState \<Rightarrow> bool" where
  "canonical_module_state s \<longleftrightarrow> wasm_module_state_of_raw (wasm_module_state_raw s) = s"

lemmas canonical_defs = canonical_task_status_def canonical_action_def
  canonical_lifecycle_status_def canonical_module_state_def

lemma canonical_enumerators:
  "canonical_task_status s \<longleftrightarrow> (\<forall>b. s = TaskStatusRaw b \<longrightarrow> b \<notin> {0, 1, 2, 3, 4, 5, 6})"
  "canonical_action a \<longleftrightarrow> (\<forall>b. a = ActionRaw b \<longrightarrow> b \<notin> {1, 2, 3, 4})"
  "canonical_lifecycle_status l \<longleftrightarrow> (\<forall>b. l = LifecycleStatusRaw b \<longrightarrow> b \<notin> {0, 1, 2, 3, 4})"
  "canonical_module_state m \<longleftrightarrow> (\<forall>b. m = StateRaw b \<longrightarrow> b \<notin> {0, 1, 2, 3, 4, 5})"
  subgoal by (cases s) (auto simp: canonical_defs wasm_task_status_of_raw_def)
  subgoal by (cases a) (auto simp: canonical_defs wasm_lifecycle_action_of_raw_def)
  subgoal by (cases l) (auto simp: canonical_defs wasm_lifecycle_status_of_raw_def)
  subgoal by (cases m) (auto simp: canonical_defs wasm_module_state_of_raw_def)
  done

subsection \<open>The documented layout\<close>

definition wsm1_header :: "WasmMessageType \<Rightarrow> u8 \<Rightarrow> bytes" where
  "wsm1_header t b = be_bytes 4 WASM_MAGIC @ be_bytes 2 WASM_PROTOCOL_VERSION @ [wasm_message_type_raw t, b]"

definition wsm1_buffer_bytes :: "WasmBufferDescriptor \<Rightarrow> bytes" where
  "wsm1_buffer_bytes d = be_bytes 4 (bd_buffer_id d) @ be_bytes 4 (bd_flags d) @
     be_bytes 8 (bd_offset d) @ be_bytes 8 (bd_length d) @ prefixed16 (bd_name d)"

definition wsm1_buffers_bytes :: "WasmBufferDescriptor list \<Rightarrow> bytes" where
  "wsm1_buffers_bytes ds = be_bytes 2 (word_of_nat (length ds) :: u16) @ concat (map wsm1_buffer_bytes ds)"

definition wsm1_string_ok :: "WasmLimits \<Rightarrow> string \<Rightarrow> bool" where
  "wsm1_string_ok limits s \<longleftrightarrow> length s \<le> wl_max_string_bytes limits \<and> length s < 2 ^ 16"

definition wsm1_blob_ok :: "WasmLimits \<Rightarrow> bytes \<Rightarrow> bool" where
  "wsm1_blob_ok limits b \<longleftrightarrow> length b \<le> wl_max_payload_bytes limits \<and> length b < 2 ^ 32"

definition wsm1_buffers_ok :: "WasmLimits \<Rightarrow> WasmBufferDescriptor list \<Rightarrow> bool" where
  "wsm1_buffers_ok limits ds \<longleftrightarrow> (length ds \<le> wl_max_buffers limits \<and> length ds < 2 ^ 16) \<and>
     list_all (\<lambda>d. wsm1_string_ok limits (bd_name d)) ds"

lemma length_wsm1_header [simp]: "length (wsm1_header t b) = 8"
  by (simp add: wsm1_header_def)

lemma wsm1_append_be [simp]:
  "wsm1_append_be16 h out v16 = out @ be_bytes 2 v16"
  "wsm1_append_be32 h out v32 = out @ be_bytes 4 v32"
  "wsm1_append_be64 h out v64 = out @ be_bytes 8 v64"
  by (simp_all add: wsm1_append_be16_def wsm1_append_be32_def wsm1_append_be64_def append_bytes_def
      Let_def ucast_mask32 be_bytes_split64)

lemma wsm1_append_string_iff:
  "wsm1_append_string h limits out s = Inr out' \<longleftrightarrow> wsm1_string_ok limits s \<and> out' = out @ prefixed16 s"
  by (auto simp: wsm1_append_string_def wsm1_string_ok_def append_bytes_def prefixed16_def)

lemma wsm1_append_blob_iff:
  "wsm1_append_blob h limits out b = Inr out' \<longleftrightarrow> wsm1_blob_ok limits b \<and> out' = out @ prefixed32 b"
  by (auto simp: wsm1_append_blob_def wsm1_blob_ok_def append_bytes_def prefixed32_def)

lemma wsm1_append_buffers_iff:
  "wsm1_append_buffers h limits out ds = Inr out' \<longleftrightarrow>
     list_all (\<lambda>d. wsm1_string_ok limits (bd_name d)) ds \<and> out' = out @ concat (map wsm1_buffer_bytes ds)"
  by (induction ds arbitrary: out)
    (auto simp: res_bind_Inr_iff Let_def wsm1_append_string_iff wsm1_buffer_bytes_def)

lemma wsm1_append_buffer_descriptors_iff:
  "wsm1_append_buffer_descriptors h limits out ds = Inr out' \<longleftrightarrow>
     wsm1_buffers_ok limits ds \<and> out' = out @ wsm1_buffers_bytes ds"
  by (auto simp: wsm1_append_buffer_descriptors_def wsm1_append_buffers_iff wsm1_buffers_ok_def
      wsm1_buffers_bytes_def)

lemma wsm1_append_header_eq: "wsm1_append_header h [] t b = wsm1_header t b"
  by (simp add: wsm1_append_header_def wsm1_header_def append_bytes_def Let_def)

lemmas wsm1_append_simps = wsm1_append_string_iff wsm1_append_blob_iff
  wsm1_append_buffer_descriptors_iff wsm1_append_header_eq append_bytes_def

subsection \<open>The readers as wire fields\<close>

interpretation wsm1_be16: wire_field "be_bytes 2" "wsm1_read_be16 h" "\<lambda>_. True" for h
  by (rule wire_fixed [where m = "''frame truncated or incomplete''"])
    (auto simp: wsm1_read_be16_def wsm1_take_def Let_def be_word_load_16 intro!: take_or_cong)

interpretation wsm1_be32: wire_field "be_bytes 4" "wsm1_read_be32 h" "\<lambda>_. True" for h
  by (rule wire_fixed [where m = "''frame truncated or incomplete''"])
    (auto simp: wsm1_read_be32_def wsm1_take_def Let_def be_word_load_32 intro!: take_or_cong)

lemma wsm1_read_be64_eq:
  "wsm1_read_be64 h f off = res_bind (take_or ''frame truncated or incomplete'' 8 (length f) off)
     (\<lambda>_. Inr (be_word (bytes_at f off 8), off + 8))"
  unfolding wsm1_read_be64_def wsm1_take_def Let_def join64_def [symmetric]
proof (rule take_or_cong)
  assume fits: "off + 8 \<le> length f"
  then have "bytes_at f off 8 = bytes_at f off 4 @ bytes_at f (off + 4) 4"
    using append_take_drop_id [of 4 "bytes_at f off 8"] by (simp add: take_bytes_at drop_bytes_at)
  with fits show "Inr (join64 (ntohl h (load h (bytes_at f off 4))) (ntohl h (load h (bytes_at f (off + 4) 4))), off + 8)
      = Inr (be_word (bytes_at f off 8), off + 8)"
    by (simp add: be_word_load_32 join64_be_word)
qed simp_all

interpretation wsm1_be64: wire_field "be_bytes 8" "wsm1_read_be64 h" "\<lambda>_. True" for h
  by (rule wire_fixed [where m = "''frame truncated or incomplete''"]) (simp_all add: wsm1_read_be64_eq)

text \<open>\<^verbatim>\<open>take(1, ...)\<close> followed by \<^verbatim>\<open>frame[offset++]\<close>.\<close>

definition wsm1_read_byte :: "bytes \<Rightarrow> nat \<Rightarrow> (u8 \<times> nat) res" where
  "wsm1_read_byte f off = res_bind (wsm1_take 1 (length f) off) (\<lambda>_. Inr (f ! off, off + 1))"

interpretation wsm1_byte: wire_field "\<lambda>b. [b]" wsm1_read_byte "\<lambda>_. True"
  by (rule wire_byte) (simp add: wsm1_read_byte_def wsm1_take_def)

interpretation wsm1_string: wire_field prefixed16 "wsm1_read_string h limits" "wsm1_string_ok limits"
  for h limits
  unfolding wsm1_string_ok_def [abs_def]
  by (rule wire_prefixed16) (auto simp: wsm1_read_string_def wsm1_read_be16_def wsm1_take_def Let_def
      res_bind_assoc be_word_load_16 intro!: take_or_cong)

interpretation wsm1_blob: wire_field prefixed32 "wsm1_read_blob h limits" "wsm1_blob_ok limits"
  for h limits
  unfolding wsm1_blob_ok_def [abs_def]
  by (rule wire_prefixed32) (auto simp: wsm1_read_blob_def wsm1_read_be32_def wsm1_take_def Let_def
      res_bind_assoc be_word_load_32 intro!: take_or_cong)

lemma wsm1_buffer_wire:
  "wire_field wsm1_buffer_bytes (wsm1_read_buffer h limits) (\<lambda>d. wsm1_string_ok limits (bd_name d))"
proof -
  note w = wire_seq [OF wsm1_be32.wire_field_axioms [of h] wire_seq [OF wsm1_be32.wire_field_axioms [of h]
    wire_seq [OF wsm1_be64.wire_field_axioms [of h] wire_seq [OF wsm1_be64.wire_field_axioms [of h]
      wsm1_string.wire_field_axioms [of h limits]]]]]
  let ?mk = "\<lambda>(i, fl, o', l, n). \<lparr> bd_buffer_id = i, bd_flags = fl, bd_offset = o', bd_length = l, bd_name = n \<rparr>"
  let ?unmk = "\<lambda>d. (bd_buffer_id d, bd_flags d, bd_offset d, bd_length d, bd_name d)"
  show ?thesis
    using wire_convert [OF w, where rd = "wsm1_read_buffer h limits" and mk = ?mk and unmk = ?unmk
        and ok' = "\<lambda>d. wsm1_string_ok limits (bd_name d)"]
    by (simp add: wsm1_read_buffer_def seq_rd_norm wsm1_buffer_bytes_def [abs_def] split: prod.splits)
qed

interpretation wsm1_buffer: wire_field wsm1_buffer_bytes "wsm1_read_buffer h limits"
  "\<lambda>d. wsm1_string_ok limits (bd_name d)" for h limits
  by (rule wsm1_buffer_wire)

interpretation wsm1_buffers: wire_repeat wsm1_buffer_bytes "wsm1_read_buffer h limits"
  "\<lambda>d. wsm1_string_ok limits (bd_name d)" "wsm1_read_buffers h limits" for h limits
  by unfold_locales simp_all

lemma wsm1_buffer_count_wire:
  "wire_field (\<lambda>n. be_bytes 2 (word_of_nat n :: u16))
     (\<lambda>f off. res_bind (wsm1_read_be16 h f off) (\<lambda>(count, off).
        if unat count > wl_max_buffers limits then Inl ''buffer descriptor count exceeds configured limit''
        else Inr (unat count, off)))
     (\<lambda>n. n \<le> wl_max_buffers limits \<and> n < 2 ^ 16)"
proof (rule wire_convert [where mk = unat])
  show "wire_field (be_bytes 2) (\<lambda>f off. res_bind (wsm1_read_be16 h f off) (\<lambda>(count, off).
      if unat count > wl_max_buffers limits then Inl ''buffer descriptor count exceeds configured limit''
      else Inr (count, off))) (\<lambda>c. True \<and> \<not> unat c > wl_max_buffers limits)"
    by (rule wire_guard [OF wsm1_be16.wire_field_axioms [of h]]) simp
next
  fix n
  have "unat (word_of_nat n :: u16) = n \<longleftrightarrow> n < 2 ^ 16"
    using unsigned_less [of "word_of_nat n :: u16", where 'a = nat] by (auto simp: unat_of_nat)
  then show "(n \<le> wl_max_buffers limits \<and> n < 2 ^ 16) \<longleftrightarrow>
      (True \<and> \<not> unat (word_of_nat n :: u16) > wl_max_buffers limits) \<and> unat (word_of_nat n :: u16) = n"
    by auto
qed (auto simp: res_bind_assoc split: prod.splits intro!: arg_cong [where f = "res_bind _"] ext)

interpretation wsm1_descriptors: wire_field wsm1_buffers_bytes "wsm1_read_buffer_descriptors h limits"
  "wsm1_buffers_ok limits" for h limits
proof -
  have "wire_field (\<lambda>ds. be_bytes 2 (word_of_nat (length ds) :: u16) @ concat (map wsm1_buffer_bytes ds))
      (\<lambda>f off. res_bind (res_bind (wsm1_read_be16 h f off) (\<lambda>(count, off).
        if unat count > wl_max_buffers limits then Inl ''buffer descriptor count exceeds configured limit''
        else Inr (unat count, off))) (\<lambda>(n, off). wsm1_read_buffers h limits n f off))
      (\<lambda>ds. (length ds \<le> wl_max_buffers limits \<and> length ds < 2 ^ 16) \<and>
        list_all (\<lambda>d. wsm1_string_ok limits (bd_name d)) ds)"
    by (rule wire_counted [OF wsm1_buffer_count_wire wsm1_buffers.repeat_wire_field])
  then show "wire_field wsm1_buffers_bytes (wsm1_read_buffer_descriptors h limits) (wsm1_buffers_ok limits)"
    by (simp add: wsm1_buffers_bytes_def [abs_def] wsm1_read_buffer_descriptors_def [abs_def]
        wsm1_buffers_ok_def [abs_def] res_bind_assoc cong: if_cong)
qed

subsection \<open>The header\<close>

lemma wsm1_decode_header_iff:
  "wsm1_decode_header h limits t f 0 = Inr (b, off) \<longleftrightarrow>
     off = 8 \<and> length f \<le> wl_max_frame_bytes limits \<and> (\<exists>r. f = wsm1_header t b @ r)"
proof (cases "8 \<le> length f")
  case True
  have "take 8 f = wsm1_header t b \<longleftrightarrow> be_word (bytes_at f 0 4) = WASM_MAGIC \<and>
      be_word (bytes_at f 4 2) = WASM_PROTOCOL_VERSION \<and> f ! 6 = wasm_message_type_raw t \<and> f ! 7 = b"
    using True by (simp add: split_header wsm1_header_def be_word_eq_iff)
  moreover have "take 8 f = wsm1_header t b \<longleftrightarrow> (\<exists>r. f = wsm1_header t b @ r)"
    by (metis append_eq_conv_conj append_take_drop_id length_wsm1_header)
  ultimately show ?thesis
    using True
    by (auto simp: wsm1_decode_header_def wsm1_take_def wsm1_read_be32_def wsm1_read_be16_def Let_def
        be_word_load_16 be_word_load_32)
next
  case False
  then have "f \<noteq> wsm1_header t b @ r" for r by auto
  with False show ?thesis by (simp add: wsm1_decode_header_def wsm1_take_def)
qed

subsection \<open>Task frames\<close>

definition wsm1_task_request_body :: "WasmTaskRequest \<Rightarrow> bytes" where
  "wsm1_task_request_body r = prefixed16 (tq_task_id r) @ prefixed16 (tq_sandbox_id r) @
     prefixed16 (tq_module_id r) @ prefixed16 (tq_module_version r) @ prefixed16 (tq_task_kind r) @
     [tq_priority r] @ be_bytes 8 (tq_deadline_ms r) @ wsm1_buffers_bytes (tq_buffer_descriptors r) @
     prefixed32 (tq_payload r)"

definition wsm1_task_response_body :: "WasmTaskResponse \<Rightarrow> bytes" where
  "wsm1_task_response_body r = be_bytes 2 (tr_protocol_version r) @ prefixed16 (tr_task_id r) @
     be_bytes 4 (tr_selected_gpu r) @ be_bytes 8 (tr_latency_ms r) @ prefixed16 (tr_error r) @
     wsm1_buffers_bytes (tr_buffer_descriptors r) @ prefixed32 (tr_result r)"

lemma encode_wasm_task_request_iff:
  "encode_wasm_task_request h r limits = Inr f \<longleftrightarrow>
     f = wsm1_header TaskRequest 0 @ wsm1_task_request_body r \<and> length f \<le> wl_max_frame_bytes limits \<and>
     list_all (\<lambda>s. s \<noteq> [] \<and> wsm1_string_ok limits s)
       [tq_task_id r, tq_sandbox_id r, tq_module_id r, tq_module_version r, tq_task_kind r] \<and>
     wsm1_buffers_ok limits (tq_buffer_descriptors r) \<and> wsm1_blob_ok limits (tq_payload r)"
  by (auto simp: encode_wasm_task_request_def res_bind_Inr_iff Let_def wsm1_append_simps
      wsm1_task_request_body_def)

lemma encode_wasm_task_response_iff:
  "encode_wasm_task_response h r limits = Inr f \<longleftrightarrow>
     f = wsm1_header TaskResponse (wasm_task_status_raw (tr_status r)) @ wsm1_task_response_body r \<and>
     length f \<le> wl_max_frame_bytes limits \<and>
     wsm1_string_ok limits (tr_task_id r) \<and> wsm1_string_ok limits (tr_error r) \<and>
     wsm1_buffers_ok limits (tr_buffer_descriptors r) \<and> wsm1_blob_ok limits (tr_result r)"
  by (auto simp: encode_wasm_task_response_def res_bind_Inr_iff Let_def wsm1_append_simps
      wsm1_task_response_body_def)

lemmas wsm1_string_seq = wire_seq [OF wsm1_string.wire_field_axioms [of h limits]] for h limits

lemmas wsm1_task_request_wire =
  wsm1_string_seq [OF wsm1_string_seq [OF wsm1_string_seq [OF wsm1_string_seq [OF wsm1_string_seq [OF
    wire_seq [OF wsm1_byte.wire_field_axioms wire_seq [OF wsm1_be64.wire_field_axioms [of h]
    wire_seq [OF wsm1_descriptors.wire_field_axioms [of h limits] wsm1_blob.wire_field_axioms [of h limits]]]]]]]],
    of h limits h limits h limits h limits h limits] for h limits

lemma decode_wasm_task_request_iff:
  "decode_wasm_task_request h f limits = Inr r \<longleftrightarrow>
     (\<exists>b. f = wsm1_header TaskRequest b @ wsm1_task_request_body r) \<and> length f \<le> wl_max_frame_bytes limits \<and>
     list_all (\<lambda>s. s \<noteq> [] \<and> wsm1_string_ok limits s)
       [tq_task_id r, tq_sandbox_id r, tq_module_id r, tq_module_version r, tq_task_kind r] \<and>
     wsm1_buffers_ok limits (tq_buffer_descriptors r) \<and> wsm1_blob_ok limits (tq_payload r)"
proof -
  let ?fin = "\<lambda>b (t, s, m, v, k, p, d, bs, pl).
    if t = [] \<or> s = [] \<or> m = [] \<or> v = [] \<or> k = []
    then Inl ''task_id, sandbox_id, module_id, module_version, and task_kind must be non-empty''
    else Inr \<lparr> tq_task_id = t, tq_sandbox_id = s, tq_module_id = m, tq_module_version = v,
      tq_task_kind = k, tq_priority = p, tq_deadline_ms = d, tq_buffer_descriptors = bs, tq_payload = pl \<rparr>"
  show ?thesis
    by (subst framed_decode_iff [OF wsm1_task_request_wire [of h limits], where fin = ?fin and
          m = "''task request frame contains trailing bytes''" and hdr = "wsm1_decode_header h limits TaskRequest f 0"
          and H = "wsm1_header TaskRequest" and n = 8 and lim = "wl_max_frame_bytes limits"])
      (cases r; auto simp: decode_wasm_task_request_def wsm1_read_byte_def seq_rd_norm Let_def
        wsm1_decode_header_iff wsm1_task_request_body_def cong: if_cong)+
qed

lemmas wsm1_task_response_wire =
  wire_seq [OF wsm1_be16.wire_field_axioms [of h] wsm1_string_seq [OF
    wire_seq [OF wsm1_be32.wire_field_axioms [of h] wire_seq [OF wsm1_be64.wire_field_axioms [of h]
    wsm1_string_seq [OF wire_seq [OF wsm1_descriptors.wire_field_axioms [of h limits]
      wsm1_blob.wire_field_axioms [of h limits]]]]], of h limits h limits]] for h limits

lemma decode_wasm_task_response_iff:
  "decode_wasm_task_response h f limits = Inr r \<longleftrightarrow>
     encode_wasm_task_response h' r limits = Inr f \<and> canonical_task_status (tr_status r)"
proof -
  let ?fin = "\<lambda>b (v, t, g, l, e, bs, pl).
    Inr \<lparr> tr_task_id = t, tr_status = wasm_task_status_of_raw b, tr_protocol_version = v,
      tr_selected_gpu = g, tr_latency_ms = l, tr_buffer_descriptors = bs, tr_result = pl, tr_error = e \<rparr>"
  show ?thesis
    unfolding encode_wasm_task_response_iff
    by (subst framed_decode_iff [OF wsm1_task_response_wire [of h limits], where fin = ?fin and
          m = "''task response frame contains trailing bytes''" and hdr = "wsm1_decode_header h limits TaskResponse f 0"
          and H = "wsm1_header TaskResponse" and n = 8 and lim = "wl_max_frame_bytes limits"])
      (cases r; auto simp: decode_wasm_task_response_def seq_rd_norm Let_def canonical_defs
        wsm1_decode_header_iff wsm1_task_response_body_def)+
qed

subsection \<open>Lifecycle frames\<close>

definition wsm1_lifecycle_request_body :: "WasmLifecycleRequest \<Rightarrow> bytes" where
  "wsm1_lifecycle_request_body r = prefixed16 (lq_request_id r) @ prefixed16 (lq_sandbox_id r) @
     prefixed16 (lq_module_id r) @ prefixed16 (lq_module_version r) @ be_bytes 4 (lq_target_gpu r) @
     be_bytes 4 (lq_grace_period_ms r) @ prefixed16 (lq_ack_token r) @ prefixed32 (lq_payload r)"

definition wsm1_lifecycle_response_body :: "WasmLifecycleResponse \<Rightarrow> bytes" where
  "wsm1_lifecycle_response_body r = [wasm_lifecycle_status_raw (lr_status r)] @
     be_bytes 2 (lr_protocol_version r) @ [wasm_module_state_raw (lr_state r)] @
     prefixed16 (lr_request_id r) @ prefixed16 (lr_sandbox_id r) @ prefixed16 (lr_module_id r) @
     prefixed16 (lr_module_version r) @ be_bytes 4 (lr_assigned_gpu r) @ be_bytes 4 (lr_active_tasks r) @
     prefixed16 (lr_lease_token r) @ prefixed16 (lr_error r)"

lemma encode_wasm_lifecycle_request_iff:
  "encode_wasm_lifecycle_request h r limits = Inr f \<longleftrightarrow>
     f = wsm1_header LifecycleRequest (wasm_lifecycle_action_raw (lq_action r)) @ wsm1_lifecycle_request_body r \<and>
     length f \<le> wl_max_frame_bytes limits \<and>
     list_all (\<lambda>s. s \<noteq> [] \<and> wsm1_string_ok limits s)
       [lq_request_id r, lq_sandbox_id r, lq_module_id r, lq_module_version r] \<and>
     wsm1_string_ok limits (lq_ack_token r) \<and> wsm1_blob_ok limits (lq_payload r)"
  by (auto simp: encode_wasm_lifecycle_request_def res_bind_Inr_iff Let_def wsm1_append_simps
      wsm1_lifecycle_request_body_def)

lemma encode_wasm_lifecycle_response_iff:
  "encode_wasm_lifecycle_response h r limits = Inr f \<longleftrightarrow>
     f = wsm1_header LifecycleResponse (wasm_lifecycle_action_raw (lr_action r)) @ wsm1_lifecycle_response_body r \<and>
     length f \<le> wl_max_frame_bytes limits \<and>
     list_all (wsm1_string_ok limits) [lr_request_id r, lr_sandbox_id r, lr_module_id r,
       lr_module_version r, lr_lease_token r, lr_error r]"
  by (auto simp: encode_wasm_lifecycle_response_def res_bind_Inr_iff Let_def wsm1_append_simps
      wsm1_lifecycle_response_body_def)

lemmas wsm1_lifecycle_request_wire =
  wsm1_string_seq [OF wsm1_string_seq [OF wsm1_string_seq [OF wsm1_string_seq [OF
    wire_seq [OF wsm1_be32.wire_field_axioms [of h] wire_seq [OF wsm1_be32.wire_field_axioms [of h]
    wsm1_string_seq [OF wsm1_blob.wire_field_axioms [of h limits], of h limits]]]]]],
    of h limits h limits h limits h limits] for h limits

lemmas wsm1_lifecycle_response_wire =
  wire_seq [OF wsm1_byte.wire_field_axioms wire_seq [OF wsm1_be16.wire_field_axioms [of h]
    wire_seq [OF wsm1_byte.wire_field_axioms
    wsm1_string_seq [OF wsm1_string_seq [OF wsm1_string_seq [OF wsm1_string_seq [OF
      wire_seq [OF wsm1_be32.wire_field_axioms [of h] wire_seq [OF wsm1_be32.wire_field_axioms [of h]
      wsm1_string_seq [OF wsm1_string.wire_field_axioms [of h limits], of h limits]]]]]],
      of h limits h limits h limits h limits]]]] for h limits

lemma decode_wasm_lifecycle_request_iff:
  "decode_wasm_lifecycle_request h f limits = Inr r \<longleftrightarrow>
     encode_wasm_lifecycle_request h' r limits = Inr f \<and> canonical_action (lq_action r)"
proof -
  let ?fin = "\<lambda>b (i, s, m, v, g, p, a, pl).
    if i = [] \<or> s = [] \<or> m = [] \<or> v = []
    then Inl ''request_id, sandbox_id, module_id, and module_version must be non-empty''
    else Inr \<lparr> lq_action = wasm_lifecycle_action_of_raw b, lq_request_id = i, lq_sandbox_id = s,
      lq_module_id = m, lq_module_version = v, lq_target_gpu = g, lq_grace_period_ms = p,
      lq_ack_token = a, lq_payload = pl \<rparr>"
  show ?thesis
    unfolding encode_wasm_lifecycle_request_iff
    by (subst framed_decode_iff [OF wsm1_lifecycle_request_wire [of h limits], where fin = ?fin and
          m = "''lifecycle request frame contains trailing bytes''"
          and hdr = "wsm1_decode_header h limits LifecycleRequest f 0"
          and H = "wsm1_header LifecycleRequest" and n = 8 and lim = "wl_max_frame_bytes limits"])
      (cases r; auto simp: decode_wasm_lifecycle_request_def seq_rd_norm Let_def canonical_defs
        wsm1_decode_header_iff wsm1_lifecycle_request_body_def)+
qed

lemma decode_wasm_lifecycle_response_iff:
  "decode_wasm_lifecycle_response h f limits = Inr r \<longleftrightarrow>
     encode_wasm_lifecycle_response h' r limits = Inr f \<and> canonical_action (lr_action r) \<and>
     canonical_lifecycle_status (lr_status r) \<and> canonical_module_state (lr_state r)"
proof -
  let ?fin = "\<lambda>b (st, v, ms, i, s, m, mv, g, n, lt, e).
    Inr \<lparr> lr_action = wasm_lifecycle_action_of_raw b, lr_status = wasm_lifecycle_status_of_raw st,
      lr_protocol_version = v, lr_request_id = i, lr_sandbox_id = s, lr_module_id = m,
      lr_module_version = mv, lr_assigned_gpu = g, lr_active_tasks = n,
      lr_state = wasm_module_state_of_raw ms, lr_lease_token = lt, lr_error = e \<rparr>"
  show ?thesis
    unfolding encode_wasm_lifecycle_response_iff
    by (subst framed_decode_iff [OF wsm1_lifecycle_response_wire [of h limits], where fin = ?fin and
          m = "''lifecycle response frame contains trailing bytes''"
          and hdr = "wsm1_decode_header h limits LifecycleResponse f 0"
          and H = "wsm1_header LifecycleResponse" and n = 8 and lim = "wl_max_frame_bytes limits"])
      (cases r; auto simp: decode_wasm_lifecycle_response_def wsm1_read_byte_def seq_rd_norm Let_def
        canonical_defs wsm1_decode_header_iff wsm1_lifecycle_response_body_def)+
qed

subsection \<open>Properties\<close>

lemma wsm1_header_update: "(wsm1_header t b @ r)[7 := c] = wsm1_header t c @ r"
  by (simp add: wsm1_header_def list_update_append)

lemma wsm1_header_any_byte:
  "(\<exists>b. f = wsm1_header t b @ r) \<longleftrightarrow> f[7 := c] = wsm1_header t c @ r"
proof
  assume eq: "f[7 := c] = wsm1_header t c @ r"
  have "f = (f[7 := c])[7 := f ! 7]" by simp
  also have "\<dots> = wsm1_header t (f ! 7) @ r" unfolding eq by (rule wsm1_header_update)
  finally show "\<exists>b. f = wsm1_header t b @ r" by blast
qed (auto simp: wsm1_header_update)

text \<open>C27. The WSM1 task-request decoder accepts exactly the encoder's frames, up to the flags byte at
  offset 7 of the header, which the decoder reads and ignores: a frame decodes to \<open>r\<close> if and only if
  encoding \<open>r\<close> gives that frame with the flags byte set to 0.  The two hosts' byte orders and the
  limits are arbitrary.\<close>

theorem wsm1_task_request_codec:
  "decode_wasm_task_request h f limits = Inr r \<longleftrightarrow>
     encode_wasm_task_request h' r limits = Inr (f[7 := 0])"
  unfolding decode_wasm_task_request_iff encode_wasm_task_request_iff
  by (simp add: wsm1_header_any_byte [where c = 0])

end
