(* ===== verification/Wasm_Manager.thy ===== *)
theory Wasm_Manager
  imports Wasm_Protocol "HOL-Library.Multiset"
begin

text \<open>
  \<^verbatim>\<open>WasmSandboxManager\<close>: the second half of \<^verbatim>\<open>src/wasm_sandbox.cpp\<close>.  The manager's fields are a
  record; each section of code under \<^verbatim>\<open>mutex_\<close> is one definition, so \<^verbatim>\<open>handle_task\<close> is the
  composition of an entry section, the computation outside the lock and an exit section.  The GPU
  selector is a callback into the broker service; it reads and changes a state \<open>'w\<close> of the caller
  and may throw.  The compute kernel and the elapsed time are arguments.

  The step relation \<open>wasm_step\<close> interleaves the locked sections of any number of threads.  Its
  invariant ties the in-flight counter of each module version to the threads that run on it.
\<close>

subsection \<open>State\<close>

record ModuleRecord =
  mr_sandbox_id :: string
  mr_module_id :: string
  mr_version :: string
  mr_state :: WasmModuleState
  mr_assigned_gpu :: i32
  mr_lease_token :: string
  mr_active_tasks :: u32

type_synonym 'w GpuSelectorFn = "'w \<Rightarrow> string \<Rightarrow> i32 \<Rightarrow> i32 res \<times> 'w"

record 'w WasmSandboxManager =
  modules :: "string \<rightharpoonup> ModuleRecord"
  wm_force_cpu :: bool
  gpu_selector :: "'w GpuSelectorFn option"
  next_lease_id :: u64

definition WasmSandboxManager_init :: "bool \<Rightarrow> 'w GpuSelectorFn option \<Rightarrow> 'w WasmSandboxManager" where
  "WasmSandboxManager_init force_cpu selector =
     \<lparr> modules = Map.empty, wm_force_cpu = force_cpu, gpu_selector = selector, next_lease_id = 1 \<rparr>"

definition set_force_cpu :: "bool \<Rightarrow> 'w WasmSandboxManager \<Rightarrow> 'w WasmSandboxManager" where
  "set_force_cpu b m = m \<lparr> wm_force_cpu := b \<rparr>"

definition force_cpu :: "'w WasmSandboxManager \<Rightarrow> bool" where
  "force_cpu m = wm_force_cpu m"

definition set_gpu_selector :: "'w GpuSelectorFn option \<Rightarrow> 'w WasmSandboxManager \<Rightarrow> 'w WasmSandboxManager" where
  "set_gpu_selector f m = m \<lparr> gpu_selector := f \<rparr>"

definition make_key :: "string \<Rightarrow> string \<Rightarrow> string \<Rightarrow> string" where
  "make_key sandbox_id module_id version = sandbox_id @ '':'' @ module_id @ '':'' @ version"

subsection \<open>Lifecycle operations\<close>

text \<open>The fields every lifecycle response copies from its request.\<close>

definition lifecycle_response :: "WasmLifecycleAction \<Rightarrow> WasmLifecycleRequest \<Rightarrow> WasmLifecycleResponse" where
  "lifecycle_response action request = WasmLifecycleResponse_default
     \<lparr> lr_action := action, lr_request_id := lq_request_id request, lr_sandbox_id := lq_sandbox_id request,
       lr_module_id := lq_module_id request, lr_module_version := lq_module_version request,
       lr_protocol_version := WASM_PROTOCOL_VERSION \<rparr>"

definition request_key :: "WasmLifecycleRequest \<Rightarrow> string" where
  "request_key request = make_key (lq_sandbox_id request) (lq_module_id request) (lq_module_version request)"

definition lease_string :: "string \<Rightarrow> string \<Rightarrow> string \<Rightarrow> nat \<Rightarrow> string" where
  "lease_string sandbox_id module_id version n =
     ''lease-'' @ sandbox_id @ ''-'' @ module_id @ ''-'' @ version @ ''-'' @ to_string n"

text \<open>The rest of \<^verbatim>\<open>prepare_module\<close> once no live record is in the way.\<close>

definition prepare_register ::
  "'w WasmSandboxManager \<Rightarrow> WasmLifecycleRequest \<Rightarrow> 'w \<Rightarrow> WasmLifecycleResponse res \<times> 'w WasmSandboxManager \<times> 'w"
where
  "prepare_register m request w =
     (let key = request_key request;
          (assigned_gpu, w) =
            (if 0 \<le> sint (lq_target_gpu request) then (Inr (lq_target_gpu request), w)
             else if wm_force_cpu m then (Inr (-1), w)
             else case gpu_selector m of
               Some sel \<Rightarrow> sel w (lq_sandbox_id request) (lq_target_gpu request)
             | None \<Rightarrow> (Inr (-1), w))
      in case assigned_gpu of
        Inl e \<Rightarrow> (Inl e, m, w)
      | Inr gpu \<Rightarrow>
          (let lease = lease_string (lq_sandbox_id request) (lq_module_id request)
                 (lq_module_version request) (unat (next_lease_id m));
               rec = \<lparr> mr_sandbox_id = lq_sandbox_id request, mr_module_id = lq_module_id request,
                 mr_version = lq_module_version request, mr_state = Prepared, mr_assigned_gpu = gpu,
                 mr_lease_token = lease, mr_active_tasks = 0 \<rparr>
           in (Inr (lifecycle_response Prepare request
                 \<lparr> lr_status := LifecycleOk, lr_state := Prepared, lr_assigned_gpu := gpu,
                   lr_active_tasks := 0, lr_lease_token := lease \<rparr>),
               m \<lparr> modules := (modules m)(key \<mapsto> rec), next_lease_id := next_lease_id m + 1 \<rparr>, w)))"

definition prepare_module ::
  "'w WasmSandboxManager \<Rightarrow> WasmLifecycleRequest \<Rightarrow> 'w \<Rightarrow> WasmLifecycleResponse res \<times> 'w WasmSandboxManager \<times> 'w"
where
  "prepare_module m request w =
     (let resp = lifecycle_response Prepare request in
      if lq_sandbox_id request = [] \<or> lq_module_id request = [] \<or> lq_module_version request = [] then
        (Inr (resp \<lparr> lr_status := LifecycleRejected,
           lr_error := ''sandbox_id, module_id, and module_version must be non-empty'' \<rparr>), m, w)
      else case modules m (request_key request) of
        None \<Rightarrow> prepare_register m request w
      | Some rec \<Rightarrow>
          if mr_state rec = Prepared \<or> mr_state rec = Active then
            (Inr (resp \<lparr> lr_status := LifecycleOk, lr_state := mr_state rec,
               lr_assigned_gpu := mr_assigned_gpu rec, lr_active_tasks := mr_active_tasks rec,
               lr_lease_token := mr_lease_token rec \<rparr>), m, w)
          else if mr_state rec = Draining \<or> mr_state rec = Stopped then
            (Inr (resp \<lparr> lr_status := LifecycleBusy, lr_state := mr_state rec, lr_error :=
               ''module version is currently draining or stopped; cannot prepare until released'' \<rparr>), m, w)
          else prepare_register m request w)"

definition drain_module ::
  "'w WasmSandboxManager \<Rightarrow> WasmLifecycleRequest \<Rightarrow> WasmLifecycleResponse \<times> 'w WasmSandboxManager" where
  "drain_module m request =
     (let resp = lifecycle_response Drain request; key = request_key request in
      case modules m key of
        None \<Rightarrow> (resp \<lparr> lr_status := LifecycleNotFound, lr_error := ''module version not registered'' \<rparr>, m)
      | Some rec \<Rightarrow>
          if mr_state rec = Released then
            (resp \<lparr> lr_status := LifecycleNotFound, lr_error := ''module version already released'' \<rparr>, m)
          else
            (let rec = rec \<lparr> mr_state := if mr_active_tasks rec = 0 then Stopped else Draining \<rparr> in
             (resp \<lparr> lr_status := LifecycleOk, lr_state := mr_state rec,
                lr_assigned_gpu := mr_assigned_gpu rec, lr_active_tasks := mr_active_tasks rec,
                lr_lease_token := mr_lease_token rec \<rparr>,
              m \<lparr> modules := (modules m)(key \<mapsto> rec) \<rparr>)))"

definition release_module ::
  "'w WasmSandboxManager \<Rightarrow> WasmLifecycleRequest \<Rightarrow> WasmLifecycleResponse \<times> 'w WasmSandboxManager" where
  "release_module m request =
     (let resp = lifecycle_response Release request; key = request_key request in
      case modules m key of
        None \<Rightarrow> (resp \<lparr> lr_status := LifecycleNotFound, lr_error := ''module version not registered'' \<rparr>, m)
      | Some rec \<Rightarrow>
          if mr_active_tasks rec > 0 then
            (resp \<lparr> lr_status := LifecycleBusy, lr_state := mr_state rec,
               lr_active_tasks := mr_active_tasks rec, lr_assigned_gpu := mr_assigned_gpu rec,
               lr_lease_token := mr_lease_token rec, lr_error :=
               ''cannot release module version while tasks are in-flight; wait for drain to complete'' \<rparr>, m)
          else
            (resp \<lparr> lr_status := LifecycleOk, lr_state := Released,
               lr_assigned_gpu := mr_assigned_gpu rec, lr_active_tasks := 0,
               lr_lease_token := mr_lease_token rec \<rparr>,
             m \<lparr> modules := (modules m)(key := None) \<rparr>))"

definition query_module :: "'w WasmSandboxManager \<Rightarrow> WasmLifecycleRequest \<Rightarrow> WasmLifecycleResponse" where
  "query_module m request =
     (let resp = lifecycle_response Query request in
      case modules m (request_key request) of
        None \<Rightarrow> resp \<lparr> lr_status := LifecycleNotFound, lr_state := StateUnknown,
          lr_error := ''module version not registered'' \<rparr>
      | Some rec \<Rightarrow> resp \<lparr> lr_status := LifecycleOk, lr_state := mr_state rec,
          lr_assigned_gpu := mr_assigned_gpu rec, lr_active_tasks := mr_active_tasks rec,
          lr_lease_token := mr_lease_token rec \<rparr>)"

definition handle_lifecycle ::
  "'w WasmSandboxManager \<Rightarrow> WasmLifecycleRequest \<Rightarrow> 'w \<Rightarrow> WasmLifecycleResponse res \<times> 'w WasmSandboxManager \<times> 'w"
where
  "handle_lifecycle m request w =
     (case lq_action request of
        Prepare \<Rightarrow> prepare_module m request w
      | Drain \<Rightarrow> (case drain_module m request of (resp, m) \<Rightarrow> (Inr resp, m, w))
      | Release \<Rightarrow> (case release_module m request of (resp, m) \<Rightarrow> (Inr resp, m, w))
      | Query \<Rightarrow> (Inr (query_module m request), m, w)
      | ActionRaw b \<Rightarrow> (Inr (WasmLifecycleResponse_default
          \<lparr> lr_action := lq_action request, lr_status := LifecycleError,
            lr_request_id := lq_request_id request, lr_sandbox_id := lq_sandbox_id request,
            lr_module_id := lq_module_id request, lr_module_version := lq_module_version request,
            lr_error := ''unknown lifecycle action'' \<rparr>), m, w))"

definition is_module_active :: "'w WasmSandboxManager \<Rightarrow> string \<Rightarrow> string \<Rightarrow> string \<Rightarrow> bool" where
  "is_module_active m sandbox_id module_id version =
     (case modules m (make_key sandbox_id module_id version) of
        None \<Rightarrow> False | Some rec \<Rightarrow> mr_state rec = Prepared \<or> mr_state rec = Active)"

definition get_module_state :: "'w WasmSandboxManager \<Rightarrow> string \<Rightarrow> string \<Rightarrow> string \<Rightarrow> WasmModuleState" where
  "get_module_state m sandbox_id module_id version =
     (case modules m (make_key sandbox_id module_id version) of
        None \<Rightarrow> StateUnknown | Some rec \<Rightarrow> mr_state rec)"

definition get_active_tasks :: "'w WasmSandboxManager \<Rightarrow> string \<Rightarrow> string \<Rightarrow> string \<Rightarrow> u32" where
  "get_active_tasks m sandbox_id module_id version =
     (case modules m (make_key sandbox_id module_id version) of None \<Rightarrow> 0 | Some rec \<Rightarrow> mr_active_tasks rec)"

subsection \<open>Tasks\<close>

definition task_key :: "WasmTaskRequest \<Rightarrow> string" where
  "task_key request = make_key (tq_sandbox_id request) (tq_module_id request) (tq_module_version request)"

definition task_response :: "WasmTaskRequest \<Rightarrow> WasmTaskResponse" where
  "task_response request = WasmTaskResponse_default
     \<lparr> tr_task_id := tq_task_id request, tr_protocol_version := WASM_PROTOCOL_VERSION,
       tr_buffer_descriptors := tq_buffer_descriptors request \<rparr>"

text \<open>The entry section: \<open>Inl\<close> an early return, \<open>Inr\<close> the module's GPU.\<close>

definition task_enter ::
  "'w WasmSandboxManager \<Rightarrow> WasmTaskRequest \<Rightarrow> (WasmTaskResponse + i32) \<times> 'w WasmSandboxManager" where
  "task_enter m request =
     (let resp = task_response request; key = task_key request; version = tq_module_version request in
      case modules m key of
        None \<Rightarrow> (Inl (resp \<lparr> tr_status := ModuleNotFound,
          tr_error := ''module version '' @ version @ '' is not registered'' \<rparr>), m)
      | Some rec \<Rightarrow>
          if mr_state rec = Draining then
            (Inl (resp \<lparr> tr_status := ModuleDraining,
               tr_error := ''module version '' @ version @ '' is draining; hotswap in progress'' \<rparr>), m)
          else if mr_state rec = Stopped \<or> mr_state rec = Released then
            (Inl (resp \<lparr> tr_status := TaskRejected,
               tr_error := ''module version '' @ version @ '' is stopped or released'' \<rparr>), m)
          else
            (let rec = rec \<lparr> mr_state := Active, mr_active_tasks := mr_active_tasks rec + 1 \<rparr> in
             (Inr (mr_assigned_gpu rec), m \<lparr> modules := (modules m)(key \<mapsto> rec) \<rparr>)))"

text \<open>\<^verbatim>\<open>std::memcpy\<close> between a byte vector and a vector of doubles, which are their bit patterns.\<close>

fun host_doubles :: "endian \<Rightarrow> bytes \<Rightarrow> u64 list" where
  "host_doubles h bs = (if length bs < 8 then [] else load h (take 8 bs) # host_doubles h (drop 8 bs))"

declare host_doubles.simps [simp del]

definition host_bytes :: "endian \<Rightarrow> u64 list \<Rightarrow> bytes" where
  "host_bytes h xs = concat (map (store h 8) xs)"

text \<open>The computation outside the lock.  \<open>gpu_compute\<close> is \<^verbatim>\<open>nvlink::adi::default_gpu_compute\<close>.\<close>

definition task_run ::
  "endian \<Rightarrow> (u64 list \<Rightarrow> i32 \<Rightarrow> u64 list res) \<Rightarrow> (i32 \<Rightarrow> WasmTaskRequest \<Rightarrow> bytes res) option \<Rightarrow>
   u64 \<Rightarrow> WasmTaskRequest \<Rightarrow> i32 \<Rightarrow> WasmTaskResponse" where
  "task_run h gpu_compute compute_fn elapsed_ms request assigned_gpu =
     (let resp = (task_response request) \<lparr> tr_selected_gpu := assigned_gpu \<rparr>;
          payload = tq_payload request;
          outcome =
            (case compute_fn of
               Some f \<Rightarrow> f assigned_gpu request
             | None \<Rightarrow>
                 if payload \<noteq> [] then
                   if length payload mod 8 = 0 then
                     (let compute_gpu = if 0 \<le> sint assigned_gpu then assigned_gpu else 0 in
                      res_bind (gpu_compute (host_doubles h payload) compute_gpu) (\<lambda>out.
                      Inr (host_bytes h out)))
                   else Inr payload
                 else Inr []);
          resp = (case outcome of
               Inr result \<Rightarrow> resp \<lparr> tr_result := result, tr_status := TaskOk \<rparr>
             | Inl e \<Rightarrow> resp \<lparr> tr_status := TaskError, tr_error := e \<rparr>)
      in resp \<lparr> tr_latency_ms := elapsed_ms \<rparr>)"

text \<open>The exit section.\<close>

definition task_leave :: "string \<Rightarrow> 'w WasmSandboxManager \<Rightarrow> 'w WasmSandboxManager" where
  "task_leave key m =
     (case modules m key of
        None \<Rightarrow> m
      | Some rec \<Rightarrow>
          (let rec = (if mr_active_tasks rec > 0 then rec \<lparr> mr_active_tasks := mr_active_tasks rec - 1 \<rparr> else rec);
               rec = (if mr_state rec = Draining \<and> mr_active_tasks rec = 0 then rec \<lparr> mr_state := Stopped \<rparr> else rec)
           in m \<lparr> modules := (modules m)(key \<mapsto> rec) \<rparr>))"

definition handle_task ::
  "endian \<Rightarrow> (u64 list \<Rightarrow> i32 \<Rightarrow> u64 list res) \<Rightarrow> (i32 \<Rightarrow> WasmTaskRequest \<Rightarrow> bytes res) option \<Rightarrow>
   u64 \<Rightarrow> 'w WasmSandboxManager \<Rightarrow> WasmTaskRequest \<Rightarrow> WasmTaskResponse \<times> 'w WasmSandboxManager" where
  "handle_task h gpu_compute compute_fn elapsed_ms m request =
     (case task_enter m request of
        (Inl resp, m) \<Rightarrow> (resp, m)
      | (Inr gpu, m) \<Rightarrow>
          (task_run h gpu_compute compute_fn elapsed_ms request gpu, task_leave (task_key request) m))"

end
