(* ===== verification/Wasm_Hotswap.thy ===== *)
theory Wasm_Hotswap
  imports Wasm_Manager
begin

text \<open>
  Correctness of the module manager.  First the local invariant of a module record and its
  preservation by every locked section; then the abstract view of a module version (open or closing,
  and how many tasks run on it), with the interface locale \<open>hotswap\<close> that the sections satisfy; then
  the interleaving semantics and the invariant that the in-flight counters are exact.
\<close>

subsection \<open>The invariant of a module record\<close>

definition module_ok :: "ModuleRecord \<Rightarrow> bool" where
  "module_ok rec = (case mr_state rec of
     Prepared \<Rightarrow> mr_active_tasks rec = 0
   | Active \<Rightarrow> True
   | Draining \<Rightarrow> mr_active_tasks rec \<noteq> 0
   | Stopped \<Rightarrow> mr_active_tasks rec = 0
   | _ \<Rightarrow> False)"

definition manager_ok :: "'w WasmSandboxManager \<Rightarrow> bool" where
  "manager_ok m \<longleftrightarrow> (\<forall>k rec. modules m k = Some rec \<longrightarrow> module_ok rec)"

lemma manager_okD: "manager_ok m \<Longrightarrow> modules m k = Some rec \<Longrightarrow> module_ok rec"
  by (auto simp: manager_ok_def)

lemma manager_ok_init [simp]: "manager_ok (WasmSandboxManager_init b sel)"
  by (simp add: manager_ok_def WasmSandboxManager_init_def)

lemma manager_ok_setters [simp]:
  "manager_ok (set_force_cpu b m) \<longleftrightarrow> manager_ok m" "manager_ok (set_gpu_selector f m) \<longleftrightarrow> manager_ok m"
  by (simp_all add: manager_ok_def set_force_cpu_def set_gpu_selector_def)

text \<open>Under the invariant a record is never in one of the other states, so preparing never replaces a record.\<close>

lemma module_ok_states:
  "module_ok rec \<Longrightarrow> mr_state rec \<in> {Prepared, Active, Draining, Stopped}"
  by (cases "mr_state rec") (auto simp: module_ok_def)

definition fresh_record :: "'w WasmSandboxManager \<Rightarrow> WasmLifecycleRequest \<Rightarrow> i32 \<Rightarrow> ModuleRecord" where
  "fresh_record m r gpu = \<lparr> mr_sandbox_id = lq_sandbox_id r, mr_module_id = lq_module_id r,
     mr_version = lq_module_version r, mr_state = Prepared, mr_assigned_gpu = gpu,
     mr_lease_token = lease_string (lq_sandbox_id r) (lq_module_id r) (lq_module_version r) (unat (next_lease_id m)),
     mr_active_tasks = 0 \<rparr>"

definition registered :: "'w WasmSandboxManager \<Rightarrow> WasmLifecycleRequest \<Rightarrow> i32 \<Rightarrow> 'w WasmSandboxManager" where
  "registered m r gpu = m \<lparr> modules := (modules m)(request_key r \<mapsto> fresh_record m r gpu),
     next_lease_id := next_lease_id m + 1 \<rparr>"

lemma prepare_register_cases:
  assumes "prepare_register m r w = (res, m', w')"
  obtains (throws) e where "res = Inl e" "m' = m"
  | (registers) gpu resp where "res = Inr resp" "lr_status resp = LifecycleOk" "lr_state resp = Prepared"
      "lr_assigned_gpu resp = gpu" "lr_lease_token resp = mr_lease_token (fresh_record m r gpu)"
      "m' = registered m r gpu"
proof -
  define sel where "sel = (if 0 \<le> sint (lq_target_gpu r) then (Inr (lq_target_gpu r), w)
      else if wm_force_cpu m then (Inr (-1), w)
      else case gpu_selector m of Some f \<Rightarrow> f w (lq_sandbox_id r) (lq_target_gpu r) | None \<Rightarrow> (Inr (-1), w))"
  obtain g w1 where sel: "sel = (g, w1)" by (cases sel)
  show thesis
  proof (cases g)
    case (Inl e)
    with assms sel have "res = Inl e \<and> m' = m"
      unfolding prepare_register_def sel_def [symmetric] Let_def by simp
    with throws show thesis by blast
  next
    case (Inr gpu)
    with assms sel have "m' = registered m r gpu" "\<exists>resp. res = Inr resp \<and> lr_status resp = LifecycleOk \<and>
        lr_state resp = Prepared \<and> lr_assigned_gpu resp = gpu \<and>
        lr_lease_token resp = mr_lease_token (fresh_record m r gpu)"
      unfolding prepare_register_def sel_def [symmetric] Let_def registered_def fresh_record_def by auto
    with registers show thesis by blast
  qed
qed

lemma modules_registered:
  "modules (registered m r gpu) = (modules m)(request_key r \<mapsto> fresh_record m r gpu)"
  "next_lease_id (registered m r gpu) = next_lease_id m + 1"
  by (simp_all add: registered_def)

lemma fresh_record_simps [simp]:
  "mr_state (fresh_record m r gpu) = Prepared" "mr_active_tasks (fresh_record m r gpu) = 0"
  "mr_sandbox_id (fresh_record m r gpu) = lq_sandbox_id r" "mr_module_id (fresh_record m r gpu) = lq_module_id r"
  "mr_version (fresh_record m r gpu) = lq_module_version r"
  by (simp_all add: fresh_record_def)

lemma prepare_module_cases:
  assumes "prepare_module m r w = (res, m', w')" "manager_ok m"
  obtains (unchanged) "m' = m" | (registered) "modules m (request_key r) = None"
    "prepare_register m r w = (res, m', w')"
proof (cases "modules m (request_key r)")
  case None
  with assms(1) that show thesis by (auto simp: prepare_module_def Let_def split: if_splits)
next
  case (Some rec)
  with assms manager_okD [OF assms(2) Some] that show thesis
    by (auto simp: prepare_module_def Let_def dest!: module_ok_states split: if_splits)
qed

lemma manager_ok_update:
  "manager_ok m \<Longrightarrow> module_ok rec \<Longrightarrow> manager_ok (m \<lparr> modules := (modules m)(k \<mapsto> rec) \<rparr>)"
  by (auto simp: manager_ok_def)

lemma manager_ok_registered: "manager_ok m \<Longrightarrow> manager_ok (registered m r gpu)"
  by (auto simp: manager_ok_def module_ok_def modules_registered)

lemma manager_ok_drain: "manager_ok m \<Longrightarrow> manager_ok (snd (drain_module m r))"
  by (auto simp: drain_module_def Let_def module_ok_def intro!: manager_ok_update split: option.split)

lemma manager_ok_release: "manager_ok m \<Longrightarrow> manager_ok (snd (release_module m r))"
  by (auto simp: release_module_def Let_def manager_ok_def split: option.split)

definition leave_record :: "ModuleRecord \<Rightarrow> ModuleRecord" where
  "leave_record rec =
     (let rec = (if mr_active_tasks rec > 0 then rec \<lparr> mr_active_tasks := mr_active_tasks rec - 1 \<rparr> else rec)
      in if mr_state rec = Draining \<and> mr_active_tasks rec = 0 then rec \<lparr> mr_state := Stopped \<rparr> else rec)"

lemma task_leave_eq:
  "task_leave k m = (case modules m k of None \<Rightarrow> m
     | Some rec \<Rightarrow> m \<lparr> modules := (modules m)(k \<mapsto> leave_record rec) \<rparr>)"
  by (simp add: task_leave_def leave_record_def Let_def split: option.split)

lemma leave_record_ok: "module_ok rec \<Longrightarrow> module_ok (leave_record rec)"
  by (cases "mr_state rec") (simp_all add: module_ok_def leave_record_def Let_def)

lemma manager_ok_leave: "manager_ok m \<Longrightarrow> manager_ok (task_leave k m)"
  by (auto simp: task_leave_eq leave_record_ok intro!: manager_ok_update dest: manager_okD split: option.split)

subsection \<open>The contract of a hot swap\<close>

text \<open>
  What the host adapter relies on.  A registered module version is open or closing and runs a number
  of tasks; draining closes it, a closing version takes no new task, a task that ends is subtracted,
  and releasing removes exactly an idle version.
\<close>

datatype phase = Open | Closing

locale hotswap =
  fixes view :: "'m \<Rightarrow> string \<Rightarrow> (phase \<times> nat) option"
    and inv :: "'m \<Rightarrow> bool"
    and rkey :: "'r \<Rightarrow> string" and tkey :: "'t \<Rightarrow> string"
    and drain :: "'r \<Rightarrow> 'm \<Rightarrow> 'm" and release :: "'r \<Rightarrow> 'm \<Rightarrow> 'm"
    and enter :: "'t \<Rightarrow> 'm \<Rightarrow> 'm" and leave :: "string \<Rightarrow> 'm \<Rightarrow> 'm"
  assumes inv_drain: "inv m \<Longrightarrow> inv (drain r m)"
    and inv_leave: "inv m \<Longrightarrow> inv (leave k m)"
    and drain_absent: "inv m \<Longrightarrow> view m (rkey r) = None \<Longrightarrow> drain r m = m"
    and drain_view: "inv m \<Longrightarrow> view m (rkey r) = Some (p, n) \<Longrightarrow>
      view (drain r m) = (view m)(rkey r \<mapsto> (Closing, n))"
    and enter_refused: "inv m \<Longrightarrow> view m (tkey t) \<notin> range (\<lambda>n. Some (Open, n)) \<Longrightarrow> enter t m = m"
    and leave_view: "inv m \<Longrightarrow> view m k = Some (p, Suc n) \<Longrightarrow> view (leave k m) = (view m)(k \<mapsto> (p, n))"
    and release_idle: "inv m \<Longrightarrow> view m (rkey r) = Some (p, 0) \<Longrightarrow>
      view (release r m) = (view m)(rkey r := None)"
    and release_busy: "inv m \<Longrightarrow> view m (rkey r) = Some (p, Suc n) \<Longrightarrow> release r m = m"
begin

text \<open>After a drain no task enters, whatever it is.\<close>

lemma drained_refuses: "inv m \<Longrightarrow> tkey t = rkey r \<Longrightarrow> enter t (drain r m) = drain r m"
proof (cases "view m (rkey r)")
  case None
  assume "inv m" "tkey t = rkey r"
  with None enter_refused [of m t] show ?thesis by (auto simp: drain_absent)
next
  case (Some pn)
  assume "inv m" "tkey t = rkey r"
  with Some show ?thesis
    by (cases pn) (auto intro!: enter_refused inv_drain simp: drain_view)
qed

text \<open>When the running tasks have left, a closing version is idle, and the others are as they were.\<close>

lemma leaves_view:
  "inv m \<Longrightarrow> view m k = Some (p, n) \<Longrightarrow> inv ((leave k ^^ n) m) \<and> view ((leave k ^^ n) m) = (view m)(k \<mapsto> (p, 0))"
proof (induction n arbitrary: m)
  case 0
  then show ?case by (auto simp: map_upd_triv)
next
  case (Suc n)
  then have "view (leave k m) = (view m)(k \<mapsto> (p, n))" "inv (leave k m)"
    by (simp_all add: leave_view inv_leave)
  with Suc.IH [of "leave k m"] show ?case by (auto simp: funpow_swap1 fun_eq_iff)
qed

lemma swap_completes:
  assumes "inv m" "view m (rkey r) = Some (p, n)"
  shows "view (release r ((leave (rkey r) ^^ n) (drain r m))) = (view m)(rkey r := None)"
proof -
  from assms have d: "inv (drain r m)" "view (drain r m) = (view m)(rkey r \<mapsto> (Closing, n))"
    by (simp_all add: inv_drain drain_view)
  with leaves_view [of "drain r m" "rkey r" Closing n]
  have "inv ((leave (rkey r) ^^ n) (drain r m))"
    "view ((leave (rkey r) ^^ n) (drain r m)) = (view m)(rkey r \<mapsto> (Closing, 0))" by simp_all
  with release_idle [of "(leave (rkey r) ^^ n) (drain r m)" r Closing] show ?thesis by simp
qed

end

definition phase_of :: "WasmModuleState \<Rightarrow> phase" where
  "phase_of s = (if s = Prepared \<or> s = Active then Open else Closing)"

definition module_view :: "'w WasmSandboxManager \<Rightarrow> string \<Rightarrow> (phase \<times> nat) option" where
  "module_view m k = map_option (\<lambda>rec. (phase_of (mr_state rec), unat (mr_active_tasks rec))) (modules m k)"

lemma leave_record_view:
  "module_ok rec \<Longrightarrow> unat (mr_active_tasks rec) = Suc n \<Longrightarrow>
     phase_of (mr_state (leave_record rec)) = phase_of (mr_state rec) \<and>
     unat (mr_active_tasks (leave_record rec)) = n"
proof -
  assume ok: "module_ok rec" and n: "unat (mr_active_tasks rec) = Suc n"
  then have pos: "mr_active_tasks rec \<noteq> 0" by auto
  then have "unat (mr_active_tasks rec - 1) = n" using n by (simp add: unat_minus_one)
  with pos show ?thesis by (auto simp: leave_record_def Let_def phase_of_def word_gt_0)
qed

lemma drain_module_state:
  assumes "modules m (request_key r) = Some rec" "module_ok rec"
  shows "modules (snd (drain_module m r)) = (modules m)(request_key r \<mapsto>
    rec \<lparr> mr_state := if mr_active_tasks rec = 0 then Stopped else Draining \<rparr>)"
  using assms by (auto simp: drain_module_def Let_def dest!: module_ok_states)

lemma task_enter_refused:
  assumes "manager_ok m" "module_view m (task_key t) \<notin> range (\<lambda>n. Some (Open, n))"
  shows "snd (task_enter m t) = m"
proof (cases "modules m (task_key t)")
  case None
  then show ?thesis by (simp add: task_enter_def Let_def)
next
  case (Some rec)
  with assms have "mr_state rec = Draining \<or> mr_state rec = Stopped"
    by (auto simp: module_view_def phase_of_def dest!: manager_okD module_ok_states)
  with Some show ?thesis by (auto simp: task_enter_def Let_def)
qed

lemma module_view_upd:
  "module_view (m \<lparr> modules := (modules m)(k \<mapsto> rec) \<rparr>) =
     (module_view m)(k \<mapsto> (phase_of (mr_state rec), unat (mr_active_tasks rec)))"
  by (auto simp: module_view_def)

lemma module_view_SomeE:
  assumes "module_view m k = Some (p, n)"
  obtains rec where "modules m k = Some rec" "p = phase_of (mr_state rec)" "n = unat (mr_active_tasks rec)"
  using assms by (auto simp: module_view_def)

lemma drain_module_view:
  assumes "manager_ok m" "module_view m (request_key r) = Some (p, n)"
  shows "module_view (snd (drain_module m r)) = (module_view m)(request_key r \<mapsto> (Closing, n))"
proof -
  obtain rec where rec: "modules m (request_key r) = Some rec" "n = unat (mr_active_tasks rec)"
    using assms(2) by (rule module_view_SomeE)
  from drain_module_state [OF rec(1) manager_okD [OF assms(1) rec(1)]] rec(2) show ?thesis
    by (auto simp: module_view_def phase_of_def)
qed

lemma task_leave_view:
  assumes "manager_ok m" "module_view m k = Some (p, Suc n)"
  shows "module_view (task_leave k m) = (module_view m)(k \<mapsto> (p, n))"
proof -
  obtain rec where rec: "modules m k = Some rec" "p = phase_of (mr_state rec)" "Suc n = unat (mr_active_tasks rec)"
    using assms(2) by (rule module_view_SomeE)
  from leave_record_view [OF manager_okD [OF assms(1) rec(1)], of n] rec show ?thesis
    by (simp add: task_leave_eq module_view_upd)
qed

lemma release_module_view:
  assumes "module_view m (request_key r) = Some (p, n)"
  shows "module_view (snd (release_module m r)) =
           (if n = 0 then (module_view m)(request_key r := None) else module_view m)"
    and "n \<noteq> 0 \<Longrightarrow> snd (release_module m r) = m"
proof -
  obtain rec where rec: "modules m (request_key r) = Some rec" "n = unat (mr_active_tasks rec)"
    using assms by (rule module_view_SomeE)
  then show "module_view (snd (release_module m r)) =
      (if n = 0 then (module_view m)(request_key r := None) else module_view m)"
    and "n \<noteq> 0 \<Longrightarrow> snd (release_module m r) = m"
    by (auto simp: release_module_def Let_def module_view_def word_gt_0 unat_eq_zero)
qed

interpretation swap: hotswap module_view manager_ok request_key task_key
  "\<lambda>r m. snd (drain_module m r)" "\<lambda>r m. snd (release_module m r)" "\<lambda>t m. snd (task_enter m t)" task_leave
proof
  show "snd (drain_module m r) = m" if "module_view m (request_key r) = None" for m :: "'a WasmSandboxManager" and r
    using that by (simp add: module_view_def drain_module_def Let_def)
qed (simp_all add: manager_ok_drain manager_ok_leave drain_module_view task_enter_refused task_leave_view
    release_module_view)

subsection \<open>Interleavings\<close>

text \<open>
  A state of the running broker, as far as the manager is concerned: the manager, the caller's state
  and the multiset of keys of the tasks that are between their two locked sections.  A step is one
  locked section of some thread, or a change of the caller's state by other code.  A task enters only
  while fewer than \<open>2 ^ 32 - 1\<close> threads run tasks of its module version, the range of the counter.
\<close>

type_synonym 'w wasm_config = "'w WasmSandboxManager \<times> 'w \<times> string multiset"

inductive wasm_step :: "'w wasm_config \<Rightarrow> 'w wasm_config \<Rightarrow> bool" where
  lifecycle: "handle_lifecycle m r w = (res, m', w') \<Longrightarrow> wasm_step (m, w, F) (m', w', F)"
| refused: "task_enter m t = (Inl resp, m') \<Longrightarrow> wasm_step (m, w, F) (m', w, F)"
| entered: "task_enter m t = (Inr gpu, m') \<Longrightarrow> count F (task_key t) < 2 ^ 32 - 1 \<Longrightarrow>
    wasm_step (m, w, F) (m', w, add_mset (task_key t) F)"
| left: "k \<in># F \<Longrightarrow> wasm_step (m, w, F) (task_leave k m, w, F - {#k#})"
| force_cpu_set: "wasm_step (m, w, F) (set_force_cpu b m, w, F)"
| selector_set: "wasm_step (m, w, F) (set_gpu_selector f m, w, F)"
| caller: "wasm_step (m, w, F) (m, w', F)"

inductive wasm_run :: "nat \<Rightarrow> 'w wasm_config \<Rightarrow> bool" where
  run_start: "wasm_run 0 (WasmSandboxManager_init b sel, w, {#})"
| run_step: "wasm_run n s \<Longrightarrow> wasm_step s s' \<Longrightarrow> wasm_run (Suc n) s'"

text \<open>How many tasks the manager believes to run on a key.\<close>

definition running :: "'w WasmSandboxManager \<Rightarrow> string \<Rightarrow> nat" where
  "running m k = (case modules m k of None \<Rightarrow> 0 | Some rec \<Rightarrow> unat (mr_active_tasks rec))"

definition wasm_inv :: "'w wasm_config \<Rightarrow> bool" where
  "wasm_inv s = (case s of (m, w, F) \<Rightarrow> manager_ok m \<and> running m = count F)"

lemma running_view: "running m k = (case module_view m k of None \<Rightarrow> 0 | Some (p, n) \<Rightarrow> n)"
  by (auto simp: running_def module_view_def split: option.splits)

lemma running_upd:
  "running (m \<lparr> modules := (modules m)(k \<mapsto> rec) \<rparr>) = (running m)(k := unat (mr_active_tasks rec))"
  by (auto simp: running_def)

lemma running_registered:
  "modules m (request_key r) = None \<Longrightarrow> running (registered m r gpu) = running m"
  by (auto simp: running_def modules_registered)

lemma running_drain: "manager_ok m \<Longrightarrow> running (snd (drain_module m r)) = running m"
  by (cases "module_view m (request_key r)") (auto simp: swap.drain_absent running_view drain_module_view)

lemma running_release: "running (snd (release_module m r)) = running m"
proof (cases "module_view m (request_key r)")
  case None
  then show ?thesis by (simp add: module_view_def release_module_def Let_def)
next
  case (Some pn)
  then show ?thesis
    by (cases pn) (auto simp: running_view fun_eq_iff release_module_view)
qed

lemma running_leave:
  assumes "manager_ok m" "0 < running m k"
  shows "running (task_leave k m) = (running m)(k := running m k - 1)"
proof -
  from assms(2) obtain p n where "module_view m k = Some (p, Suc n)"
    by (auto simp: running_view gr0_conv_Suc split: option.splits)
  with assms(1) show ?thesis by (auto simp: running_view task_leave_view)
qed

lemma handle_lifecycle_cases:
  assumes "handle_lifecycle m r w = (res, m', w')" "manager_ok m"
  obtains (same) "m' = m"
  | (registered) gpu where "modules m (request_key r) = None" "m' = registered m r gpu"
  | (drained) "m' = snd (drain_module m r)"
  | (released) "m' = snd (release_module m r)"
proof (cases "lq_action r")
  case Prepare
  with assms have "prepare_module m r w = (res, m', w')" by (simp add: handle_lifecycle_def)
  from this assms(2) show thesis
  proof (cases rule: prepare_module_cases)
    case unchanged
    then show thesis by (rule same)
  next
    case registered
    from registered(2) show thesis
    proof (cases rule: prepare_register_cases)
      case throws
      then show thesis by (intro same)
    next
      case (registers gpu)
      with registered(1) show thesis by (intro that(2))
    qed
  qed
next
  case Drain
  with assms(1) show thesis by (intro drained) (auto simp: handle_lifecycle_def split: prod.splits)
next
  case Release
  with assms(1) show thesis by (intro released) (auto simp: handle_lifecycle_def split: prod.splits)
next
  case Query
  with assms(1) have "m' = m" by (simp add: handle_lifecycle_def)
  then show thesis by (rule same)
next
  case (ActionRaw b)
  with assms(1) have "m' = m" by (simp add: handle_lifecycle_def)
  then show thesis by (rule same)
qed

lemma task_enter_Inr:
  assumes "task_enter m t = (Inr gpu, m')" "manager_ok m"
  obtains rec where "modules m (task_key t) = Some rec" "phase_of (mr_state rec) = Open"
    "m' = m \<lparr> modules := (modules m)(task_key t \<mapsto>
      rec \<lparr> mr_state := Active, mr_active_tasks := mr_active_tasks rec + 1 \<rparr>) \<rparr>"
proof (cases "modules m (task_key t)")
  case (Some rec)
  from module_ok_states [OF manager_okD [OF assms(2) Some]] assms(1) Some
  have "phase_of (mr_state rec) = Open" "m' = m \<lparr> modules := (modules m)(task_key t \<mapsto>
      rec \<lparr> mr_state := Active, mr_active_tasks := mr_active_tasks rec + 1 \<rparr>) \<rparr>"
    by (auto simp: task_enter_def Let_def phase_of_def split: if_splits)
  with Some that show thesis by blast
qed (use assms(1) in \<open>simp add: task_enter_def Let_def\<close>)

lemma wasm_inv_entered:
  assumes inv: "wasm_inv (m, w, F)" and enter: "task_enter m t = (Inr gpu, m')"
    and room: "count F (task_key t) < 2 ^ 32 - 1"
  shows "wasm_inv (m', w, add_mset (task_key t) F)"
proof -
  from inv have ok: "manager_ok m" and r: "running m = count F" by (simp_all add: wasm_inv_def)
  from enter ok obtain rec where rec: "modules m (task_key t) = Some rec" and
    m': "m' = m \<lparr> modules := (modules m)(task_key t \<mapsto>
      rec \<lparr> mr_state := Active, mr_active_tasks := mr_active_tasks rec + 1 \<rparr>) \<rparr>"
    by (rule task_enter_Inr)
  from fun_cong [OF r, of "task_key t"] rec have "unat (mr_active_tasks rec) = count F (task_key t)"
    by (simp add: running_def)
  with room have "unat (mr_active_tasks rec + 1) = Suc (count F (task_key t))"
    by (simp add: unat_word_ariths)
  moreover have "manager_ok m'"
    unfolding m' using ok by (rule manager_ok_update) (simp add: module_ok_def)
  ultimately show ?thesis
    by (auto simp: wasm_inv_def m' running_upd r)
qed

lemma wasm_inv_step: "wasm_step s s' \<Longrightarrow> wasm_inv s \<Longrightarrow> wasm_inv s'"
proof (induction rule: wasm_step.induct)
  case (lifecycle m r w res m' w' F)
  then have inv: "manager_ok m" "running m = count F" by (simp_all add: wasm_inv_def)
  from lifecycle(1) inv(1) have "running m' = running m"
    by (cases rule: handle_lifecycle_cases)
      (use inv in \<open>auto simp: running_registered running_drain running_release\<close>)
  moreover from lifecycle(1) inv(1) have "manager_ok m'"
    by (cases rule: handle_lifecycle_cases)
      (use inv in \<open>auto simp: manager_ok_drain manager_ok_release manager_ok_registered\<close>)
  ultimately show ?case using inv by (simp add: wasm_inv_def)
next
  case (refused m t resp m' w F)
  then have "m' = m" by (auto simp: task_enter_def Let_def split: option.splits if_splits)
  with refused show ?case by simp
next
  case (entered m t gpu m' F w)
  then show ?case by (intro wasm_inv_entered)
next
  case (left k F m w)
  then have inv: "manager_ok m" "running m = count F" by (simp_all add: wasm_inv_def)
  with left(1) running_leave [of m k] show ?case
    by (auto simp: wasm_inv_def manager_ok_leave)
qed (auto simp: wasm_inv_def set_force_cpu_def set_gpu_selector_def manager_ok_def running_def [abs_def])

lemma wasm_run_inv: "wasm_run n s \<Longrightarrow> wasm_inv s"
proof (induction rule: wasm_run.induct)
  case (run_start b sel w)
  show ?case
    by (simp add: wasm_inv_def) (simp add: WasmSandboxManager_init_def running_def fun_eq_iff)
qed (rule wasm_inv_step)

subsection \<open>Lease tokens and keys\<close>

lemma lease_string_inject:
  assumes "lease_string a b c n = lease_string a' b' c' n'" shows "n = n'"
proof -
  have tail: "takeWhile (\<lambda>c. c \<noteq> CHR ''-'') (rev (lease_string a b c n)) = rev (to_string n)" for a b c n
  proof -
    have "CHR ''-'' \<notin> set (to_string n)" using to_string_digits [of "CHR ''-''" n] by auto
    then show ?thesis by (auto simp: lease_string_def takeWhile_append)
  qed
  from tail [of a b c n] tail [of a' b' c' n'] assms have "rev (to_string n) = rev (to_string n')" by simp
  then show ?thesis by simp
qed

definition leases_ok :: "nat \<Rightarrow> 'w WasmSandboxManager \<Rightarrow> bool" where
  "leases_ok n m \<longleftrightarrow> unat (next_lease_id m) \<le> Suc n \<and>
     (\<forall>k rec. modules m k = Some rec \<longrightarrow> (\<exists>a b c j. j < unat (next_lease_id m) \<and> mr_lease_token rec = lease_string a b c j)) \<and>
     (\<forall>k k' rec rec'. modules m k = Some rec \<longrightarrow> modules m k' = Some rec' \<longrightarrow>
        mr_lease_token rec = mr_lease_token rec' \<longrightarrow> k = k')"

text \<open>Sections that issue no lease keep the tokens that are there.\<close>

lemma leases_ok_mono:
  assumes "leases_ok n m" "next_lease_id m' = next_lease_id m"
    and "\<And>k rec'. modules m' k = Some rec' \<Longrightarrow> \<exists>rec. modules m k = Some rec \<and> mr_lease_token rec' = mr_lease_token rec"
  shows "leases_ok (Suc n) m'"
  using assms unfolding leases_ok_def by (metis le_SucI)

lemma leases_ok_registered:
  assumes ok: "leases_ok n m" and n: "Suc n < 2 ^ 64 - 1"
  shows "leases_ok (Suc n) (registered m r gpu)"
proof -
  from ok n have nxt: "unat (next_lease_id m + 1) = Suc (unat (next_lease_id m))"
    by (simp add: leases_ok_def unat_word_ariths)
  have new: "mr_lease_token (fresh_record m r gpu) = lease_string (lq_sandbox_id r) (lq_module_id r)
      (lq_module_version r) (unat (next_lease_id m))" by (simp add: fresh_record_def)
  have fresh: "mr_lease_token rec \<noteq> mr_lease_token (fresh_record m r gpu)" if "modules m k = Some rec" for k rec
    using ok that unfolding leases_ok_def new by (metis lease_string_inject nat_neq_iff)
  show ?thesis
    unfolding leases_ok_def modules_registered nxt
  proof (intro conjI allI impI)
    show "Suc (unat (next_lease_id m)) \<le> Suc (Suc n)" using ok by (simp add: leases_ok_def)
  next
    fix k rec assume "((modules m)(request_key r \<mapsto> fresh_record m r gpu)) k = Some rec"
    then show "\<exists>a b c j. j < Suc (unat (next_lease_id m)) \<and> mr_lease_token rec = lease_string a b c j"
      using ok new unfolding leases_ok_def by (metis fun_upd_apply lessI less_SucI option.inject)
  next
    fix k k' rec rec'
    assume "((modules m)(request_key r \<mapsto> fresh_record m r gpu)) k = Some rec"
      "((modules m)(request_key r \<mapsto> fresh_record m r gpu)) k' = Some rec'"
      "mr_lease_token rec = mr_lease_token rec'"
    then show "k = k'"
      using ok fresh unfolding leases_ok_def by (metis fun_upd_apply option.inject)
  qed
qed

lemma leave_record_lease [simp]: "mr_lease_token (leave_record rec) = mr_lease_token rec"
  by (simp add: leave_record_def Let_def)

definition keeps_leases :: "'w WasmSandboxManager \<Rightarrow> 'w WasmSandboxManager \<Rightarrow> bool" where
  "keeps_leases m m' \<longleftrightarrow> next_lease_id m' = next_lease_id m \<and>
     (\<forall>k rec'. modules m' k = Some rec' \<longrightarrow> (\<exists>rec. modules m k = Some rec \<and> mr_lease_token rec' = mr_lease_token rec))"

lemma keeps_leases_refl [simp]: "keeps_leases m m"
  by (simp add: keeps_leases_def)

lemma keeps_leases_upd:
  "modules m k = Some rec \<Longrightarrow> mr_lease_token rec' = mr_lease_token rec \<Longrightarrow>
     keeps_leases m (m \<lparr> modules := (modules m)(k \<mapsto> rec') \<rparr>)"
  by (auto simp: keeps_leases_def)

lemma keeps_leases_sections:
  "keeps_leases m (snd (drain_module m r))" "keeps_leases m (snd (release_module m r))"
  "keeps_leases m (snd (task_enter m t))" "keeps_leases m (task_leave k m)"
  subgoal by (auto simp: drain_module_def Let_def intro!: keeps_leases_upd split: option.split)
  subgoal by (auto simp: release_module_def Let_def keeps_leases_def split: option.split)
  subgoal by (auto simp: task_enter_def Let_def intro!: keeps_leases_upd split: option.split)
  subgoal by (auto simp: task_leave_eq intro!: keeps_leases_upd split: option.split)
  done

lemma wasm_step_leases:
  assumes "wasm_step (m, w, F) (m', w', F')" "manager_ok m"
  shows "keeps_leases m m' \<or> (\<exists>r gpu. m' = registered m r gpu)"
  using assms(1)
proof (cases rule: wasm_step.cases)
  case (lifecycle r res)
  from lifecycle(2) assms(2) show ?thesis
    by (cases rule: handle_lifecycle_cases) (auto simp: keeps_leases_sections)
next
  case (refused t resp)
  with keeps_leases_sections(3) [of m t] show ?thesis by simp
next
  case (entered t gpu)
  with keeps_leases_sections(3) [of m t] show ?thesis by simp
next
  case (left k)
  with keeps_leases_sections(4) [of m k] show ?thesis by simp
qed (auto simp: keeps_leases_def set_force_cpu_def set_gpu_selector_def)

lemma wasm_run_leases: "wasm_run n s \<Longrightarrow> n < 2 ^ 64 - 2 \<Longrightarrow> leases_ok n (fst s)"
proof (induction rule: wasm_run.induct)
  case (run_start b sel w)
  show ?case by (simp add: leases_ok_def WasmSandboxManager_init_def)
next
  case (run_step n s s')
  obtain m w F where s: "s = (m, w, F)" by (cases s)
  obtain m' w' F' where s': "s' = (m', w', F')" by (cases s')
  from run_step have ok: "leases_ok n m" by (simp add: s)
  from wasm_run_inv [OF run_step(1)] have "manager_ok m" by (simp add: s wasm_inv_def)
  with run_step(2) have "keeps_leases m m' \<or> (\<exists>r gpu. m' = registered m r gpu)"
    unfolding s s' by (rule wasm_step_leases)
  then have "leases_ok (Suc n) m'"
  proof
    assume "keeps_leases m m'"
    with ok show ?thesis by (intro leases_ok_mono) (auto simp: keeps_leases_def)
  next
    assume "\<exists>r gpu. m' = registered m r gpu"
    with ok run_step(4) show ?thesis by (auto intro!: leases_ok_registered)
  qed
  then show ?case by (simp add: s')
qed

lemma append_colon_inject:
  "CHR '':'' \<notin> set a \<Longrightarrow> CHR '':'' \<notin> set a' \<Longrightarrow>
     a @ CHR '':'' # x = a' @ CHR '':'' # x' \<longleftrightarrow> a = a' \<and> x = x'"
  by (induction a arbitrary: a') (case_tac [!] a', auto)

lemma make_key_inject:
  assumes "CHR '':'' \<notin> set a" "CHR '':'' \<notin> set a'" "CHR '':'' \<notin> set b" "CHR '':'' \<notin> set b'"
  shows "make_key a b c = make_key a' b' c' \<longleftrightarrow> a = a' \<and> b = b' \<and> c = c'"
  using assms by (simp add: make_key_def append_colon_inject)

subsection \<open>A sample run\<close>

definition sample_lifecycle :: "WasmLifecycleAction \<Rightarrow> WasmLifecycleRequest" where
  "sample_lifecycle a = \<lparr> lq_action = a, lq_request_id = ''r'', lq_sandbox_id = ''s'', lq_module_id = ''m'',
     lq_module_version = ''1'', lq_target_gpu = 0, lq_grace_period_ms = 0, lq_ack_token = [], lq_payload = [] \<rparr>"

definition sample_task :: WasmTaskRequest where
  "sample_task = \<lparr> tq_task_id = ''t'', tq_sandbox_id = ''s'', tq_module_id = ''m'', tq_module_version = ''1'',
     tq_task_kind = ''k'', tq_priority = 0, tq_deadline_ms = 0, tq_buffer_descriptors = [], tq_payload = [] \<rparr>"

definition sample_record :: "WasmModuleState \<Rightarrow> u32 \<Rightarrow> ModuleRecord" where
  "sample_record st n = \<lparr> mr_sandbox_id = ''s'', mr_module_id = ''m'', mr_version = ''1'', mr_state = st,
     mr_assigned_gpu = 0, mr_lease_token = ''lease-s-m-1-1'', mr_active_tasks = n \<rparr>"

definition sample_manager :: "WasmModuleState \<Rightarrow> u32 \<Rightarrow> unit WasmSandboxManager" where
  "sample_manager st n = \<lparr> modules = [''s:m:1'' \<mapsto> sample_record st n], wm_force_cpu = False,
     gpu_selector = None, next_lease_id = 2 \<rparr>"

lemma sample_keys [simp]: "request_key (sample_lifecycle a) = ''s:m:1''" "task_key sample_task = ''s:m:1''"
  by (simp_all add: request_key_def task_key_def make_key_def sample_lifecycle_def sample_task_def)

text \<open>Preparing the version, then one task that enters it.\<close>

lemma sample_run_prepared: "wasm_run 1 (sample_manager Prepared 0, (), {#})"
proof -
  have key: "make_key ''s'' ''m'' ''1'' = ''s:m:1''" by (simp add: make_key_def)
  have "to_string 1 = ''1''" by (simp add: to_string.simps char_of_def bit_0)
  then have lease: "lease_string ''s'' ''m'' ''1'' 1 = ''lease-s-m-1-1''" by (simp add: lease_string_def)
  have "\<exists>res. handle_lifecycle (WasmSandboxManager_init False None) (sample_lifecycle Prepare) ()
      = (res, sample_manager Prepared 0, ())"
    by (simp add: handle_lifecycle_def prepare_module_def prepare_register_def Let_def
        WasmSandboxManager_init_def sample_manager_def sample_record_def sample_lifecycle_def
        request_key_def key lease [simplified])
  then obtain res where "handle_lifecycle (WasmSandboxManager_init False None) (sample_lifecycle Prepare) ()
      = (res, sample_manager Prepared 0, ())" by blast
  then show ?thesis using run_step [OF run_start wasm_step.lifecycle] by simp
qed

lemma sample_task_enters: "task_enter (sample_manager Prepared 0) sample_task = (Inr 0, sample_manager Active 1)"
  by (simp add: task_enter_def Let_def) (simp add: sample_manager_def sample_record_def)

lemma sample_run_active: "wasm_run (Suc 1) (sample_manager Active 1, (), {#''s:m:1''#})"
  using run_step [OF sample_run_prepared wasm_step.entered [OF sample_task_enters]] by simp

subsection \<open>Properties\<close>

text \<open>C4. In every interleaving of lifecycle operations and tasks, the in-flight counter of a registered
  module version is exactly the number of tasks between their entry and their exit, no task runs on a
  version that is not registered, a draining version has tasks in flight, and a prepared or stopped
  version has none.\<close>

theorem wasm_inflight_exact:
  assumes "wasm_run n (m, w, F)"
  shows "case modules m k of
      None \<Rightarrow> count F k = 0
    | Some rec \<Rightarrow> unat (mr_active_tasks rec) = count F k \<and>
        mr_state rec \<in> {Prepared, Active, Draining, Stopped} \<and>
        (mr_state rec = Draining \<longrightarrow> 0 < count F k) \<and>
        (mr_state rec \<in> {Prepared, Stopped} \<longrightarrow> count F k = 0)"
proof -
  define c where "c = count F k"
  from wasm_run_inv [OF assms] have ok: "manager_ok m" and r: "running m k = c"
    by (simp_all add: wasm_inv_def c_def)
  show ?thesis
    unfolding c_def [symmetric]
  proof (cases "modules m k")
    case None
    with r show "case modules m k of None \<Rightarrow> c = 0 | Some rec \<Rightarrow> unat (mr_active_tasks rec) = c \<and>
        mr_state rec \<in> {Prepared, Active, Draining, Stopped} \<and> (mr_state rec = Draining \<longrightarrow> 0 < c) \<and>
        (mr_state rec \<in> {Prepared, Stopped} \<longrightarrow> c = 0)" by (simp add: running_def)
  next
    case (Some rec)
    with r manager_okD [OF ok Some] module_ok_states [OF manager_okD [OF ok Some]]
    show "case modules m k of None \<Rightarrow> c = 0 | Some rec \<Rightarrow> unat (mr_active_tasks rec) = c \<and>
        mr_state rec \<in> {Prepared, Active, Draining, Stopped} \<and> (mr_state rec = Draining \<longrightarrow> 0 < c) \<and>
        (mr_state rec \<in> {Prepared, Stopped} \<longrightarrow> c = 0)"
      by (auto simp: running_def module_ok_def unat_gt_0)
  qed
qed

theorem wasm_inflight_exact_witness:
  "unat (mr_active_tasks (sample_record Active 1)) = count {#''s:m:1''#} ''s:m:1''"
  using wasm_inflight_exact [OF sample_run_active, of "''s:m:1''"]
  by (simp add: sample_manager_def)

text \<open>C16. Releasing is safe in every interleaving: it succeeds exactly for a registered version on which
  no task is in flight, and then removes that version only; otherwise it reports busy or not found and
  changes nothing.\<close>

theorem wasm_release_safe:
  assumes "wasm_run n (m, w, F)" "release_module m r = (resp, m')"
  shows "if modules m (request_key r) \<noteq> None \<and> count F (request_key r) = 0
    then lr_status resp = LifecycleOk \<and> lr_state resp = Released \<and>
      m' = m \<lparr> modules := (modules m)(request_key r := None) \<rparr>
    else m' = m \<and> lr_status resp = (if modules m (request_key r) = None then LifecycleNotFound else LifecycleBusy)"
proof -
  define c where "c = count F (request_key r)"
  from wasm_run_inv [OF assms(1)] have "running m (request_key r) = c"
    by (simp add: wasm_inv_def c_def)
  with assms(2) show ?thesis
    unfolding c_def [symmetric]
    by (auto simp: release_module_def Let_def running_def word_gt_0 unat_eq_zero split: option.splits if_splits)
qed

theorem wasm_release_safe_witness:
  "snd (release_module (sample_manager Active 1) (sample_lifecycle Release)) = sample_manager Active 1"
  using wasm_release_safe [OF sample_run_active surjective_pairing, of "sample_lifecycle Release"]
  by simp

text \<open>Draining closes a version at once, in every interleaving: after a drain every task for that
  version is refused without a change of state, as draining while tasks are in flight and as rejected
  when there were none.\<close>

lemma wasm_drain_closes:
  assumes "wasm_run n (m, w, F)" "modules m (request_key r) = Some rec" "task_key t = request_key r"
    and d: "d = snd (drain_module m r)"
  shows "\<exists>resp. task_enter d t = (Inl resp, d) \<and>
    tr_status resp = (if count F (request_key r) = 0 then TaskRejected else ModuleDraining)"
proof -
  define c where "c = count F (request_key r)"
  from wasm_run_inv [OF assms(1)] have ok: "manager_ok m" and "running m (request_key r) = c"
    by (simp_all add: wasm_inv_def c_def)
  with assms(2) have "mr_active_tasks rec = 0 \<longleftrightarrow> c = 0"
    by (auto simp: running_def unat_eq_zero)
  moreover have "modules d (request_key r) =
      Some (rec \<lparr> mr_state := if mr_active_tasks rec = 0 then Stopped else Draining \<rparr>)"
    using drain_module_state [OF assms(2) manager_okD [OF ok assms(2)]] d by simp
  ultimately show ?thesis
    using assms(3) unfolding c_def [symmetric] by (simp add: task_enter_def Let_def)
qed

text \<open>C15. A hot swap completes: in any reachable state, after a drain of a registered version and the exit
  of the tasks that were in flight on it, the version is stopped, and a release succeeds and removes it
  while every other version keeps its phase and its count.\<close>

theorem wasm_swap_completes:
  assumes "wasm_run n (m, w, F)" "modules m (request_key r) = Some rec"
    and l: "l = (task_leave (request_key r) ^^ count F (request_key r)) (snd (drain_module m r))"
  shows "(\<exists>rec'. modules l (request_key r) = Some rec' \<and> mr_state rec' = Stopped \<and> mr_active_tasks rec' = 0) \<and>
    lr_status (fst (release_module l r)) = LifecycleOk \<and>
    module_view (snd (release_module l r)) = (module_view m)(request_key r := None)"
proof -
  let ?n = "count F (request_key r)"
  from wasm_run_inv [OF assms(1)] have ok: "manager_ok m" and "running m (request_key r) = ?n"
    by (simp_all add: wasm_inv_def)
  with assms(2) have view: "module_view m (request_key r) = Some (phase_of (mr_state rec), ?n)"
    by (simp add: module_view_def running_def)
  with ok have d: "manager_ok (snd (drain_module m r))"
    "module_view (snd (drain_module m r)) (request_key r) = Some (Closing, ?n)"
    by (simp_all add: manager_ok_drain drain_module_view)
  from swap.leaves_view [OF this] have lv: "manager_ok l" "module_view l (request_key r) = Some (Closing, 0)"
    unfolding l by simp_all
  from lv(2) obtain rec' where rec': "modules l (request_key r) = Some rec'" "phase_of (mr_state rec') = Closing"
    "mr_active_tasks rec' = 0" by (auto simp: module_view_def unat_eq_zero)
  with manager_okD [OF lv(1) rec'(1)] have "mr_state rec' = Stopped"
    by (auto simp: module_ok_def phase_of_def split: WasmModuleState.splits if_splits)
  moreover have "lr_status (fst (release_module l r)) = LifecycleOk"
    using rec' by (simp add: release_module_def Let_def)
  moreover have "module_view (snd (release_module l r)) = (module_view m)(request_key r := None)"
    unfolding l by (rule swap.swap_completes [OF ok view])
  ultimately show ?thesis using rec' by blast
qed

theorem wasm_swap_completes_witness:
  "lr_status (fst (release_module
     ((task_leave ''s:m:1'' ^^ 1) (snd (drain_module (sample_manager Active 1) (sample_lifecycle Drain))))
     (sample_lifecycle Drain))) = LifecycleOk"
  using wasm_swap_completes [OF sample_run_active, of "sample_lifecycle Drain" "sample_record Active 1"]
  by (simp add: sample_manager_def)

text \<open>As long as fewer than \<open>2 ^ 64 - 2\<close> steps were taken, no two registered versions hold the same
  lease token, in any interleaving and whatever the identifiers contain.\<close>

lemma wasm_leases_unique:
  assumes "wasm_run n (m, w, F)" "n < 2 ^ 64 - 2"
  shows "inj_on (\<lambda>k. mr_lease_token (the (modules m k))) (dom (modules m))"
  using wasm_run_leases [OF assms] by (fastforce simp: leases_ok_def inj_on_def)

text \<open>Module keys identify sandbox, module and version whenever the sandbox and module identifiers
  contain no colon.\<close>

lemma wasm_make_key_inject:
  assumes "CHR '':'' \<notin> set a" "CHR '':'' \<notin> set a'" "CHR '':'' \<notin> set b" "CHR '':'' \<notin> set b'"
  shows "make_key a b c = make_key a' b' c' \<longleftrightarrow> a = a' \<and> b = b' \<and> c = c'"
  using assms by (rule make_key_inject)

text \<open>A task that runs without interference: for an unregistered version it reports not found, for a
  draining one draining, for a stopped or released one rejected, each without a change of state;
  otherwise the response is that of the computation on the version's GPU and the only trace in the
  manager is that the version is active, with the in-flight counter as before.\<close>

lemma wasm_handle_task_outcome:
  assumes "\<And>rec. modules m (task_key t) = Some rec \<Longrightarrow> mr_active_tasks rec + 1 \<noteq> 0"
    and "handle_task h gpu_compute compute_fn ms m t = (resp, m')"
  shows "case modules m (task_key t) of
      None \<Rightarrow> tr_status resp = ModuleNotFound \<and> m' = m
    | Some rec \<Rightarrow>
        if mr_state rec = Draining then tr_status resp = ModuleDraining \<and> m' = m
        else if mr_state rec \<in> {Stopped, Released} then tr_status resp = TaskRejected \<and> m' = m
        else resp = task_run h gpu_compute compute_fn ms t (mr_assigned_gpu rec) \<and>
          m' = m \<lparr> modules := (modules m)(task_key t \<mapsto> rec \<lparr> mr_state := Active \<rparr>) \<rparr>"
proof (cases "modules m (task_key t)")
  case None
  with assms(2) show ?thesis by (auto simp: handle_task_def task_enter_def Let_def)
next
  case (Some rec)
  from assms(1) [OF Some] have "0 < mr_active_tasks rec + 1" by (simp add: word_gt_0)
  with Some assms(2) show ?thesis
    by (auto simp: handle_task_def task_enter_def task_leave_eq leave_record_def Let_def split: if_splits)
qed

text \<open>Preparing is idempotent: once a prepare has succeeded, preparing the same version again succeeds
  with the same GPU and the same lease token and changes nothing, whatever happened to the caller's
  state in between.\<close>

lemma wasm_prepare_idempotent:
  assumes "prepare_module m r w = (Inr resp, m', w1)" "lr_status resp = LifecycleOk"
  shows "\<exists>resp'. prepare_module m' r w2 = (Inr resp', m', w2) \<and> lr_status resp' = LifecycleOk \<and>
    lr_assigned_gpu resp' = lr_assigned_gpu resp \<and> lr_lease_token resp' = lr_lease_token resp"
proof -
  have "prepare_register m r w = (Inr resp, m', w1) \<or>
    (m' = m \<and> (\<exists>rec. modules m (request_key r) = Some rec \<and> mr_state rec \<in> {Prepared, Active} \<and>
      lr_assigned_gpu resp = mr_assigned_gpu rec \<and> lr_lease_token resp = mr_lease_token rec))"
    and ids: "\<not> (lq_sandbox_id r = [] \<or> lq_module_id r = [] \<or> lq_module_version r = [])"
    using assms by (auto simp: prepare_module_def Let_def split: if_splits option.splits)
  then obtain rec where "modules m' (request_key r) = Some rec" "mr_state rec \<in> {Prepared, Active}"
    "lr_assigned_gpu resp = mr_assigned_gpu rec" "lr_lease_token resp = mr_lease_token rec"
  proof (elim disjE)
    assume "prepare_register m r w = (Inr resp, m', w1)"
    then show thesis
    proof (cases rule: prepare_register_cases)
      case (registers gpu resp0)
      then show thesis
        by (intro that [of "fresh_record m r gpu"]) (simp_all add: modules_registered fresh_record_def)
    qed simp
  qed (use that in auto)
  with ids show ?thesis by (auto simp: prepare_module_def Let_def)
qed

end
