(* ===== verification/Broker_Service.thy ===== *)
theory Broker_Service
  imports Brk2_Protocol Nvlink_Placement Float64 Geospatial_Frame Media_Stream Wasm_Codec Wasm_Hotswap
begin

text \<open>
  The broker service: \<^verbatim>\<open>include/broker_service.h\<close> and \<^verbatim>\<open>src/broker_service.cpp\<close>.  One request in, one
  response out, over the fields of \<^verbatim>\<open>BrokerService\<close>.  \<open>Placement\<close> is the part of them that GPU placement
  reads and changes (\<^verbatim>\<open>placer_\<close>, \<^verbatim>\<open>gpu_inflight_\<close>, \<^verbatim>\<open>source_to_client_\<close>, \<^verbatim>\<open>next_client_id_\<close>); it is also
  the state the WASM manager's GPU selector calls back into.  The compute kernels, the CUDA runtime and
  the clock readings are parameters; times are nanoseconds.  An \<open>Inl\<close> of the service is an exception
  that leaves \<^verbatim>\<open>handle_request\<close>.
\<close>

subsection \<open>Vectors of doubles\<close>

definition decode_payload_as_doubles :: "bytes \<Rightarrow> double list res" where
  "decode_payload_as_doubles payload =
     (if length payload mod 8 \<noteq> 0 then Inl ''payload must be a packed array of doubles''
      else Inr (map (\<lambda>i. foldl (\<lambda>bits byte. push_bit 8 bits OR ucast (payload ! (i * 8 + byte))) 0 [0..<8])
             [0..<length payload div 8]))"

definition encode_doubles_as_payload :: "double list \<Rightarrow> bytes" where
  "encode_doubles_as_payload values =
     concat (map (\<lambda>bits. map (\<lambda>byte. ucast (drop_bit ((8 - byte - 1) * 8) bits)) [0..<8]) values)"

definition cpu_compute :: "double list \<Rightarrow> double list" where
  "cpu_compute values = map double_mul2 values"

subsection \<open>Configuration and state\<close>

type_synonym GpuComputeFn = "double list \<Rightarrow> i32 \<Rightarrow> double list res"

record NpuExecutor =
  npu_executor_available :: bool
  npu_run :: "double list \<Rightarrow> double list res"

record Placement =
  placer :: Placer
  gpu_inflight :: "nat list"
  source_to_client :: "string \<rightharpoonup> i32"
  next_client_id :: i32

record BrokerServiceConfig =
  cf_backlog_threshold :: nat
  cf_max_inflight_per_gpu :: nat
  cf_force_cpu_fallback :: bool
  cf_default_backend :: BackendKind
  cf_gpu_offload_threshold_bytes :: nat
  cf_gpu_offload_threshold_flops :: u64
  cf_npu_enabled :: bool
  cf_npu_executor :: "NpuExecutor option"
  cf_synthetic_gpu_count :: int
  cf_gpu_compute_fn :: "GpuComputeFn option"
  cf_simulated_latency_ms :: u32
  cf_protocol_limits :: ProtocolLimits
  cf_wasm_manager :: "Placement WasmSandboxManager option"

definition BrokerServiceConfig_default :: BrokerServiceConfig where
  "BrokerServiceConfig_default =
     \<lparr> cf_backlog_threshold = 32, cf_max_inflight_per_gpu = 1024, cf_force_cpu_fallback = False,
       cf_default_backend = Cpu, cf_gpu_offload_threshold_bytes = 1024 * 1024, cf_gpu_offload_threshold_flops = 0,
       cf_npu_enabled = False, cf_npu_executor = None, cf_synthetic_gpu_count = -1, cf_gpu_compute_fn = None,
       cf_simulated_latency_ms = 0, cf_protocol_limits = ProtocolLimits_default, cf_wasm_manager = None \<rparr>"

record BrokerService =
  config :: BrokerServiceConfig
  use_gpu_placement :: bool
  topology :: "GpuTopology option"
  placement :: Placement
  wasm_manager :: "Placement WasmSandboxManager"

subsection \<open>Placement\<close>

definition get_or_assign_client_id :: "GpuTopology \<Rightarrow> Placement \<Rightarrow> string \<Rightarrow> int \<times> Placement" where
  "get_or_assign_client_id t pl source =
     (case source_to_client pl source of
        Some client_id \<Rightarrow> (sint client_id, pl)
      | None \<Rightarrow>
          let client_id = next_client_id pl;
              pl = pl \<lparr> next_client_id := client_id + 1 \<rparr>;
              pl = pl \<lparr> source_to_client := (source_to_client pl)(source \<mapsto> client_id) \<rparr>;
              (_, p) = assign_home t (placer pl) (sint client_id)
          in (sint client_id, pl \<lparr> placer := p \<rparr>))"

text \<open>The callback passed to \<^verbatim>\<open>place\<close>.\<close>

definition inflight_depth :: "Placement \<Rightarrow> unit \<Rightarrow> int \<Rightarrow> nat \<times> unit" where
  "inflight_depth pl s gpu = (gpu_inflight pl ! nat gpu, s)"

definition place_source :: "GpuTopology \<Rightarrow> Placement \<Rightarrow> string \<Rightarrow> int \<times> Placement" where
  "place_source t pl source =
     (let (client_id, pl) = get_or_assign_client_id t pl source;
          (gpu, p, _) = place t (placer pl) client_id (inflight_depth pl) ()
      in (gpu, pl \<lparr> placer := p \<rparr>))"

text \<open>The two sections of \<^verbatim>\<open>run_on_gpu\<close> under \<^verbatim>\<open>inflight_mutex_\<close>.\<close>

definition gpu_admit :: "nat \<Rightarrow> Placement \<Rightarrow> int \<Rightarrow> bool \<times> Placement" where
  "gpu_admit max_inflight pl gpu =
     (let inflight = gpu_inflight pl ! nat gpu + 1 in
      if inflight > max_inflight then
        (False, pl \<lparr> gpu_inflight := (gpu_inflight pl)[nat gpu := inflight - 1] \<rparr>)
      else (True, pl \<lparr> gpu_inflight := (gpu_inflight pl)[nat gpu := inflight] \<rparr>))"

definition gpu_leave :: "Placement \<Rightarrow> int \<Rightarrow> Placement" where
  "gpu_leave pl gpu =
     (let inflight = gpu_inflight pl ! nat gpu in
      if inflight > 0 then pl \<lparr> gpu_inflight := (gpu_inflight pl)[nat gpu := inflight - 1] \<rparr> else pl)"

definition run_on_gpu ::
  "BrokerServiceConfig \<Rightarrow> GpuComputeFn \<Rightarrow> GpuTopology \<Rightarrow> Placement \<Rightarrow> BrokerRequest \<Rightarrow> double list \<Rightarrow> BrokerResponse \<times> Placement" where
  "run_on_gpu cfg default_gpu_compute t pl request input =
     (let response = BrokerResponse_default \<lparr> rs_task_id := rq_task_id request, rs_backend := Gpu \<rparr>;
          (selected_gpu, pl) = place_source t pl (rq_source request);
          response = response \<lparr> rs_selected_gpu := word_of_int selected_gpu \<rparr>;
          (admitted, pl) = gpu_admit (cf_max_inflight_per_gpu cfg) pl selected_gpu in
      if \<not> admitted then
        (response \<lparr> rs_status := Rejected, rs_error := ''selected GPU queue is at capacity'' \<rparr>, pl)
      else
        let output = (case cf_gpu_compute_fn cfg of
                        Some f \<Rightarrow> f input (word_of_int selected_gpu)
                      | None \<Rightarrow> default_gpu_compute input (word_of_int selected_gpu));
            response = (case output of
                          Inr values \<Rightarrow> response \<lparr> rs_status := Ok, rs_result := encode_doubles_as_payload values \<rparr>
                        | Inl e \<Rightarrow> response \<lparr> rs_status := Error, rs_error := e \<rparr>)
        in (response, gpu_leave pl selected_gpu))"

subsection \<open>Construction\<close>

definition service_selector :: "GpuTopology \<Rightarrow> Placement GpuSelectorFn" where
  "service_selector t pl source target_gpu =
     (if 0 \<le> sint target_gpu then (Inr target_gpu, pl)
      else let (gpu, pl) = place_source t pl source in (Inr (word_of_int gpu), pl))"

definition gpu_total :: "BrokerServiceConfig \<Rightarrow> CudaRuntime option \<Rightarrow> int" where
  "gpu_total cfg cuda = (if cf_synthetic_gpu_count cfg \<ge> 0 then cf_synthetic_gpu_count cfg else get_gpu_count cuda)"

definition BrokerService_init :: "BrokerServiceConfig \<Rightarrow> CudaRuntime option \<Rightarrow> BrokerService res" where
  "BrokerService_init cfg cuda =
     (let total = gpu_total cfg cuda;
          no_placement = \<lparr> placer = Placer_init (cf_backlog_threshold cfg), gpu_inflight = [],
            source_to_client = Map.empty, next_client_id = 1 \<rparr>
      in res_bind
        (if \<not> cf_force_cpu_fallback cfg \<and> total > 0 then
           res_bind (if cf_synthetic_gpu_count cfg \<ge> 0 then synthetic total else detect cuda) (\<lambda>t.
           Inr (Some t, no_placement \<lparr> gpu_inflight := replicate (nat (num_gpus t)) 0 \<rparr>))
         else Inr (None, no_placement))
        (\<lambda>(topo, pl).
         let use_gpu = (topo \<noteq> None);
             manager = (case cf_wasm_manager cfg of
                Some m \<Rightarrow> m
              | None \<Rightarrow> WasmSandboxManager_init (cf_force_cpu_fallback cfg \<or> \<not> use_gpu) (map_option service_selector topo))
         in Inr \<lparr> config = cfg, use_gpu_placement = use_gpu, topology = topo, placement = pl, wasm_manager = manager \<rparr>))"

definition has_gpu_topology :: "BrokerService \<Rightarrow> bool" where
  "has_gpu_topology s = use_gpu_placement s"

definition gpu_count :: "BrokerService \<Rightarrow> int" where
  "gpu_count s = (case topology s of None \<Rightarrow> 0 | Some t \<Rightarrow> num_gpus t)"

subsection \<open>Requests by kind\<close>

definition handle_geospatial_frame_request :: "endian \<Rightarrow> BrokerServiceConfig \<Rightarrow> BrokerRequest \<Rightarrow> BrokerResponse" where
  "handle_geospatial_frame_request h cfg request =
     (let response = BrokerResponse_default \<lparr> rs_task_id := rq_task_id request \<rparr>;
          max_payload = max_payload_bytes (cf_protocol_limits cfg) in
      case decode_nxr1_frame h (rq_payload request) max_payload of
        Inl decode_error \<Rightarrow> response \<lparr> rs_status := Rejected, rs_error := decode_error \<rparr>
      | Inr frame \<Rightarrow>
          (case encode_nxr1_frame h frame max_payload of
             Inl encode_error \<Rightarrow> response \<lparr> rs_status := Error, rs_error := encode_error \<rparr>
           | Inr encoded \<Rightarrow> response \<lparr> rs_status := Ok, rs_result := encoded \<rparr>))"

definition handle_media_stream_request :: "BrokerServiceConfig \<Rightarrow> BrokerRequest \<Rightarrow> BrokerResponse" where
  "handle_media_stream_request cfg request =
     (let response = BrokerResponse_default \<lparr> rs_task_id := rq_task_id request \<rparr>;
          max_payload = max_payload_bytes (cf_protocol_limits cfg);
          max_string = max_string_bytes (cf_protocol_limits cfg) in
      case decode_media_stream_frame (rq_payload request) max_payload max_string of
        Inl decode_error \<Rightarrow> response \<lparr> rs_status := Rejected, rs_error := decode_error \<rparr>
      | Inr frame \<Rightarrow>
          (case encode_media_stream_frame frame max_payload max_string of
             Inl encode_error \<Rightarrow> response \<lparr> rs_status := Error, rs_error := encode_error \<rparr>
           | Inr encoded \<Rightarrow> response \<lparr> rs_status := Ok, rs_result := encoded \<rparr>))"

definition service_wasm_limits :: "BrokerServiceConfig \<Rightarrow> WasmLimits" where
  "service_wasm_limits cfg = WasmLimits_default
     \<lparr> wl_max_payload_bytes := max_payload_bytes (cf_protocol_limits cfg),
       wl_max_frame_bytes := max_frame_bytes (cf_protocol_limits cfg),
       wl_max_string_bytes := max_string_bytes (cf_protocol_limits cfg) \<rparr>"

fun task_status_of_wasm :: "WasmTaskStatus \<Rightarrow> TaskStatus" where
  "task_status_of_wasm TaskOk = Ok"
| "task_status_of_wasm TaskTimeout = Timeout"
| "task_status_of_wasm TaskRejected = Rejected"
| "task_status_of_wasm ModuleDraining = Rejected"
| "task_status_of_wasm ModuleNotFound = Rejected"
| "task_status_of_wasm VersionMismatch = Rejected"
| "task_status_of_wasm _ = Error"

fun task_status_of_lifecycle :: "WasmLifecycleStatus \<Rightarrow> TaskStatus" where
  "task_status_of_lifecycle LifecycleOk = Ok"
| "task_status_of_lifecycle LifecycleRejected = Rejected"
| "task_status_of_lifecycle LifecycleNotFound = Rejected"
| "task_status_of_lifecycle LifecycleBusy = Rejected"
| "task_status_of_lifecycle _ = Error"

definition handle_wasm_task_request ::
  "endian \<Rightarrow> GpuComputeFn \<Rightarrow> u64 \<Rightarrow> BrokerServiceConfig \<Rightarrow> 'w WasmSandboxManager \<Rightarrow> BrokerRequest \<Rightarrow>
   BrokerResponse \<times> 'w WasmSandboxManager" where
  "handle_wasm_task_request h default_gpu_compute elapsed_ms cfg m request =
     (let response = BrokerResponse_default \<lparr> rs_task_id := rq_task_id request \<rparr>;
          limits = service_wasm_limits cfg in
      case decode_wasm_task_request h (rq_payload request) limits of
        Inl decode_error \<Rightarrow>
          (response \<lparr> rs_status := Rejected, rs_error := ''failed to decode WASM task request: '' @ decode_error \<rparr>, m)
      | Inr wasm_req \<Rightarrow>
          (case handle_task h default_gpu_compute None elapsed_ms m wasm_req of (wasm_resp, m) \<Rightarrow>
           case encode_wasm_task_response h wasm_resp limits of
             Inl encode_error \<Rightarrow>
               (response \<lparr> rs_status := Error, rs_error := ''failed to encode WASM task response: '' @ encode_error \<rparr>, m)
           | Inr encoded_resp \<Rightarrow>
               (response \<lparr> rs_status := task_status_of_wasm (tr_status wasm_resp), rs_selected_gpu := tr_selected_gpu wasm_resp,
                  rs_result := encoded_resp, rs_error := tr_error wasm_resp \<rparr>, m)))"

definition lifecycle_action_of_kind :: "string \<Rightarrow> WasmLifecycleAction \<Rightarrow> WasmLifecycleAction" where
  "lifecycle_action_of_kind kind action =
     (if kind = kWasmLifecyclePrepareKind then Prepare
      else if kind = kWasmLifecycleDrainKind then Drain
      else if kind = kWasmLifecycleReleaseKind then Release
      else if kind = kWasmLifecycleQueryKind then Query
      else action)"

definition handle_wasm_lifecycle_request ::
  "endian \<Rightarrow> BrokerServiceConfig \<Rightarrow> 'w WasmSandboxManager \<Rightarrow> 'w \<Rightarrow> BrokerRequest \<Rightarrow>
   BrokerResponse res \<times> 'w WasmSandboxManager \<times> 'w" where
  "handle_wasm_lifecycle_request h cfg m w request =
     (let response = BrokerResponse_default \<lparr> rs_task_id := rq_task_id request \<rparr>;
          limits = service_wasm_limits cfg in
      case decode_wasm_lifecycle_request h (rq_payload request) limits of
        Inl decode_error \<Rightarrow>
          (Inr (response \<lparr> rs_status := Rejected,
             rs_error := ''failed to decode WASM lifecycle request: '' @ decode_error \<rparr>), m, w)
      | Inr wasm_req \<Rightarrow>
          let wasm_req = wasm_req \<lparr> lq_action := lifecycle_action_of_kind (rq_kind request) (lq_action wasm_req) \<rparr> in
          (case handle_lifecycle m wasm_req w of
             (Inl e, m, w) \<Rightarrow> (Inl e, m, w)
           | (Inr wasm_resp, m, w) \<Rightarrow>
               (case encode_wasm_lifecycle_response h wasm_resp limits of
                  Inl encode_error \<Rightarrow>
                    (Inr (response \<lparr> rs_status := Error,
                       rs_error := ''failed to encode WASM lifecycle response: '' @ encode_error \<rparr>), m, w)
                | Inr encoded_resp \<Rightarrow>
                    (Inr (response \<lparr> rs_status := task_status_of_lifecycle (lr_status wasm_resp),
                       rs_selected_gpu := lr_assigned_gpu wasm_resp, rs_result := encoded_resp,
                       rs_error := lr_error wasm_resp \<rparr>), m, w))))"

subsection \<open>The request handler\<close>

text \<open>The readings of \<^verbatim>\<open>steady_clock\<close> in one call, in nanoseconds, and the milliseconds a WASM task takes.\<close>

record Clock =
  ck_started :: nat
  ck_slept :: nat
  ck_ended :: nat
  ck_wasm_elapsed_ms :: u64

definition deadline :: "Clock \<Rightarrow> BrokerRequest \<Rightarrow> nat" where
  "deadline ck request = ck_started ck + unat (rq_timeout_ms request) * 1000000"

definition finish_response :: "Clock \<Rightarrow> BrokerRequest \<Rightarrow> BrokerResponse \<Rightarrow> BrokerResponse" where
  "finish_response ck request result =
     (let result = result \<lparr> rs_latency_ms := word_of_nat ((ck_ended ck - ck_started ck) div 1000000) \<rparr> in
      if ck_ended ck \<ge> deadline ck request then
        result \<lparr> rs_status := Timeout, rs_result := [], rs_error := ''request timed out'' \<rparr>
      else result)"

text \<open>The profile, the fallback permission and the policy the backend is selected with.\<close>

definition base_policy :: "BrokerService \<Rightarrow> BackendPolicy" where
  "base_policy s =
     (let cfg = config s in
      \<lparr> default_backend = cf_default_backend cfg,
        gpu_offload_threshold_bytes = cf_gpu_offload_threshold_bytes cfg,
        gpu_offload_threshold_flops = cf_gpu_offload_threshold_flops cfg,
        policy_force_cpu = cf_force_cpu_fallback cfg,
        gpu_available = use_gpu_placement s,
        npu_available = cf_npu_enabled cfg \<and> (case cf_npu_executor cfg of None \<Rightarrow> False | Some e \<Rightarrow> npu_executor_available e) \<rparr>)"

definition dispatch_profile :: "BrokerService \<Rightarrow> BrokerRequest \<Rightarrow> BackendPolicy \<times> TaskProfile option \<times> bool" where
  "dispatch_profile s request =
     (let policy = base_policy s;
          safe = (case rq_profile request of None \<Rightarrow> False | Some p \<Rightarrow> fallback_safe p) in
      case rq_profile request of
        Some p \<Rightarrow> (policy, Some p, safe)
      | None \<Rightarrow>
          if rq_device_preference request = ''npu'' then
            (policy, Some (TaskProfile_default \<lparr> is_inference := True, fallback_safe := True,
               estimated_bytes := length (rq_payload request) \<rparr>), True)
          else if rq_device_preference request = ''gpu'' then
            (policy, Some (TaskProfile_default \<lparr> is_data_parallel := True,
               estimated_bytes := length (rq_payload request), fallback_safe := True \<rparr>), True)
          else if rq_device_preference request = ''cpu'' then (policy \<lparr> policy_force_cpu := True \<rparr>, None, safe)
          else (policy, None, safe))"

text \<open>The CPU baseline.\<close>

definition cpu_response :: "BrokerResponse \<Rightarrow> double list \<Rightarrow> BrokerResponse" where
  "cpu_response response input = response \<lparr> rs_status := Ok, rs_backend := Cpu, rs_selected_gpu := -1,
     rs_result := encode_doubles_as_payload (cpu_compute input) \<rparr>"

text \<open>The \<^verbatim>\<open>try\<close> block: the response before \<^verbatim>\<open>finish_response\<close>.  A GPU backend without a placer would
  dereference a null pointer; that is the \<open>Inl\<close>.  So would an NPU backend without an executor.\<close>

definition compute_request ::
  "GpuComputeFn \<Rightarrow> BrokerService \<Rightarrow> BrokerRequest \<Rightarrow> BrokerResponse res \<times> BrokerService" where
  "compute_request default_gpu_compute s request =
     (let response = BrokerResponse_default \<lparr> rs_task_id := rq_task_id request \<rparr>;
          (policy, profile, safe) = dispatch_profile s request;
          backend = select_backend policy profile in
      case decode_payload_as_doubles (rq_payload request) of
        Inl e \<Rightarrow> (Inr (response \<lparr> rs_status := Error, rs_error := e \<rparr>), s)
      | Inr input \<Rightarrow>
          (case backend of
             Gpu \<Rightarrow>
               (case topology s of
                  None \<Rightarrow> (Inl ''null placer_'', s)
                | Some t \<Rightarrow>
                    (case run_on_gpu (config s) default_gpu_compute t (placement s) request input of (gpu_response, pl) \<Rightarrow>
                     let s = s \<lparr> placement := pl \<rparr> in
                     if rs_status gpu_response = Ok \<or> \<not> safe then (Inr gpu_response, s)
                     else (Inr (cpu_response (response \<lparr> rs_fell_back_to_cpu := True \<rparr>) input), s)))
           | Npu \<Rightarrow>
               (case cf_npu_executor (config s) of
                  None \<Rightarrow> (Inl ''null npu_executor'', s)
                | Some e \<Rightarrow>
                    (case npu_run e input of
                       Inr output \<Rightarrow>
                         (Inr (response \<lparr> rs_result := encode_doubles_as_payload output, rs_status := Ok, rs_backend := Npu \<rparr>), s)
                     | Inl ex \<Rightarrow>
                         if \<not> safe then (Inr (response \<lparr> rs_status := Error, rs_error := ex, rs_backend := Npu \<rparr>), s)
                         else (Inr (cpu_response (response \<lparr> rs_fell_back_to_cpu := True \<rparr>) input), s)))
           | Cpu \<Rightarrow> (Inr (cpu_response response input), s)))"

definition is_lifecycle_kind :: "string \<Rightarrow> bool" where
  "is_lifecycle_kind kind \<longleftrightarrow> kind = kWasmLifecycleKind \<or> kind = kWasmLifecyclePrepareKind \<or>
     kind = kWasmLifecycleDrainKind \<or> kind = kWasmLifecycleReleaseKind \<or> kind = kWasmLifecycleQueryKind"

definition handle_request ::
  "endian \<Rightarrow> GpuComputeFn \<Rightarrow> Clock \<Rightarrow> BrokerService \<Rightarrow> BrokerRequest \<Rightarrow> BrokerResponse res \<times> BrokerService" where
  "handle_request h default_gpu_compute ck s request =
     (let response = BrokerResponse_default \<lparr> rs_task_id := rq_task_id request \<rparr> in
      case validate_request request (cf_protocol_limits (config s)) of
        Inl validation_error \<Rightarrow> (Inr (response \<lparr> rs_status := Rejected, rs_error := validation_error \<rparr>), s)
      | Inr _ \<Rightarrow>
          let finish = finish_response ck request in
          if cf_simulated_latency_ms (config s) > 0 \<and> ck_slept ck \<ge> deadline ck request then (Inr (finish response), s)
          else if rq_kind request = kGeospatialFrameKind then
            (Inr (finish (handle_geospatial_frame_request h (config s) request)), s)
          else if rq_kind request = kMediaStreamKind then
            (Inr (finish (handle_media_stream_request (config s) request)), s)
          else if rq_kind request = kWasmTaskKind then
            (case handle_wasm_task_request h default_gpu_compute (ck_wasm_elapsed_ms ck) (config s) (wasm_manager s) request of
               (r, m) \<Rightarrow> (Inr (finish r), s \<lparr> wasm_manager := m \<rparr>))
          else if is_lifecycle_kind (rq_kind request) then
            (case handle_wasm_lifecycle_request h (config s) (wasm_manager s) (placement s) request of
               (r, m, pl) \<Rightarrow> (map_sum (\<lambda>e. e) finish r, s \<lparr> wasm_manager := m, placement := pl \<rparr>))
          else
            (case compute_request default_gpu_compute s request of (r, s) \<Rightarrow> (map_sum (\<lambda>e. e) finish r, s)))"

section \<open>Payloads\<close>

lemma encode_doubles_eq: "encode_doubles_as_payload values = concat (map (be_bytes 8) values)"
  unfolding encode_doubles_as_payload_def be_bytes_shifts by (simp add: upt_rec)

lemma length_encode_doubles [simp]: "length (encode_doubles_as_payload values) = 8 * length values"
  by (simp add: encode_doubles_eq length_concat comp_def sum_list_triv)

lemma decode_doubles_eq:
  "length payload = 8 * n \<Longrightarrow>
    decode_payload_as_doubles payload = Inr (map (\<lambda>i. be_word (bytes_at payload (i * 8) 8)) [0..<n])"
proof -
  assume len: "length payload = 8 * n"
  have "foldl (\<lambda>bits byte. push_bit 8 bits OR ucast (payload ! (i * 8 + byte))) 0 [0..<8] =
      (be_word (bytes_at payload (i * 8) 8) :: u64)" if "i < n" for i
    using read64_eq [of "i * 8" payload] that len by (simp add: read64_def)
  then show ?thesis using len by (simp add: decode_payload_as_doubles_def)
qed

lemma concat_be_words:
  "length payload = 8 * n \<Longrightarrow>
    concat (map (be_bytes 8) (map (\<lambda>i. be_word (bytes_at payload (i * 8) 8) :: u64) [0..<n])) = payload"
proof (induction n arbitrary: payload)
  case (Suc n)
  have "bytes_at payload (Suc i * 8) 8 = bytes_at (drop 8 payload) (i * 8) 8" for i
    by (simp add: bytes_at_def add.commute)
  then have "map (\<lambda>i. be_word (bytes_at payload (i * 8) 8) :: u64) [0..<Suc n] =
      be_word (take 8 payload) # map (\<lambda>i. be_word (bytes_at (drop 8 payload) (i * 8) 8)) [0..<n]"
    by (simp add: upt_conv_Cons map_Suc_upt [symmetric] bytes_at_def del: upt_Suc map_Suc_upt)
  moreover have "be_bytes 8 (be_word (take 8 payload) :: u64) = take 8 payload"
    using Suc.prems by (intro be_bytes_be_word) simp_all
  ultimately show ?case using Suc.IH [of "drop 8 payload"] Suc.prems by simp
qed simp

lemma decode_doubles_iff:
  "decode_payload_as_doubles payload = Inr xs \<longleftrightarrow> payload = encode_doubles_as_payload xs"
proof (cases "length payload mod 8 = 0")
  case True
  then obtain n where n: "length payload = 8 * n" by auto
  let ?ys = "map (\<lambda>i. be_word (bytes_at payload (i * 8) 8) :: u64) [0..<n]"
  have p: "payload = encode_doubles_as_payload ?ys" using concat_be_words [OF n] by (simp add: encode_doubles_eq)
  have "?ys = xs" if "payload = encode_doubles_as_payload xs"
  proof -
    have len: "length xs = n" using that n by simp
    have "bytes_at (concat (map (be_bytes 8) xs)) (i * 8) 8 = be_bytes 8 (xs ! i)" if "i < length xs" for i
      using that
    proof (induction xs arbitrary: i)
      case (Cons x xs)
      then show ?case by (cases i) (simp_all add: bytes_at_def)
    qed simp
    then show ?thesis using len that by (intro nth_equalityI) (simp_all add: encode_doubles_eq)
  qed
  then show ?thesis using p by (auto simp: decode_doubles_eq [OF n])
next
  case False
  then have "payload \<noteq> encode_doubles_as_payload xs" by auto
  with False show ?thesis by (simp add: decode_payload_as_doubles_def)
qed

section \<open>Placement keeps the counters\<close>

definition placement_ok :: "GpuTopology \<Rightarrow> Placement \<Rightarrow> bool" where
  "placement_ok t pl \<longleftrightarrow> topo_wf t \<and> length (gpu_inflight pl) = nat (num_gpus t)"

lemma get_or_assign_client_id_inflight [simp]:
  "get_or_assign_client_id t pl source = (c, pl') \<Longrightarrow> gpu_inflight pl' = gpu_inflight pl"
  by (auto simp: get_or_assign_client_id_def Let_def split: option.splits prod.splits)

lemma place_source_ok:
  assumes "placement_ok t pl" "place_source t pl source = (gpu, pl')"
  shows "in_range (num_gpus t) gpu" "gpu_inflight pl' = gpu_inflight pl" "placement_ok t pl'"
proof -
  obtain c pl1 where c: "get_or_assign_client_id t pl source = (c, pl1)" by fastforce
  obtain g p s where p: "place t (placer pl1) c (inflight_depth pl1) () = (g, p, s)" by (metis prod_cases3)
  have r: "gpu = g" "pl' = pl1 \<lparr> placer := p \<rparr>" using assms(2) by (simp_all add: place_source_def c p)
  have "topo_wf t" using assms(1) by (simp add: placement_ok_def)
  from place_range [OF this p] show "in_range (num_gpus t) gpu" by (simp add: r)
  show "gpu_inflight pl' = gpu_inflight pl" using get_or_assign_client_id_inflight [OF c] by (simp add: r)
  with assms(1) show "placement_ok t pl'" by (simp add: placement_ok_def)
qed

lemma gpu_admit_leave:
  assumes "gpu_admit m pl g = (b, pl')" "nat g < length (gpu_inflight pl)"
  shows "gpu_inflight (if b then gpu_leave pl' g else pl') = gpu_inflight pl"
  using assms by (auto simp: gpu_admit_def gpu_leave_def Let_def split: if_splits)

lemma run_on_gpu_ok:
  assumes "placement_ok t pl" "run_on_gpu cfg f t pl request input = (resp, pl')"
  shows "gpu_inflight pl' = gpu_inflight pl" "placement_ok t pl'" "rs_task_id resp = rq_task_id request"
proof -
  obtain g pl1 where p: "place_source t pl (rq_source request) = (g, pl1)" by fastforce
  note ok = place_source_ok [OF assms(1) p]
  obtain b pl2 where a: "gpu_admit (cf_max_inflight_per_gpu cfg) pl1 g = (b, pl2)" by fastforce
  have "nat g < length (gpu_inflight pl1)" using ok by (simp add: placement_ok_def)
  from gpu_admit_leave [OF a this] have restored: "gpu_inflight (if b then gpu_leave pl2 g else pl2) = gpu_inflight pl"
    using ok(2) by simp
  have "pl' = (if b then gpu_leave pl2 g else pl2)"
    using assms(2) by (auto simp: run_on_gpu_def p a Let_def split: if_splits)
  with restored show inf: "gpu_inflight pl' = gpu_inflight pl" by simp
  with assms(1) show "placement_ok t pl'" by (simp add: placement_ok_def)
  show "rs_task_id resp = rq_task_id request"
    using assms(2) by (auto simp: run_on_gpu_def p a Let_def split: if_splits sum.splits)
qed

section \<open>The service invariant\<close>

definition service_ok :: "BrokerService \<Rightarrow> bool" where
  "service_ok s \<longleftrightarrow>
     (case topology s of
        None \<Rightarrow> \<not> use_gpu_placement s \<and> gpu_selector (wasm_manager s) = None
      | Some t \<Rightarrow> use_gpu_placement s \<and> placement_ok t (placement s) \<and>
          gpu_selector (wasm_manager s) \<in> {None, Some (service_selector t)})"

lemma BrokerService_init_cases:
  assumes "BrokerService_init cfg cuda = Inr s" "cf_wasm_manager cfg = None"
  obtains (gpu) t where "\<not> cf_force_cpu_fallback cfg" "0 < gpu_total cfg cuda" "topo_wf t" "config s = cfg" "use_gpu_placement s"
      "topology s = Some t" "gpu_inflight (placement s) = replicate (nat (num_gpus t)) 0"
      "gpu_selector (wasm_manager s) = Some (service_selector t)"
  | (cpu) "cf_force_cpu_fallback cfg \<or> gpu_total cfg cuda \<le> 0" "config s = cfg" "\<not> use_gpu_placement s" "topology s = None"
      "gpu_inflight (placement s) = []" "gpu_selector (wasm_manager s) = None"
proof (cases "\<not> cf_force_cpu_fallback cfg \<and> 0 < gpu_total cfg cuda")
  case True
  define topo where "topo = (if 0 \<le> cf_synthetic_gpu_count cfg then synthetic (gpu_total cfg cuda) else detect cuda)"
  note d = assms(1) [unfolded BrokerService_init_def Let_def topo_def [symmetric]]
  obtain t where t: "topo = Inr t" using d True by (cases topo) simp_all
  then have wf: "topo_wf t" unfolding topo_def by (auto intro: topo_wf_synthetic topo_wf_detect split: if_splits)
  have "s = \<lparr> config = cfg, use_gpu_placement = True, topology = Some t,
      placement = \<lparr> placer = Placer_init (cf_backlog_threshold cfg), gpu_inflight = replicate (nat (num_gpus t)) 0,
        source_to_client = Map.empty, next_client_id = 1 \<rparr>,
      wasm_manager = WasmSandboxManager_init False (Some (service_selector t)) \<rparr>"
    using d True assms(2) t by simp
  with True wf show thesis by (intro gpu [of t]) (simp_all add: WasmSandboxManager_init_def)
next
  case False
  note d = assms(1) [unfolded BrokerService_init_def Let_def]
  have "s = \<lparr> config = cfg, use_gpu_placement = False, topology = None,
      placement = \<lparr> placer = Placer_init (cf_backlog_threshold cfg), gpu_inflight = [],
        source_to_client = Map.empty, next_client_id = 1 \<rparr>,
      wasm_manager = WasmSandboxManager_init True None \<rparr>"
    using d False assms(2) by simp
  with False show thesis by (intro cpu) (simp_all add: WasmSandboxManager_init_def not_less)
qed

lemma service_ok_init:
  assumes "BrokerService_init cfg cuda = Inr s" "cf_wasm_manager cfg = None"
  shows "service_ok s \<and> config s = cfg"
  using assms by (cases rule: BrokerService_init_cases) (simp_all add: service_ok_def placement_ok_def)

text \<open>What the WASM manager's operations keep.\<close>

lemma task_enter_selector: "task_enter m r = (x, m') \<Longrightarrow> gpu_selector m' = gpu_selector m"
  by (auto simp: task_enter_def Let_def split: option.splits if_splits)

lemma task_leave_selector [simp]: "gpu_selector (task_leave k m) = gpu_selector m"
  by (simp add: task_leave_def Let_def split: option.split)

lemma handle_task_selector: "handle_task h f c e m r = (resp, m') \<Longrightarrow> gpu_selector m' = gpu_selector m"
  by (auto simp: handle_task_def dest: task_enter_selector split: prod.splits sum.splits)

lemma service_selector_ok:
  assumes "placement_ok t pl" "service_selector t pl src tgt = (r, pl')"
  shows "gpu_inflight pl' = gpu_inflight pl" "placement_ok t pl'" "\<exists>g. r = Inr g"
  using assms place_source_ok [OF assms(1), of src]
  by (auto simp: service_selector_def split: if_splits prod.splits)

text \<open>The contract between the WASM manager and its GPU selector: the selector keeps an invariant of the
  caller's state and does not throw.  Then no lifecycle operation throws, and all keep the invariant.\<close>

locale lifecycle_client =
  fixes inv :: "'w \<Rightarrow> bool" and sel :: "'w GpuSelectorFn"
  assumes sel_keeps: "inv w \<Longrightarrow> sel w src tgt = (r, w') \<Longrightarrow> inv w' \<and> (\<exists>g. r = Inr g)"
begin

lemma prepare_register_total:
  assumes "inv w" "gpu_selector m \<in> {None, Some sel}" "prepare_register m request w = (r, m', w')"
  shows "gpu_selector m' = gpu_selector m \<and> inv w' \<and> (\<exists>x. r = Inr x)"
proof -
  obtain g w1 where g: "(if 0 \<le> sint (lq_target_gpu request) then (Inr (lq_target_gpu request), w)
      else if wm_force_cpu m then (Inr (-1), w)
      else case gpu_selector m of Some sel \<Rightarrow> sel w (lq_sandbox_id request) (lq_target_gpu request) | None \<Rightarrow> (Inr (-1), w)) = (g, w1)"
    by fastforce
  have "inv w1 \<and> (\<exists>x. g = Inr x)" using g assms(1,2) sel_keeps [OF assms(1)] by (auto split: if_splits)
  moreover then obtain x where "g = Inr x" by blast
  ultimately show ?thesis using assms(3) unfolding prepare_register_def Let_def g by auto
qed

lemma handle_lifecycle_total:
  assumes "inv w" "gpu_selector m \<in> {None, Some sel}" "handle_lifecycle m request w = (r, m', w')"
  shows "gpu_selector m' = gpu_selector m \<and> inv w' \<and> (\<exists>x. r = Inr x)"
proof (cases "lq_action request = Prepare")
  case True
  then have "prepare_module m request w = (r, m', w')" using assms(3) by (simp add: handle_lifecycle_def)
  then consider "prepare_register m request w = (r, m', w')" | "m' = m" "w' = w" "\<exists>x. r = Inr x"
    by (auto simp: prepare_module_def Let_def split: option.splits if_splits)
  then show ?thesis using prepare_register_total [OF assms(1,2)] assms(1) by cases auto
next
  case False
  then show ?thesis
    using assms(1,3)
    by (auto simp: handle_lifecycle_def drain_module_def release_module_def Let_def
        split: WasmLifecycleAction.splits prod.splits option.splits if_splits)
qed

lemma handle_wasm_lifecycle_total:
  assumes "inv w" "gpu_selector m \<in> {None, Some sel}" "handle_wasm_lifecycle_request h cfg m w request = (r, m', w')"
  shows "gpu_selector m' = gpu_selector m \<and> inv w' \<and> (\<exists>x. r = Inr x \<and> rs_task_id x = rq_task_id request)"
proof (cases "decode_wasm_lifecycle_request h (rq_payload request) (service_wasm_limits cfg)")
  case (Inl e)
  then show ?thesis using assms by (auto simp: handle_wasm_lifecycle_request_def Let_def)
next
  case (Inr q)
  let ?q = "q \<lparr> lq_action := lifecycle_action_of_kind (rq_kind request) (lq_action q) \<rparr>"
  obtain r1 m1 w1 where l: "handle_lifecycle m ?q w = (r1, m1, w1)" by (metis prod_cases3)
  from handle_lifecycle_total [OF assms(1,2) l] obtain x where x: "r1 = Inr x" by blast
  then show ?thesis
    using handle_lifecycle_total [OF assms(1,2) l] assms(3)
    by (auto simp: handle_wasm_lifecycle_request_def Let_def Inr l split: sum.splits)
qed

end

interpretation service_sel: lifecycle_client "\<lambda>pl. placement_ok t pl \<and> gpu_inflight pl = I" "service_selector t" for t I
  by unfold_locales (auto dest: service_selector_ok)

text \<open>Without a topology the manager has no selector and the placement is never touched.\<close>

interpretation no_sel: lifecycle_client "\<lambda>pl. pl = P" "\<lambda>pl src tgt. (Inr (-1), pl)" for P :: Placement
  by unfold_locales auto

section \<open>Every request is answered\<close>

lemma compute_request_ok:
  assumes "service_ok s" "compute_request f s request = (r, s')"
  shows "service_ok s' \<and> config s' = config s \<and> gpu_inflight (placement s') = gpu_inflight (placement s) \<and>
    (\<exists>resp. r = Inr resp \<and> rs_task_id resp = rq_task_id request)"
proof -
  obtain policy profile safe where d: "dispatch_profile s request = (policy, profile, safe)" by (metis prod_cases3)
  have pol: "gpu_available policy = use_gpu_placement s"
      "npu_available policy \<Longrightarrow> \<exists>e. cf_npu_executor (config s) = Some e"
    using d by (auto simp: dispatch_profile_def base_policy_def Let_def split: option.splits if_splits)
  show ?thesis
  proof (cases "decode_payload_as_doubles (rq_payload request)")
    case (Inl e)
    then show ?thesis using assms by (simp add: compute_request_def d Let_def) auto
  next
    case (Inr input)
    show ?thesis
    proof (cases "select_backend policy profile")
      case Gpu
      then have "use_gpu_placement s" using pol(1) by (simp add: select_backend_gpu_iff)
      then obtain t where t: "topology s = Some t" "placement_ok t (placement s)"
        using assms(1) by (auto simp: service_ok_def split: option.splits)
      obtain gr pl where run: "run_on_gpu (config s) f t (placement s) request input = (gr, pl)" by fastforce
      show ?thesis
        using assms run_on_gpu_ok [OF t(2) run] t
        by (auto simp: compute_request_def d Let_def Inr Gpu run service_ok_def cpu_response_def BrokerResponse_default_def split: if_splits)
    next
      case Npu
      then obtain e where "cf_npu_executor (config s) = Some e" using pol(2) by (auto simp: select_backend_npu_iff)
      then show ?thesis
        using assms by (auto simp: compute_request_def d Let_def Inr Npu cpu_response_def split: if_splits sum.splits)
    next
      case Cpu
      then show ?thesis using assms by (auto simp: compute_request_def d Let_def Inr cpu_response_def)
    qed
  qed
qed

lemma finish_response_task_id [simp]: "rs_task_id (finish_response ck request r) = rs_task_id r"
  by (simp add: finish_response_def Let_def)

lemma handle_frames_task_id [simp]:
  "rs_task_id (handle_geospatial_frame_request h cfg request) = rq_task_id request"
  "rs_task_id (handle_media_stream_request cfg request) = rq_task_id request"
  by (simp_all add: handle_geospatial_frame_request_def handle_media_stream_request_def Let_def split: sum.split)

lemma handle_wasm_task_ok:
  assumes "handle_wasm_task_request h f e cfg m request = (r, m')"
  shows "rs_task_id r = rq_task_id request" "gpu_selector m' = gpu_selector m"
  using assms
  by (auto simp: handle_wasm_task_request_def Let_def dest: handle_task_selector split: sum.splits prod.splits)

lemma lifecycle_request_ok:
  assumes "service_ok s" "handle_wasm_lifecycle_request h (config s) (wasm_manager s) (placement s) request = (r, m', pl')"
  shows "service_ok (s \<lparr> wasm_manager := m', placement := pl' \<rparr>) \<and> gpu_inflight pl' = gpu_inflight (placement s) \<and>
    (\<exists>x. r = Inr x \<and> rs_task_id x = rq_task_id request)"
proof (cases "topology s")
  case None
  with assms(1) show ?thesis
    using no_sel.handle_wasm_lifecycle_total [OF refl _ assms(2)] by (auto simp: service_ok_def)
next
  case (Some t)
  with assms(1) show ?thesis
    using service_sel.handle_wasm_lifecycle_total [OF _ _ assms(2), of t "gpu_inflight (placement s)"]
    by (auto simp: service_ok_def)
qed

text \<open>The routes through \<^verbatim>\<open>handle_request\<close>.\<close>

definition timed_out_early :: "Clock \<Rightarrow> BrokerService \<Rightarrow> BrokerRequest \<Rightarrow> bool" where
  "timed_out_early ck s request \<longleftrightarrow> cf_simulated_latency_ms (config s) > 0 \<and> ck_slept ck \<ge> deadline ck request"

lemma handle_request_cases:
  assumes "handle_request h f ck s request = (r, s')"
  obtains (invalid) e where "validate_request request (cf_protocol_limits (config s)) = Inl e" "s' = s"
      "r = Inr (BrokerResponse_default \<lparr> rs_task_id := rq_task_id request, rs_status := Rejected, rs_error := e \<rparr>)"
  | (early) "validate_request request (cf_protocol_limits (config s)) = Inr ()" "timed_out_early ck s request" "s' = s"
      "r = Inr (finish_response ck request (BrokerResponse_default \<lparr> rs_task_id := rq_task_id request \<rparr>))"
  | (geo) "validate_request request (cf_protocol_limits (config s)) = Inr ()" "\<not> timed_out_early ck s request"
      "rq_kind request = kGeospatialFrameKind" "s' = s"
      "r = Inr (finish_response ck request (handle_geospatial_frame_request h (config s) request))"
  | (media) "validate_request request (cf_protocol_limits (config s)) = Inr ()" "\<not> timed_out_early ck s request"
      "rq_kind request = kMediaStreamKind" "s' = s"
      "r = Inr (finish_response ck request (handle_media_stream_request (config s) request))"
  | (task) x m' where "rq_kind request = kWasmTaskKind"
      "handle_wasm_task_request h f (ck_wasm_elapsed_ms ck) (config s) (wasm_manager s) request = (x, m')"
      "r = Inr (finish_response ck request x)" "s' = s \<lparr> wasm_manager := m' \<rparr>"
  | (lifecycle) x m' pl' where "is_lifecycle_kind (rq_kind request)"
      "handle_wasm_lifecycle_request h (config s) (wasm_manager s) (placement s) request = (x, m', pl')"
      "r = map_sum (\<lambda>e. e) (finish_response ck request) x" "s' = s \<lparr> wasm_manager := m', placement := pl' \<rparr>"
  | (compute) x where "validate_request request (cf_protocol_limits (config s)) = Inr ()" "\<not> timed_out_early ck s request"
      "compute_request f s request = (x, s')" "r = map_sum (\<lambda>e. e) (finish_response ck request) x"
proof (cases "validate_request request (cf_protocol_limits (config s))")
  case (Inl e)
  then show thesis using assms by (intro invalid [of e]) (simp_all add: handle_request_def)
next
  case (Inr u)
  note d = assms [unfolded handle_request_def Let_def Inr sum.case timed_out_early_def [symmetric]]
  have v: "validate_request request (cf_protocol_limits (config s)) = Inr ()" using Inr by simp
  consider "timed_out_early ck s request" | "\<not> timed_out_early ck s request" "rq_kind request = kGeospatialFrameKind"
    | "\<not> timed_out_early ck s request" "rq_kind request \<noteq> kGeospatialFrameKind" "rq_kind request = kMediaStreamKind"
    | "\<not> timed_out_early ck s request" "rq_kind request \<noteq> kGeospatialFrameKind" "rq_kind request \<noteq> kMediaStreamKind"
      "rq_kind request = kWasmTaskKind"
    | "\<not> timed_out_early ck s request" "rq_kind request \<noteq> kGeospatialFrameKind" "rq_kind request \<noteq> kMediaStreamKind"
      "rq_kind request \<noteq> kWasmTaskKind" "is_lifecycle_kind (rq_kind request)"
    | "\<not> timed_out_early ck s request" "rq_kind request \<noteq> kGeospatialFrameKind" "rq_kind request \<noteq> kMediaStreamKind"
      "rq_kind request \<noteq> kWasmTaskKind" "\<not> is_lifecycle_kind (rq_kind request)" by blast
  then show thesis
  proof cases
    case 1
    with d show thesis by (intro early v) auto
  next
    case 2
    with d show thesis by (intro geo v) auto
  next
    case 3
    with d show thesis by (intro media v) auto
  next
    case 4
    obtain x m' where x: "handle_wasm_task_request h f (ck_wasm_elapsed_ms ck) (config s) (wasm_manager s) request = (x, m')" by fastforce
    with d 4 show thesis by (intro task [of x m']) simp_all
  next
    case 5
    obtain x m' pl' where "handle_wasm_lifecycle_request h (config s) (wasm_manager s) (placement s) request = (x, m', pl')"
      by (metis prod_cases3)
    with d 5 show thesis by (intro lifecycle [of x m' pl']) simp_all
  next
    case 6
    obtain x s1 where "compute_request f s request = (x, s1)" by fastforce
    with d 6 show thesis by (intro compute [of x] v) simp_all
  qed
qed

lemma handle_request_ok:
  assumes "service_ok s" "handle_request h f ck s request = (r, s')"
  shows "service_ok s' \<and> config s' = config s \<and> gpu_inflight (placement s') = gpu_inflight (placement s) \<and>
    (\<exists>resp. r = Inr resp \<and> rs_task_id resp = rq_task_id request)"
  using assms(2)
proof (cases rule: handle_request_cases)
  case (task x m')
  from handle_wasm_task_ok [OF task(2)] assms(1) task(3,4) show ?thesis by (auto simp: service_ok_def split: option.splits)
next
  case (lifecycle x m' pl')
  from lifecycle_request_ok [OF assms(1) lifecycle(2)] lifecycle(3,4) show ?thesis by auto
next
  case (compute x)
  from compute_request_ok [OF assms(1) compute(3)] compute(4) show ?thesis by auto
qed (use assms(1) in simp_all)

section \<open>Properties\<close>

definition sample_config :: BrokerServiceConfig where
  "sample_config = BrokerServiceConfig_default \<lparr> cf_synthetic_gpu_count := 2, cf_default_backend := Gpu,
     cf_max_inflight_per_gpu := 1, cf_gpu_compute_fn := Some (\<lambda>xs g. Inr xs) \<rparr>"

definition sample_service :: BrokerService where
  "sample_service = (case BrokerService_init sample_config None of Inr s \<Rightarrow> s | Inl e \<Rightarrow> undefined)"

lemma sample_service_init: "BrokerService_init sample_config None = Inr sample_service"
proof -
  have "\<exists>s. BrokerService_init sample_config None = Inr s"
    by (simp add: BrokerService_init_def sample_config_def BrokerServiceConfig_default_def synthetic_def Let_def)
  then show ?thesis by (auto simp: sample_service_def)
qed

lemma sample_service_ok: "service_ok sample_service" "config sample_service = sample_config"
proof -
  have "cf_wasm_manager sample_config = None" by (simp add: sample_config_def BrokerServiceConfig_default_def)
  from service_ok_init [OF sample_service_init this] show "service_ok sample_service" "config sample_service = sample_config" by simp_all
qed

definition sample_clock :: Clock where
  "sample_clock = \<lparr> ck_started = 0, ck_slept = 0, ck_ended = 5000000, ck_wasm_elapsed_ms = 1 \<rparr>"

definition service_task :: BrokerRequest where
  "service_task = \<lparr> rq_task_id = ''t'', rq_source = ''a'', rq_destination = ''b'', rq_kind = ''compute'', rq_priority = 0,
     rq_timeout_ms = 100, rq_payload = encode_doubles_as_payload [0x3ff0000000000000], rq_profile = None,
     rq_device_preference = ''cpu'' \<rparr>"

text \<open>C2. A service built without an external WASM manager answers every request, of any kind and with any payload:
  no exception leaves the handler and no null placer or executor is used, the response carries the request's task id,
  the GPU in-flight counters are back at their values, and the invariant holds again for the next request.\<close>

theorem handle_request_total:
  assumes "service_ok s"
  shows "\<exists>resp s'. handle_request h default_gpu_compute ck s request = (Inr resp, s') \<and>
    rs_task_id resp = rq_task_id request \<and> service_ok s' \<and> config s' = config s \<and>
    gpu_inflight (placement s') = gpu_inflight (placement s)"
proof -
  obtain r s' where "handle_request h default_gpu_compute ck s request = (r, s')" by fastforce
  with handle_request_ok [OF assms this] show ?thesis by auto
qed

theorem handle_request_total_witness:
  "\<exists>resp s'. handle_request LittleEndian (\<lambda>xs g. Inl ''no device'') sample_clock sample_service service_task = (Inr resp, s') \<and>
     rs_task_id resp = ''t'' \<and> service_ok s'"
  using handle_request_total [OF sample_service_ok(1), of LittleEndian "\<lambda>xs g. Inl ''no device''" sample_clock service_task]
  by (auto simp: service_task_def)

text \<open>Every service that construction returns starts in that invariant, with all in-flight counters zero, GPU
  placement exactly when GPUs are there and the CPU is not forced, and one counter per GPU.\<close>

lemma service_init_ok:
  assumes "BrokerService_init cfg cuda = Inr s" "cf_wasm_manager cfg = None"
  shows "service_ok s \<and> (\<forall>n \<in> set (gpu_inflight (placement s)). n = 0) \<and>
    int (length (gpu_inflight (placement s))) = gpu_count s \<and>
    (has_gpu_topology s \<longleftrightarrow> \<not> cf_force_cpu_fallback cfg \<and>
       0 < gpu_total cfg cuda)"
proof -
  have "service_ok s" using service_ok_init [OF assms] by simp
  show ?thesis
  proof (rule BrokerService_init_cases [OF assms], goal_cases)
    case (1 t)
    with \<open>service_ok s\<close> topo_wfD(1) [OF 1(3)] show ?thesis by (simp add: gpu_count_def has_gpu_topology_def)
  next
    case 2
    then have "\<not> (\<not> cf_force_cpu_fallback cfg \<and> 0 < gpu_total cfg cuda)" by linarith
    with 2(3,4,5) \<open>service_ok s\<close> show ?thesis by (simp add: gpu_count_def has_gpu_topology_def)
  qed
qed

text \<open>C30. A valid request that ends at or after its deadline is answered with status Timeout and an empty result, whatever
  the backend produced; an answer with status Ok was ready before the deadline and reports the elapsed milliseconds.\<close>

theorem handle_request_deadline:
  assumes "handle_request h default_gpu_compute ck s request = (Inr resp, s')"
    "validate_request request (cf_protocol_limits (config s)) = Inr ()"
  shows "rs_latency_ms resp = word_of_nat ((ck_ended ck - ck_started ck) div 1000000) \<and>
    (deadline ck request \<le> ck_ended ck \<longrightarrow>
       rs_status resp = Timeout \<and> rs_result resp = [] \<and> rs_error resp = ''request timed out'') \<and>
    (rs_status resp = Ok \<longrightarrow> ck_ended ck < deadline ck request)"
proof -
  obtain x where "resp = finish_response ck request x"
    using assms(1)
  proof (cases rule: handle_request_cases)
    case (lifecycle x m' pl')
    then show thesis using that by (cases x) auto
  next
    case (compute x)
    then show thesis using that by (cases x) auto
  qed (use assms(2) that in auto)
  then show ?thesis by (simp add: finish_response_def Let_def not_le)
qed

text \<open>The sample request on the sample service.\<close>

lemma service_task_valid: "validate_request service_task (cf_protocol_limits (config sample_service)) = Inr ()"
  by (simp add: sample_service_ok validate_request_def service_task_def sample_config_def BrokerServiceConfig_default_def
      ProtocolLimits_default_def BROKER_MAX_TIMEOUT_MS_def)

theorem handle_request_deadline_witness:
  "\<exists>resp s'. handle_request LittleEndian (\<lambda>xs g. Inr xs) (sample_clock \<lparr> ck_ended := 100000000 \<rparr>) sample_service service_task = (Inr resp, s') \<and>
     rs_status resp = Timeout"
proof -
  let ?ck = "sample_clock \<lparr> ck_ended := 100000000 \<rparr>"
  obtain r s' where r: "handle_request LittleEndian (\<lambda>xs g. Inr xs) ?ck sample_service service_task = (r, s')" by fastforce
  with handle_request_ok [OF sample_service_ok(1) r] obtain resp where "r = Inr resp" by blast
  moreover have "deadline ?ck service_task \<le> ck_ended ?ck" by (simp add: deadline_def sample_clock_def service_task_def)
  ultimately show ?thesis using handle_request_deadline [OF _ service_task_valid] r by blast
qed

text \<open>What the wire-carried device preference of a request without a profile selects: \<^verbatim>\<open>cpu\<close> always the CPU; \<^verbatim>\<open>npu\<close> the
  NPU when one is enabled and available; \<^verbatim>\<open>gpu\<close> the GPU when there is one and the payload reaches the byte threshold;
  no preference or \<^verbatim>\<open>auto\<close> the configured default backend.  A forced CPU overrides all of them.\<close>

lemma device_preference_dispatch:
  assumes "rq_profile request = None" "dispatch_profile s request = (policy, profile, safe)"
  shows "select_backend policy profile =
    (if cf_force_cpu_fallback (config s) then Cpu
     else if rq_device_preference request = ''npu'' then (if npu_available (base_policy s) then Npu else Cpu)
     else if rq_device_preference request = ''gpu'' then
       (if use_gpu_placement s \<and> cf_gpu_offload_threshold_bytes (config s) \<le> length (rq_payload request) then Gpu else Cpu)
     else if rq_device_preference request = ''cpu'' then Cpu
     else if cf_default_backend (config s) = Gpu \<and> use_gpu_placement s then Gpu else Cpu)"
  using assms
  by (auto simp: dispatch_profile_def select_backend_def base_policy_def Let_def profile_requires_cpu_def TaskProfile_default_def
      split: if_splits)

text \<open>C37. With the default limits and offload thresholds the \<^verbatim>\<open>gpu\<close> preference has no effect: a valid request carries at
  most 512 KiB, the byte threshold is 1 MiB, and the wire carries no operation count, so such a request is never
  dispatched to the GPU.\<close>

theorem gpu_preference_ineffective:
  assumes "rq_profile request = None" "rq_device_preference request = ''gpu''"
    "cf_protocol_limits (config s) = ProtocolLimits_default"
    "cf_gpu_offload_threshold_bytes (config s) = cf_gpu_offload_threshold_bytes BrokerServiceConfig_default"
    "validate_request request (cf_protocol_limits (config s)) = Inr ()"
    "dispatch_profile s request = (policy, profile, safe)"
  shows "select_backend policy profile = Cpu"
proof -
  have "length (rq_payload request) < cf_gpu_offload_threshold_bytes (config s)"
    using assms(3-5) by (simp add: validate_request_Inr_iff ProtocolLimits_default_def BrokerServiceConfig_default_def)
  then show ?thesis
    using assms(1,2,6)
    by (auto simp: dispatch_profile_def select_backend_def base_policy_def Let_def profile_requires_cpu_def TaskProfile_default_def
      split: if_splits)
qed

theorem gpu_preference_ineffective_witness:
  "\<exists>policy profile safe. dispatch_profile sample_service (service_task \<lparr> rq_device_preference := ''gpu'' \<rparr>) = (policy, profile, safe) \<and>
     select_backend policy profile = Cpu"
proof -
  let ?r = "service_task \<lparr> rq_device_preference := ''gpu'' \<rparr>"
  obtain policy profile safe where d: "dispatch_profile sample_service ?r = (policy, profile, safe)" by (metis prod_cases3)
  have "rq_profile ?r = None" "rq_device_preference ?r = ''gpu''" by (simp_all add: service_task_def)
  moreover have "cf_protocol_limits (config sample_service) = ProtocolLimits_default"
      "cf_gpu_offload_threshold_bytes (config sample_service) = cf_gpu_offload_threshold_bytes BrokerServiceConfig_default"
    by (simp_all add: sample_service_ok sample_config_def BrokerServiceConfig_default_def)
  moreover have "validate_request ?r (cf_protocol_limits (config sample_service)) = Inr ()"
    using service_task_valid by (simp add: validate_request_def)
  ultimately have "select_backend policy profile = Cpu" using d by (rule gpu_preference_ineffective)
  with d show ?thesis by blast
qed

text \<open>What a plain request yields once a backend is selected.\<close>

definition plain_kind :: "string \<Rightarrow> bool" where
  "plain_kind kind \<longleftrightarrow> kind \<noteq> kGeospatialFrameKind \<and> kind \<noteq> kMediaStreamKind \<and> kind \<noteq> kWasmTaskKind \<and> \<not> is_lifecycle_kind kind"

lemma handle_plain_request:
  assumes "validate_request request (cf_protocol_limits (config s)) = Inr ()" "\<not> timed_out_early ck s request"
    "plain_kind (rq_kind request)" "compute_request f s request = (Inr x, s')"
  shows "handle_request h f ck s request = (Inr (finish_response ck request x), s')"
  using assms unfolding handle_request_def Let_def timed_out_early_def [symmetric] by (simp add: plain_kind_def)

lemma finish_in_time:
  "ck_ended ck < deadline ck request \<Longrightarrow>
    finish_response ck request x = x \<lparr> rs_latency_ms := word_of_nat ((ck_ended ck - ck_started ck) div 1000000) \<rparr>"
  by (simp add: finish_response_def Let_def)

text \<open>C32. A plain request for which the CPU is selected is answered in time with the input vector doubled element by
  element, whatever the elements are: the sign is kept, the magnitude is doubled exactly when the result is a finite double, an element
  that is infinite or too large gives infinity, and a NaN gives a NaN; no service state changes.\<close>

theorem cpu_request_result:
  assumes "validate_request request (cf_protocol_limits (config s)) = Inr ()" "\<not> timed_out_early ck s request"
    "ck_ended ck < deadline ck request" "plain_kind (rq_kind request)" "rq_payload request = encode_doubles_as_payload xs"
    "dispatch_profile s request = (policy, profile, safe)" "select_backend policy profile = Cpu"
  shows "\<exists>resp ys. handle_request h default_gpu_compute ck s request = (Inr resp, s) \<and> rs_status resp = Ok \<and>
    rs_backend resp = Cpu \<and> rs_selected_gpu resp = -1 \<and> \<not> rs_fell_back_to_cpu resp \<and> rs_error resp = [] \<and>
    decode_payload_as_doubles (rs_result resp) = Inr ys \<and> length ys = length xs \<and>
    (\<forall>i < length xs. doubled (xs ! i) (ys ! i))"
proof -
  have "decode_payload_as_doubles (rq_payload request) = Inr xs" by (simp add: decode_doubles_iff assms(5))
  then have "compute_request default_gpu_compute s request =
      (Inr (cpu_response (BrokerResponse_default \<lparr> rs_task_id := rq_task_id request \<rparr>) xs), s)"
    using assms(6,7) by (simp add: compute_request_def Let_def)
  note r = handle_plain_request [OF assms(1,2,4) this, of h]
  show ?thesis
    by (intro exI [of _ "map double_mul2 xs"] exI conjI, rule r)
      (auto simp: finish_in_time [OF assms(3)] cpu_response_def BrokerResponse_default_def decode_doubles_iff cpu_compute_def
        doubled_mul2)
qed

theorem cpu_request_result_witness:
  "\<exists>resp ys. handle_request BigEndian (\<lambda>xs g. Inl ''unused'') sample_clock sample_service service_task = (Inr resp, sample_service) \<and>
     rs_status resp = Ok \<and> decode_payload_as_doubles (rs_result resp) = Inr ys \<and> doubled 0x3ff0000000000000 (ys ! 0) \<and>
     double_magnitude (ys ! 0) = 2 * double_magnitude 0x3ff0000000000000"
proof -
  obtain policy profile safe where d: "dispatch_profile sample_service service_task = (policy, profile, safe)" by (metis prod_cases3)
  have "select_backend policy profile = Cpu"
    using d by (auto simp: dispatch_profile_def service_task_def select_backend_def)
  moreover have "\<not> timed_out_early sample_clock sample_service service_task"
    by (simp add: timed_out_early_def sample_service_ok sample_config_def BrokerServiceConfig_default_def)
  moreover have "ck_ended sample_clock < deadline sample_clock service_task" "plain_kind (rq_kind service_task)"
      "rq_payload service_task = encode_doubles_as_payload [0x3ff0000000000000]"
    by (simp_all add: deadline_def sample_clock_def service_task_def plain_kind_def is_lifecycle_kind_def kGeospatialFrameKind_def
        kMediaStreamKind_def kWasmTaskKind_def kWasmLifecycleKind_def kWasmLifecyclePrepareKind_def kWasmLifecycleDrainKind_def
        kWasmLifecycleReleaseKind_def kWasmLifecycleQueryKind_def)
  ultimately obtain resp ys where r: "handle_request BigEndian (\<lambda>xs g. Inl ''unused'') sample_clock sample_service service_task = (Inr resp, sample_service)"
      "rs_status resp = Ok" "decode_payload_as_doubles (rs_result resp) = Inr ys" "doubled 0x3ff0000000000000 (ys ! 0)"
    using cpu_request_result [OF service_task_valid _ _ _ _ d, of sample_clock "[0x3ff0000000000000]" BigEndian "\<lambda>xs g. Inl ''unused''"]
    by fastforce
  have "double_isfinite 0x3ff0000000000000" "double_exponent 0x3ff0000000000000 \<noteq> 2046" by (simp_all add: double_isfinite_def double_exponent_def)
  with r(4) double_magnitude_exponent [of "0x3ff0000000000000"] have "double_magnitude (ys ! 0) = 2 * double_magnitude 0x3ff0000000000000"
    unfolding doubled_def by metis
  with r show ?thesis by blast
qed





text \<open>Geospatial and media requests are acknowledged by an exact echo: the status is Ok if and only if the payload is a
  valid frame, the result is then the request payload byte for byte, and otherwise the request is rejected with the decoder's
  message; the re-encoding step never fails.\<close>

lemma frame_requests_echo:
  "handle_geospatial_frame_request h cfg request =
     (case decode_nxr1_frame h (rq_payload request) (max_payload_bytes (cf_protocol_limits cfg)) of
        Inl e \<Rightarrow> BrokerResponse_default \<lparr> rs_task_id := rq_task_id request, rs_status := Rejected, rs_error := e \<rparr>
      | Inr _ \<Rightarrow> BrokerResponse_default \<lparr> rs_task_id := rq_task_id request, rs_status := Ok, rs_result := rq_payload request \<rparr>)
   \<and> handle_media_stream_request cfg request =
     (case decode_media_stream_frame (rq_payload request) (max_payload_bytes (cf_protocol_limits cfg))
         (max_string_bytes (cf_protocol_limits cfg)) of
        Inl e \<Rightarrow> BrokerResponse_default \<lparr> rs_task_id := rq_task_id request, rs_status := Rejected, rs_error := e \<rparr>
      | Inr _ \<Rightarrow> BrokerResponse_default \<lparr> rs_task_id := rq_task_id request, rs_status := Ok, rs_result := rq_payload request \<rparr>)"
proof -
  let ?p = "rq_payload request" and ?m = "max_payload_bytes (cf_protocol_limits cfg)" and ?s = "max_string_bytes (cf_protocol_limits cfg)"
  have "decode_nxr1_frame h ?p ?m = Inr f \<Longrightarrow> encode_nxr1_frame h f ?m = Inr ?p" for f
    by (simp add: decode_nxr1_frame_iff)
  moreover have "decode_media_stream_frame ?p ?m ?s = Inr f \<Longrightarrow> encode_media_stream_frame f ?m ?s = Inr ?p" for f
    by (simp add: decode_media_stream_frame_iff)
  ultimately show ?thesis
    unfolding handle_geospatial_frame_request_def handle_media_stream_request_def Let_def
    by (cases "decode_nxr1_frame h ?p ?m"; cases "decode_media_stream_frame ?p ?m ?s") simp_all
qed

end
