(* ===== verification/Gpu_Capacity.thy ===== *)
theory Gpu_Capacity
  imports Broker_Service
begin

text \<open>
  Concurrent requests on the GPU path.  \<^verbatim>\<open>run_on_gpu\<close> of \<^verbatim>\<open>src/broker_service.cpp\<close> runs in one thread per
  connection; between its locked sections any other thread may run.  \<open>gpu_step\<close> interleaves those sections:
  the client lookup, the placement (whose depth readings may be stale, so they are arbitrary), the
  admission and the exit.  A state is the placement with the GPUs of the threads that have been placed
  but not yet admitted and of the threads that compute.
\<close>

inductive gpu_step ::
  "GpuTopology \<Rightarrow> nat \<Rightarrow> Placement \<times> int multiset \<times> int multiset \<Rightarrow> Placement \<times> int multiset \<times> int multiset \<Rightarrow> bool"
  for t max_inflight where
  client: "get_or_assign_client_id t pl source = (c, pl') \<Longrightarrow> gpu_step t max_inflight (pl, P, R) (pl', P, R)"
| place: "place t (placer pl) c (queue_depth :: nat \<Rightarrow> int \<Rightarrow> nat \<times> nat) s = (g, p', s') \<Longrightarrow>
    gpu_step t max_inflight (pl, P, R) (pl \<lparr> placer := p' \<rparr>, add_mset g P, R)"
| admit: "gpu_admit max_inflight pl g = (True, pl') \<Longrightarrow>
    gpu_step t max_inflight (pl, add_mset g P, R) (pl', P, add_mset g R)"
| refuse: "gpu_admit max_inflight pl g = (False, pl') \<Longrightarrow>
    gpu_step t max_inflight (pl, add_mset g P, R) (pl', P, R)"
| leave: "gpu_step t max_inflight (pl, P, add_mset g R) (gpu_leave pl g, P, R)"

inductive_cases gpu_stepE: "gpu_step t m (pl, P, R) (pl', P', R')"

definition gpu_inv :: "GpuTopology \<Rightarrow> nat \<Rightarrow> Placement \<times> int multiset \<times> int multiset \<Rightarrow> bool" where
  "gpu_inv t m = (\<lambda>(pl, P, R). placement_ok t pl \<and> (\<forall>g \<in># P + R. in_range (num_gpus t) g) \<and>
     (\<forall>g. in_range (num_gpus t) g \<longrightarrow> gpu_inflight pl ! nat g = count R g \<and> count R g \<le> m))"

lemma gpu_admit_True:
  "gpu_admit m pl g = (True, pl') \<Longrightarrow>
    pl' = pl \<lparr> gpu_inflight := (gpu_inflight pl)[nat g := gpu_inflight pl ! nat g + 1] \<rparr> \<and> gpu_inflight pl ! nat g + 1 \<le> m"
  by (auto simp: gpu_admit_def Let_def split: if_splits)

lemma gpu_admit_False: "gpu_admit m pl g = (False, pl') \<Longrightarrow> pl' = pl \<and> m \<le> gpu_inflight pl ! nat g"
  by (auto simp: gpu_admit_def Let_def split: if_splits)

lemma gpu_step_inv: "gpu_step t m x y \<Longrightarrow> gpu_inv t m x \<Longrightarrow> gpu_inv t m y"
proof (induction rule: gpu_step.induct)
  case (client pl source c pl' P R)
  then show ?case using get_or_assign_client_id_inflight [OF client(1)] by (simp add: gpu_inv_def placement_ok_def)
next
  case (place pl c qd s g p' s' P R)
  then have "in_range (num_gpus t) g" by (intro place_range [OF _ place(1)]) (simp add: gpu_inv_def placement_ok_def)
  with place show ?case by (auto simp: gpu_inv_def placement_ok_def)
next
  case (admit pl g pl' P R)
  then have g: "in_range (num_gpus t) g" and len: "length (gpu_inflight pl) = nat (num_gpus t)"
    and cnt: "\<And>i. in_range (num_gpus t) i \<Longrightarrow> gpu_inflight pl ! nat i = count R i \<and> count R i \<le> m"
    by (auto simp: gpu_inv_def placement_ok_def)
  note pl' = gpu_admit_True [OF admit(1)]
  have "gpu_inflight pl' ! nat i = count (add_mset g R) i \<and> count (add_mset g R) i \<le> m" if "in_range (num_gpus t) i" for i
  proof (cases "i = g")
    case True
    then show ?thesis using pl' cnt [OF g] g len by simp
  next
    case False
    then have "nat i \<noteq> nat g" using that g by auto
    with False show ?thesis using pl' cnt [OF that] by simp
  qed
  with admit pl' show ?case by (auto simp: gpu_inv_def placement_ok_def)
next
  case (refuse pl g pl' P R)
  then show ?case using gpu_admit_False [OF refuse(1)] by (auto simp: gpu_inv_def)
next
  case (leave pl P g R)
  then have g: "in_range (num_gpus t) g" and len: "length (gpu_inflight pl) = nat (num_gpus t)"
    and cnt: "\<And>i. in_range (num_gpus t) i \<Longrightarrow> gpu_inflight pl ! nat i = count (add_mset g R) i \<and> count (add_mset g R) i \<le> m"
    by (auto simp: gpu_inv_def placement_ok_def)
  have l: "gpu_leave pl g = pl \<lparr> gpu_inflight := (gpu_inflight pl)[nat g := count R g] \<rparr>"
    using cnt [OF g] by (simp add: gpu_leave_def)
  have "gpu_inflight (gpu_leave pl g) ! nat i = count R i \<and> count R i \<le> m" if "in_range (num_gpus t) i" for i
  proof (cases "i = g")
    case True
    then show ?thesis using cnt [OF g] g len by (simp add: l)
  next
    case False
    then have "nat i \<noteq> nat g" using that g by auto
    with False show ?thesis using cnt [OF that] by (simp add: l)
  qed
  with leave show ?case by (auto simp: gpu_inv_def placement_ok_def l)
qed

lemma gpu_steps_inv: "(gpu_step t m)\<^sup>*\<^sup>* x y \<Longrightarrow> gpu_inv t m x \<Longrightarrow> gpu_inv t m y"
  by (induction rule: rtranclp_induct) (auto intro: gpu_step_inv)

definition idle :: "GpuTopology \<Rightarrow> Placement \<Rightarrow> bool" where
  "idle t pl \<longleftrightarrow> placement_ok t pl \<and> (\<forall>n \<in> set (gpu_inflight pl). n = 0)"

lemma gpu_inv_idle: "idle t pl \<Longrightarrow> gpu_inv t m (pl, {#}, {#})"
  by (auto simp: gpu_inv_def idle_def placement_ok_def)

text \<open>A run to evaluate the properties on: two threads of one client on a GPU with a capacity of one.\<close>

definition sample_placement :: Placement where
  "sample_placement = \<lparr> placer = sample_placer, gpu_inflight = [0, 0, 0], source_to_client = [''a'' \<mapsto> 5], next_client_id = 6 \<rparr>"

lemma sample_placement_idle: "idle sample_topo sample_placement"
  using topo_wf_sample by (simp add: idle_def placement_ok_def sample_placement_def sample_topo_def)

lemma sample_placed: "place sample_topo (placer sample_placement) 5 (\<lambda>s g. (0, s)) (0 :: nat) = (1, placer sample_placement, 0)"
  by (simp add: sample_placement_def) code_simp

lemma sample_run:
  "(gpu_step sample_topo 1)\<^sup>*\<^sup>* (sample_placement, {#}, {#}) (sample_placement \<lparr> gpu_inflight := [0, 1, 0] \<rparr>, {#1#}, {#1#})"
proof -
  let ?p = "sample_placement" and ?q = "sample_placement \<lparr> gpu_inflight := [0, 1, 0] \<rparr>"
  have "gpu_step sample_topo 1 (?p, {#}, {#}) (?p, {#1#}, {#})"
    using gpu_step.place [OF sample_placed, of 1 "{#}" "{#}"] by simp
  moreover have "gpu_step sample_topo 1 (?p, {#1#}, {#}) (?p, {#1, 1#}, {#})"
    using gpu_step.place [OF sample_placed, of 1 "{#1#}" "{#}"] by simp
  moreover have "gpu_admit 1 ?p 1 = (True, ?q)" by (simp add: gpu_admit_def sample_placement_def)
  then have "gpu_step sample_topo 1 (?p, {#1, 1#}, {#}) (?q, {#1#}, {#1#})" by (rule gpu_step.admit)
  ultimately show ?thesis by (meson converse_rtranclp_into_rtranclp r_into_rtranclp)
qed

text \<open>C5. However many requests run concurrently and however stale the queue depths they were placed by: the in-flight
  counter of every GPU is exactly the number of threads that compute on it, and it never exceeds the configured
  maximum per GPU; all placed and computing threads hold an existing GPU.\<close>

theorem gpu_capacity_respected:
  assumes "idle t pl0" "(gpu_step t max_inflight)\<^sup>*\<^sup>* (pl0, {#}, {#}) (pl, P, R)"
  shows "(\<forall>g \<in># P + R. in_range (num_gpus t) g) \<and>
    (\<forall>g. in_range (num_gpus t) g \<longrightarrow> gpu_inflight pl ! nat g = count R g \<and> count R g \<le> max_inflight)"
  using gpu_steps_inv [OF assms(2) gpu_inv_idle [OF assms(1)]] by (simp add: gpu_inv_def)

theorem gpu_capacity_respected_witness:
  "gpu_inflight (sample_placement \<lparr> gpu_inflight := [0, 1, 0] \<rparr>) ! nat 1 = count {#1#} (1 :: int) \<and> count {#1#} (1 :: int) \<le> 1"
  using gpu_capacity_respected [OF sample_placement_idle sample_run] by (simp add: sample_topo_def)

text \<open>A refused admission is justified: a thread is turned away only while the full number of other threads computes on
  its GPU; and when all threads have left, every counter is back at zero and the next request is admitted.\<close>

lemma gpu_refusal_justified:
  assumes "idle t pl0" "(gpu_step t max_inflight)\<^sup>*\<^sup>* (pl0, {#}, {#}) (pl, add_mset g P, R)"
  shows "(fst (gpu_admit max_inflight pl g) \<longleftrightarrow> count R g < max_inflight) \<and>
    (R = {#} \<longrightarrow> (\<forall>n \<in> set (gpu_inflight pl). n = 0))"
proof -
  have inv: "gpu_inv t max_inflight (pl, add_mset g P, R)" using gpu_steps_inv [OF assms(2) gpu_inv_idle [OF assms(1)]] .
  then have "gpu_inflight pl ! nat g = count R g" by (auto simp: gpu_inv_def)
  then have "fst (gpu_admit max_inflight pl g) \<longleftrightarrow> count R g < max_inflight" by (auto simp: gpu_admit_def Let_def)
  moreover have "n = 0" if R: "R = {#}" and n: "n \<in> set (gpu_inflight pl)" for n
  proof -
    obtain i where i: "i < length (gpu_inflight pl)" "n = gpu_inflight pl ! i" using n by (auto simp: in_set_conv_nth)
    then have "in_range (num_gpus t) (int i)" using inv by (auto simp: gpu_inv_def placement_ok_def)
    then have "gpu_inflight pl ! nat (int i) = count R (int i)" using inv unfolding gpu_inv_def by blast
    with i R show ?thesis by simp
  qed
  ultimately show ?thesis by blast
qed

end
