(* ===== verification/Socket_Io.thy ===== *)
theory Socket_Io
  imports Wire
begin

text \<open>
  Blocking socket I/O.  What the operating system returns from successive \<^verbatim>\<open>recv\<close> calls is a list of events;
  a call that asks for fewer bytes than an event holds leaves the rest.  After the last event the receive timeout
  strikes; the servers accept a timeout of zero, which disables it, and then a call without a further event blocks and the run
  goes no further than its last event.  \<open>recv_loop\<close> and \<open>send_loop\<close> are the loops of \<^verbatim>\<open>read_exact\<close> and \<^verbatim>\<open>write_exact\<close>; the broker's retry after
  \<^verbatim>\<open>EINTR\<close>, the ADI server's do not.  The locale \<open>byte_reader\<close> is what sessions rely on: reading depends on
  the byte stream only, not on how it was cut into segments.
\<close>

datatype RecvEvent = Data bytes | RecvEof | RecvEintr | RecvErr
datatype SendEvent = Sent nat | SendEintr | SendErr

fun recv_loop :: "bool \<Rightarrow> RecvEvent list \<Rightarrow> nat \<Rightarrow> bytes option \<times> RecvEvent list" where
  "recv_loop retry es n =
     (if n = 0 then (Some [], es)
      else case es of
        [] \<Rightarrow> (None, [])
      | RecvEof # es \<Rightarrow> (None, es)
      | RecvErr # es \<Rightarrow> (None, es)
      | RecvEintr # es \<Rightarrow> if retry then recv_loop retry es n else (None, es)
      | Data bs # es \<Rightarrow>
          if bs = [] then (None, es)
          else if length bs > n then (Some (take n bs), Data (drop n bs) # es)
          else case recv_loop retry es (n - length bs) of (r, es) \<Rightarrow> (map_option (append bs) r, es))"

declare recv_loop.simps [simp del]

text \<open>The result, the bytes handed to the socket and the remaining events.  A send that accepts nothing fails.\<close>

fun send_loop :: "bool \<Rightarrow> SendEvent list \<Rightarrow> bytes \<Rightarrow> bool \<times> bytes \<times> SendEvent list" where
  "send_loop retry es bs =
     (if bs = [] then (True, [], es)
      else case es of
        [] \<Rightarrow> (False, [], [])
      | SendErr # es \<Rightarrow> (False, [], es)
      | SendEintr # es \<Rightarrow> if retry then send_loop retry es bs else (False, [], es)
      | Sent k # es \<Rightarrow>
          if k = 0 then (False, [], es)
          else case send_loop retry es (drop k bs) of (ok, w, es) \<Rightarrow> (ok, take k bs @ w, es))"

declare send_loop.simps [simp del]

section \<open>Streams\<close>

fun stream :: "bool \<Rightarrow> RecvEvent list \<Rightarrow> bytes" where
  "stream retry [] = []"
| "stream retry (RecvEof # es) = []"
| "stream retry (RecvErr # es) = []"
| "stream retry (RecvEintr # es) = (if retry then stream retry es else [])"
| "stream retry (Data bs # es) = (if bs = [] then [] else bs @ stream retry es)"

lemma recv_loop_0 [simp]: "recv_loop retry es 0 = (Some [], es)"
  by (subst recv_loop.simps) simp

lemma recv_loop_step [simp]:
  "0 < n \<Longrightarrow> recv_loop retry [] n = (None, [])"
  "0 < n \<Longrightarrow> recv_loop retry (RecvEof # es) n = (None, es)"
  "0 < n \<Longrightarrow> recv_loop retry (RecvErr # es) n = (None, es)"
  "0 < n \<Longrightarrow> recv_loop retry (RecvEintr # es) n = (if retry then recv_loop retry es n else (None, es))"
  "0 < n \<Longrightarrow> recv_loop retry (Data bs # es) n =
     (if bs = [] then (None, es)
      else if length bs > n then (Some (take n bs), Data (drop n bs) # es)
      else case recv_loop retry es (n - length bs) of (r, es) \<Rightarrow> (map_option (append bs) r, es))"
  by (subst recv_loop.simps, simp)+

lemma send_loop_step [simp]:
  "send_loop retry es [] = (True, [], es)"
  "bs \<noteq> [] \<Longrightarrow> send_loop retry [] bs = (False, [], [])"
  "bs \<noteq> [] \<Longrightarrow> send_loop retry (SendErr # es) bs = (False, [], es)"
  "bs \<noteq> [] \<Longrightarrow> send_loop retry (SendEintr # es) bs = (if retry then send_loop retry es bs else (False, [], es))"
  "bs \<noteq> [] \<Longrightarrow> send_loop retry (Sent k # es) bs =
     (if k = 0 then (False, [], es)
      else case send_loop retry es (drop k bs) of (ok, w, es) \<Rightarrow> (ok, take k bs @ w, es))"
  by (subst send_loop.simps, simp)+

lemma recv_loop_some:
  "n \<le> length (stream retry es) \<Longrightarrow>
    \<exists>es'. recv_loop retry es n = (Some (take n (stream retry es)), es') \<and> stream retry es' = drop n (stream retry es)"
proof (induction retry es arbitrary: n rule: stream.induct)
  case (1 retry)
  then show ?case by simp
next
  case (2 retry es)
  then show ?case by simp
next
  case (3 retry es)
  then show ?case by simp
next
  case (4 retry es)
  then show ?case by (cases "n = 0"; cases retry) simp_all
next
  case (5 retry bs es)
  show ?case
  proof (cases "n = 0")
    case False
    then have "bs \<noteq> []" using 5(2) by auto
    show ?thesis
    proof (cases "length bs > n")
      case True
      with False \<open>bs \<noteq> []\<close> show ?thesis by simp
    next
      case le: False
      with 5(2) \<open>bs \<noteq> []\<close> have "n - length bs \<le> length (stream retry es)" by simp
      from 5(1) [OF \<open>bs \<noteq> []\<close> this] le False \<open>bs \<noteq> []\<close> show ?thesis
        by auto
    qed
  qed simp
qed

lemma recv_loop_none: "length (stream retry es) < n \<Longrightarrow> fst (recv_loop retry es n) = None"
proof (induction retry es arbitrary: n rule: stream.induct)
  case (5 retry bs es)
  show ?case
  proof (cases "bs = []")
    case False
    with 5(2) have "length (stream retry es) < n - length bs" by simp
    from 5(1) [OF False this] False 5(2) show ?thesis by (auto split: prod.splits)
  qed (use 5(2) in simp)
qed auto

text \<open>A successful write has handed over the whole buffer, an unsuccessful one a proper prefix.\<close>

lemma send_loop_spec:
  "send_loop retry es bs = (ok, w, es') \<Longrightarrow> (\<exists>rest. bs = w @ rest \<and> (ok \<longleftrightarrow> rest = []))"
proof (induction es arbitrary: bs ok w es')
  case Nil
  then show ?case by (cases "bs = []") auto
next
  case (Cons e es)
  show ?case
  proof (cases "bs = []")
    case True
    with Cons.prems show ?thesis by simp
  next
    case False
    show ?thesis
    proof (cases e)
      case (Sent k)
      obtain ok1 w1 es2 where r: "send_loop retry es (drop k bs) = (ok1, w1, es2)" by (metis prod_cases3)
      from Cons.IH [OF r] obtain rest where "drop k bs = w1 @ rest" "ok1 \<longleftrightarrow> rest = []" by blast
      moreover from this have "bs = (take k bs @ w1) @ rest" by (metis append.assoc append_take_drop_id)
      ultimately show ?thesis using Cons.prems False Sent r by (cases "k = 0") auto
    next
      case SendEintr
      with Cons False show ?thesis by (cases retry) auto
    next
      case SendErr
      with Cons.prems False show ?thesis by auto
    qed
  qed
qed

section \<open>What sessions rely on\<close>

locale byte_reader =
  fixes rd :: "'s \<Rightarrow> nat \<Rightarrow> bytes option \<times> 's" and bytes_of :: "'s \<Rightarrow> bytes"
  assumes rd_some: "n \<le> length (bytes_of s) \<Longrightarrow> \<exists>s'. rd s n = (Some (take n (bytes_of s)), s') \<and> bytes_of s' = drop n (bytes_of s)"
    and rd_none: "length (bytes_of s) < n \<Longrightarrow> fst (rd s n) = None"
begin

lemma rd_prefix:
  assumes "bytes_of s = xs @ ys"
  obtains s' where "rd s (length xs) = (Some xs, s')" "bytes_of s' = ys"
  using rd_some [of "length xs" s] assms by auto

lemma rd_unique:
  assumes "bytes_of s = bytes_of s'"
  shows "fst (rd s n) = fst (rd s' n)"
  using assms rd_some [of n s] rd_some [of n s'] rd_none [of s n] rd_none [of s' n]
  by (cases "n \<le> length (bytes_of s)") (auto simp: not_le)

end

interpretation recv_reader: byte_reader "recv_loop retry" "stream retry" for retry
  by unfold_locales (rule recv_loop_some, assumption, rule recv_loop_none)

end
