(* ===== verification/Broker_Server.thy ===== *)
theory Broker_Server
  imports Broker_Service Socket_Io
begin

text \<open>
  The TCP front end of the broker: \<^verbatim>\<open>include/broker_server.h\<close> and \<^verbatim>\<open>src/broker_server.cpp\<close>.  A session
  reads length-prefixed frames from its socket, decodes them as BRK1 or BRK2 by their first four bytes,
  answers malformed ones and those above the in-flight limit at once, and hands the others to one thread
  each, which writes the response when the service returns.  A frame handed to \<^verbatim>\<open>write_exact\<close> is one
  element of the session's output; the outcome of the write is ignored by the code.
\<close>

section \<open>Configuration\<close>

record BrokerServerConfig =
  sc_port :: int
  sc_socket_timeout_ms :: int
  sc_max_clients :: nat
  sc_max_inflight_per_client :: nat
  sc_verbose :: bool
  sc_service_config :: BrokerServiceConfig

definition BrokerServerConfig_default :: BrokerServerConfig where
  "BrokerServerConfig_default = \<lparr> sc_port = 9090, sc_socket_timeout_ms = 5000, sc_max_clients = 128,
     sc_max_inflight_per_client = 32, sc_verbose = False, sc_service_config = BrokerServiceConfig_default \<rparr>"

abbreviation server_limits :: "BrokerServerConfig \<Rightarrow> ProtocolLimits" where
  "server_limits cfg \<equiv> cf_protocol_limits (sc_service_config cfg)"

text \<open>The constructor: the service is built first, then the two checks.\<close>

definition BrokerServer_init :: "BrokerServerConfig \<Rightarrow> CudaRuntime option \<Rightarrow> BrokerService res" where
  "BrokerServer_init cfg cuda =
     res_bind (BrokerService_init (sc_service_config cfg) cuda) (\<lambda>service.
     if sc_port cfg < 1 \<or> sc_port cfg > 65535 then Inl ''broker server port must be in range 1..65535''
     else if sc_max_inflight_per_client cfg = 0 then Inl ''max_inflight_per_client must be greater than zero''
     else Inr service)"

section \<open>Frames on the socket\<close>

definition read_exact :: "RecvEvent list \<Rightarrow> nat \<Rightarrow> bytes option \<times> RecvEvent list" where
  "read_exact = recv_loop True"

definition write_exact :: "SendEvent list \<Rightarrow> bytes \<Rightarrow> bool \<times> bytes \<times> SendEvent list" where
  "write_exact = send_loop True"

text \<open>The length prefix and the frame, as both error paths and \<^verbatim>\<open>write_response\<close> write them.\<close>

definition framed :: "endian \<Rightarrow> bytes \<Rightarrow> bytes" where
  "framed h frame = store h 4 (htonl h (word_of_nat (length frame))) @ frame"

definition send_brk2_protocol_error :: "endian \<Rightarrow> u64 \<Rightarrow> string \<Rightarrow> ProtocolLimits \<Rightarrow> bytes res" where
  "send_brk2_protocol_error h request_id error limits =
     (let response = BrokerResponse_default \<lparr> rs_status := Rejected, rs_error := error, rs_selected_gpu := -1 \<rparr> in
      res_bind (encode_brk2_response_body response request_id limits) (\<lambda>body. Inr (framed h body)))"

definition send_protocol_error :: "endian \<Rightarrow> string \<Rightarrow> string \<Rightarrow> ProtocolLimits \<Rightarrow> bytes res" where
  "send_protocol_error h task_id error limits =
     (let response = BrokerResponse_default \<lparr> rs_task_id := task_id, rs_status := Rejected, rs_error := error, rs_selected_gpu := -1 \<rparr> in
      res_bind (encode_response_frame h response limits) (\<lambda>frame. Inr (framed h frame)))"

definition write_response :: "endian \<Rightarrow> ProtocolLimits \<Rightarrow> BrokerResponse \<Rightarrow> bool \<Rightarrow> u64 \<Rightarrow> bytes res" where
  "write_response h limits response use_brk2 request_id =
     res_bind (if use_brk2 then encode_brk2_response_body response request_id limits
               else encode_response_frame h response limits) (\<lambda>response_frame. Inr (framed h response_frame))"

section \<open>One frame\<close>

record Job =
  job_request :: BrokerRequest
  job_use_brk2 :: bool
  job_request_id :: u64

datatype FrameOutcome = Reply bytes | Dispatch Job

definition is_brk2_frame :: "bytes \<Rightarrow> bool" where
  "is_brk2_frame frame \<longleftrightarrow> length frame \<ge> 4 \<and> frame ! 0 = byte_of_char (CHR ''B'') \<and> frame ! 1 = byte_of_char (CHR ''R'') \<and>
     frame ! 2 = byte_of_char (CHR ''K'') \<and> frame ! 3 = byte_of_char (CHR ''2'')"

definition peek_request_id :: "bytes \<Rightarrow> u64" where
  "peek_request_id frame =
     (if length frame \<ge> 20 then foldl (\<lambda>request_id i. push_bit 8 request_id OR ucast (frame ! i)) 0 [12..<20] else 0)"

text \<open>From the complete frame to the reply or the new response thread; an \<open>Inl\<close> is an exception that ends the session.\<close>

definition handle_frame :: "endian \<Rightarrow> BrokerServerConfig \<Rightarrow> nat \<Rightarrow> bytes \<Rightarrow> FrameOutcome res" where
  "handle_frame h cfg pending frame =
     (let limits = server_limits cfg;
          use_brk2 = is_brk2_frame frame;
          (decoded, request_id) =
            (if use_brk2 then decode_brk2_request_body frame limits (peek_request_id frame)
             else (decode_request_frame h frame limits, 0)) in
      case decoded of
        Inl decode_error \<Rightarrow>
          res_bind (if use_brk2 then send_brk2_protocol_error h request_id decode_error limits
                    else send_protocol_error h [] decode_error limits) (\<lambda>out. Inr (Reply out))
      | Inr request \<Rightarrow>
          if pending \<ge> sc_max_inflight_per_client cfg then
            res_bind (if use_brk2 then send_brk2_protocol_error h request_id ''too many inflight requests for client'' limits
                      else send_protocol_error h (rq_task_id request) ''too many inflight requests for client'' limits)
              (\<lambda>out. Inr (Reply out))
          else Inr (Dispatch \<lparr> job_request = request, job_use_brk2 = use_brk2, job_request_id = request_id \<rparr>))"

section \<open>The session\<close>

text \<open>A pending response is its job and whether its thread is done; \<open>ss_open\<close> says that the loop still runs and
  \<^verbatim>\<open>writes_enabled\<close> is set.\<close>

record Session =
  ss_input :: "RecvEvent list"
  ss_pending :: "(Job \<times> bool) list"
  ss_output :: "bytes list"
  ss_open :: bool

definition reap_finished :: "(Job \<times> bool) list \<Rightarrow> (Job \<times> bool) list" where
  "reap_finished pending = filter (\<lambda>(job, fin). \<not> fin) pending"

text \<open>One turn of the loop has two parts.  Between them the thread blocks in \<^verbatim>\<open>recv\<close>, so that response threads may end there; such a response still counts as
  pending when the frame is handled.\<close>

definition session_reap :: "Session \<Rightarrow> Session" where
  "session_reap s = s \<lparr> ss_pending := reap_finished (ss_pending s) \<rparr>"

definition session_read :: "endian \<Rightarrow> BrokerServerConfig \<Rightarrow> Session \<Rightarrow> Session" where
  "session_read h cfg s =
     (let (len_bytes, input) = read_exact (ss_input s) 4 in
      case len_bytes of
        None \<Rightarrow> s \<lparr> ss_input := input, ss_open := False \<rparr>
      | Some len_bytes \<Rightarrow>
          let frame_len = unat (ntohl h (load h len_bytes) :: u32) in
          if frame_len = 0 \<or> frame_len > max_frame_bytes (server_limits cfg) then
            (case send_protocol_error h [] ''frame length violates protocol limits'' (server_limits cfg) of
               Inl e \<Rightarrow> s \<lparr> ss_input := input, ss_open := False \<rparr>
             | Inr out \<Rightarrow> s \<lparr> ss_input := input, ss_output := ss_output s @ [out], ss_open := False \<rparr>)
          else
            (case read_exact input frame_len of
               (None, input) \<Rightarrow> s \<lparr> ss_input := input, ss_open := False \<rparr>
             | (Some frame, input) \<Rightarrow>
                 let s = s \<lparr> ss_input := input \<rparr> in
                 (case handle_frame h cfg (length (ss_pending s)) frame of
                    Inl e \<Rightarrow> s \<lparr> ss_open := False \<rparr>
                  | Inr (Reply out) \<Rightarrow> s \<lparr> ss_output := ss_output s @ [out] \<rparr>
                  | Inr (Dispatch job) \<Rightarrow> s \<lparr> ss_pending := ss_pending s @ [(job, False)] \<rparr>)))"

text \<open>A turn in which no response thread ends.\<close>

definition session_turn :: "endian \<Rightarrow> BrokerServerConfig \<Rightarrow> Session \<Rightarrow> Session" where
  "session_turn h cfg s = session_read h cfg (session_reap s)"

text \<open>The body of a response thread: the service's answer is written while writes are enabled; exceptions of the service
  and of the encoder are swallowed.\<close>

definition job_done ::
  "endian \<Rightarrow> GpuComputeFn \<Rightarrow> Clock \<Rightarrow> BrokerServerConfig \<Rightarrow> BrokerService \<Rightarrow> Session \<Rightarrow> nat \<Rightarrow> BrokerService \<times> Session" where
  "job_done h default_gpu_compute ck cfg service s i =
     (let job = fst (ss_pending s ! i);
          s = s \<lparr> ss_pending := (ss_pending s)[i := (job, True)] \<rparr> in
      case handle_request h default_gpu_compute ck service (job_request job) of
        (Inl e, service) \<Rightarrow> (service, s)
      | (Inr response, service) \<Rightarrow>
          (case write_response h (server_limits cfg) response (job_use_brk2 job) (job_request_id job) of
             Inl e \<Rightarrow> (service, s)
           | Inr out \<Rightarrow> (service, if ss_open s then s \<lparr> ss_output := ss_output s @ [out] \<rparr> else s)))"

section \<open>Which decoder a frame gets\<close>

lemma is_brk2_frame_iff: "is_brk2_frame f \<longleftrightarrow> 4 \<le> length f \<and> read32 f 0 = BRK2_MAGIC"
proof -
  have "be_bytes 4 BRK2_MAGIC = [0x42, 0x52, 0x4b, 0x32]" by (simp add: BRK2_MAGIC_def be_eval)
  then have "read32 f 0 = BRK2_MAGIC \<longleftrightarrow> [f ! 0, f ! 1, f ! 2, f ! 3] = [0x42, 0x52, 0x4b, 0x32]"
    using be_word_eq_iff [of "[f ! 0, f ! 1, f ! 2, f ! 3]" 4 BRK2_MAGIC] by (simp add: read32_eq numeral_2_eq_2 numeral_3_eq_3)
  then show ?thesis by (auto simp: is_brk2_frame_def byte_of_char_def)
qed

lemma brk2_accepted_is_brk2: "decode_brk2_request_body f limits x = (Inr r, rid) \<Longrightarrow> is_brk2_frame f"
  by (auto simp: decode_brk2_request_body_def brk2_check_header_def is_brk2_frame_iff BRK2_HEADER_BYTES_def Let_def
      split: sum.splits if_splits)

lemma brk2_accepted_length: "decode_brk2_request_body f limits x = (Inr r, rid) \<Longrightarrow> 32 \<le> length f"
  by (auto simp: decode_brk2_request_body_iff brk2_request_bytes_def Let_def)

lemma brk1_accepted_not_brk2:
  assumes "decode_request_frame h f limits = Inr r"
  shows "\<not> is_brk2_frame f"
proof -
  obtain b where "f = be_bytes 4 BROKER_MAGIC @ b"
    using assms by (auto simp: decode_request_frame_Inr_iff [where h' = h] encode_request_frame_iff brk1_header_def)
  then have "read32 f 0 \<noteq> BRK2_MAGIC" by (simp add: reads bytes_at_def BRK2_MAGIC_def BROKER_MAGIC_def)
  then show ?thesis by (simp add: is_brk2_frame_iff)
qed

lemma brk2_decode_id_irrelevant:
  "decode_brk2_request_body f limits x = (Inr r, rid) \<longleftrightarrow> decode_brk2_request_body f limits y = (Inr r, rid)"
  by (simp add: decode_brk2_request_body_iff)

lemma handle_frame_Dispatch_iff:
  "handle_frame h cfg pending f = Inr (Dispatch job) \<longleftrightarrow>
    pending < sc_max_inflight_per_client cfg \<and>
    (if job_use_brk2 job then decode_brk2_request_body f (server_limits cfg) 0 = (Inr (job_request job), job_request_id job)
     else decode_request_frame h f (server_limits cfg) = Inr (job_request job) \<and> job_request_id job = 0)"
proof (cases "is_brk2_frame f")
  case True
  obtain d rid where d: "decode_brk2_request_body f (server_limits cfg) (peek_request_id f) = (d, rid)" by fastforce
  have "decode_request_frame h f (server_limits cfg) \<noteq> Inr r" for r using True brk1_accepted_not_brk2 by blast
  moreover have "handle_frame h cfg pending f = Inr (Dispatch job) \<longleftrightarrow>
      pending < sc_max_inflight_per_client cfg \<and> job_use_brk2 job \<and> d = Inr (job_request job) \<and> rid = job_request_id job"
    using True by (cases job; cases d) (auto simp: handle_frame_def Let_def d res_bind_Inr_iff split: if_splits)
  ultimately show ?thesis
    using d brk2_decode_id_irrelevant [of f "server_limits cfg" "peek_request_id f" _ _ 0] by auto
next
  case False
  have "fst (decode_brk2_request_body f (server_limits cfg) 0) \<noteq> Inr r" for r
    using False brk2_accepted_is_brk2 by (metis prod.collapse)
  moreover have "handle_frame h cfg pending f = Inr (Dispatch job) \<longleftrightarrow>
      pending < sc_max_inflight_per_client cfg \<and> \<not> job_use_brk2 job \<and> job_request_id job = 0 \<and>
      decode_request_frame h f (server_limits cfg) = Inr (job_request job)"
    using False
    by (cases job; cases "decode_request_frame h f (server_limits cfg)") (auto simp: handle_frame_def Let_def res_bind_Inr_iff split: if_splits)
  ultimately show ?thesis by (auto simp: prod_eq_iff)
qed

section \<open>Framing\<close>

lemma framed_eq: "framed h f = be_bytes 4 (word_of_nat (length f) :: u32) @ f"
  by (simp add: framed_def)

interpretation session_reader: byte_reader read_exact "stream True"
  unfolding read_exact_def by (rule recv_reader.byte_reader_axioms)

text \<open>A turn on a stream that starts with a framed frame handles exactly that frame.\<close>

lemma session_turn_frame:
  assumes "stream True (ss_input s) = framed h' f @ rest" "f \<noteq> []" "length f \<le> max_frame_bytes (server_limits cfg)" "length f < 2 ^ 32"
  obtains input where "stream True input = rest"
    "session_turn h cfg s =
      (let s = s \<lparr> ss_pending := reap_finished (ss_pending s), ss_input := input \<rparr> in
       case handle_frame h cfg (length (ss_pending s)) f of
         Inl e \<Rightarrow> s \<lparr> ss_open := False \<rparr>
       | Inr (Reply out) \<Rightarrow> s \<lparr> ss_output := ss_output s @ [out] \<rparr>
       | Inr (Dispatch job) \<Rightarrow> s \<lparr> ss_pending := ss_pending s @ [(job, False)] \<rparr>)"
proof -
  let ?l = "be_bytes 4 (word_of_nat (length f) :: u32)"
  have "stream True (ss_input s) = ?l @ (f @ rest)" using assms(1) by (simp add: framed_eq)
  from session_reader.rd_prefix [OF this] obtain i1 where i1: "read_exact (ss_input s) 4 = (Some ?l, i1)" "stream True i1 = f @ rest"
    by (metis length_be_bytes)
  from session_reader.rd_prefix [OF i1(2)] obtain i2 where i2: "read_exact i1 (length f) = (Some f, i2)" "stream True i2 = rest" by metis
  have "unat (ntohl h (load h ?l) :: u32) = length f"
    using assms(4) by (simp add: be_word_load_32 be_word_be_bytes unat_of_nat)
  with i1 i2 assms(2,3) show thesis by (intro that [of i2]) (simp_all add: session_turn_def session_read_def session_reap_def Let_def)
qed

section \<open>Length of the error texts\<close>

definition err_len :: "nat \<Rightarrow> 'a res \<Rightarrow> bool" where
  "err_len n m \<longleftrightarrow> (\<forall>e. m = Inl e \<longrightarrow> length e \<le> n)"

named_theorems err_len_intros \<open>introduction rules for the length of error texts\<close>

lemma err_len_Inr [err_len_intros]: "err_len n (Inr x)"
  by (simp add: err_len_def)

lemma err_len_Inl [err_len_intros]: "length e \<le> n \<Longrightarrow> err_len n (Inl e)"
  by (simp add: err_len_def)

lemma err_len_bind [err_len_intros]: "err_len n m \<Longrightarrow> (\<And>x. err_len n (f x)) \<Longrightarrow> err_len n (res_bind m f)"
  by (cases m) (auto simp: err_len_def)

lemma err_len_if [err_len_intros]: "err_len n a \<Longrightarrow> err_len n b \<Longrightarrow> err_len n (if c then a else b)"
  by simp

lemma err_len_option [err_len_intros]: "err_len n a \<Longrightarrow> (\<And>x. err_len n (f x)) \<Longrightarrow> err_len n (case x of None \<Rightarrow> a | Some x \<Rightarrow> f x)"
  by (cases x) simp_all

lemma err_len_prod [err_len_intros]: "(\<And>x y. err_len n (f x y)) \<Longrightarrow> err_len n (case p of (x, y) \<Rightarrow> f x y)"
  by (cases p) simp

lemma err_len_let [err_len_intros]: "(\<And>x. err_len n (f x)) \<Longrightarrow> err_len n (Let a f)"
  by (simp add: Let_def)

lemma err_len_brk1 [err_len_intros]: "err_len 64 (brk1_take a b c)" "err_len 64 (brk1_read_string h limits f off)"
  "err_len 64 (brk1_read_blob h limits f off)" "err_len 64 (brk1_decode_common_header h limits t f off)"
  "err_len 64 (validate_request r limits)"
  unfolding brk1_take_def take_or_def brk1_read_string_def brk1_read_blob_def brk1_decode_common_header_def validate_request_def
  by (intro err_len_intros; simp)+

lemma err_len_brk1_request: "err_len 64 (decode_request_frame h f limits)"
  unfolding decode_request_frame_def by (intro err_len_intros; simp)

lemma err_len_parse [err_len_intros]: "err_len 64 (parse_fields_from body pos acc)"
proof (induction body pos acc rule: parse_fields_from.induct)
  case (1 body pos acc)
  then show ?case
    by (subst parse_fields_from.simps) (auto simp: Let_def intro!: err_len_intros)
qed

lemma length_to_string: "n < 100 \<Longrightarrow> length (to_string n) \<le> 2"
  using less_mult_imp_div_less [of n 10 10] by (simp add: to_string.simps [of n] to_string.simps [of "n div 10"])

lemma err_len_brk2 [err_len_intros]: "err_len 64 (brk2_check_header body limits)" "err_len 64 (brk2_read_preference fs)"
  "unat i < 100 \<Longrightarrow> err_len 64 (get_string fs i)" "unat i < 100 \<Longrightarrow> err_len 64 (get_fixed fs i t k)"
  unfolding brk2_check_header_def brk2_read_preference_def get_string_def get_fixed_def
  by (intro err_len_intros; use length_to_string [of "unat i"] in simp)+

lemma err_len_brk2_request: "err_len 64 (fst (decode_brk2_request_body body limits x))"
proof -
  have "err_len 64 (brk2_read_request fs limits)" for fs
    unfolding brk2_read_request_def by (intro err_len_intros; simp)
  moreover have "err_len 64 (parse_fields body)" unfolding parse_fields_def by (rule err_len_parse)
  ultimately show ?thesis
    using err_len_brk2(1) [of body limits] unfolding decode_brk2_request_body_def
    by (cases "brk2_check_header body limits") (auto simp: Let_def err_len_def res_bind_def split: sum.splits)
qed

section \<open>Every complete frame is answered or dispatched\<close>

text \<open>Limits that leave room for an error reply.\<close>

definition roomy_limits :: "ProtocolLimits \<Rightarrow> bool" where
  "roomy_limits l \<longleftrightarrow> 64 \<le> max_string_bytes l \<and> 160 \<le> max_payload_bytes l \<and> max_string_bytes l + 160 \<le> max_frame_bytes l"

lemma roomy_limits_default: "roomy_limits ProtocolLimits_default"
  by (simp add: roomy_limits_def ProtocolLimits_default_def)

lemma res_bind_ex_Inr: "(\<exists>y. res_bind m (\<lambda>x. Inr (f x)) = Inr y) \<longleftrightarrow> (\<exists>x. m = Inr x)"
  by (cases m) simp_all

lemma send_protocol_error_ok:
  assumes "roomy_limits l" "length e \<le> 64" "length t \<le> max_string_bytes l" "length t < 2 ^ 16"
  shows "\<exists>out. send_protocol_error h t e l = Inr out"
  using assms
  by (simp add: send_protocol_error_def Let_def res_bind_ex_Inr encode_response_frame_iff BrokerResponse_default_def roomy_limits_def
      brk1_string_ok_def brk1_blob_ok_def brk1_header_def brk1_response_body_def)

lemma brk2_response_encodes_iff:
  "(\<exists>b. encode_brk2_response_body r rid l = Inr b) \<longleftrightarrow>
    length (rs_task_id r) \<le> max_string_bytes l \<and> length (rs_error r) \<le> max_string_bytes l \<and>
    length (rs_task_id r) < 2 ^ 32 \<and> length (rs_result r) < 2 ^ 32 \<and> length (rs_error r) < 2 ^ 32 \<and>
    76 + length (rs_task_id r) + length (rs_result r) + length (rs_error r) \<le> max_payload_bytes l \<and>
    108 + length (rs_task_id r) + length (rs_result r) + length (rs_error r) \<le> max_frame_bytes l"
proof -
  have "length (concat (map tlv (brk2_response_fields r))) = 76 + length (rs_task_id r) + length (rs_result r) + length (rs_error r)"
    by (simp add: brk2_response_fields_def length_tlv length_backend_name)
  then show ?thesis unfolding encode_brk2_response_iff brk2_response_fields_ok(1) by auto
qed

lemma send_brk2_protocol_error_ok:
  assumes "roomy_limits l" "length e \<le> 64"
  shows "\<exists>out. send_brk2_protocol_error h rid e l = Inr out"
  using assms
  by (simp add: send_brk2_protocol_error_def Let_def res_bind_ex_Inr brk2_response_encodes_iff BrokerResponse_default_def roomy_limits_def)

lemma brk1_request_strings:
  "decode_request_frame h f l = Inr r \<Longrightarrow> length (rq_task_id r) \<le> max_string_bytes l \<and> length (rq_task_id r) < 2 ^ 16"
  by (auto simp: decode_request_frame_Inr_iff [where h' = h] encode_request_frame_iff brk1_string_ok_def)

lemma handle_frame_ok:
  assumes "roomy_limits (server_limits cfg)"
  shows "\<exists>out. handle_frame h cfg pending f = Inr out"
proof (cases "is_brk2_frame f")
  case True
  obtain d rid where d: "decode_brk2_request_body f (server_limits cfg) (peek_request_id f) = (d, rid)" by fastforce
  then have "err_len 64 d" using err_len_brk2_request by (metis fst_conv)
  then show ?thesis using True d send_brk2_protocol_error_ok [OF assms]
    by (cases d) (simp_all add: handle_frame_def Let_def res_bind_ex_Inr err_len_def)
next
  case False
  then show ?thesis
    using send_protocol_error_ok [OF assms] err_len_brk1_request [of h f "server_limits cfg"] brk1_request_strings [of h f "server_limits cfg"]
    by (cases "decode_request_frame h f (server_limits cfg)") (simp_all add: handle_frame_def Let_def res_bind_ex_Inr err_len_def)
qed

section \<open>The reply to a frame\<close>

lemma upt_shift: "[a..<a + n] = map (\<lambda>i. a + i) [0..<n]"
  using map_add_upt [of a n] by (simp add: add.commute)

lemma peek_request_id_eq: "20 \<le> length f \<Longrightarrow> peek_request_id f = read64 f 12"
  using upt_shift [of 12 8] by (simp add: peek_request_id_def read64_def foldl_map)

lemma decode_brk2_id:
  "snd (decode_brk2_request_body f limits (peek_request_id f)) = (if 20 \<le> length f then be_word (bytes_at f 12 8) else 0)"
proof -
  have peek: "peek_request_id f = (if 20 \<le> length f then be_word (bytes_at f 12 8) else 0)"
    using peek_request_id_eq [of f] read64_eq [of 12 f] by (cases "20 \<le> length f") (simp_all add: peek_request_id_def)
  show ?thesis
  proof (cases "brk2_check_header f limits")
    case (Inr u)
    then have "32 \<le> length f" by (simp add: brk2_check_header_iff [where body = f])
    then show ?thesis using Inr read64_eq [of 12 f] by (simp add: decode_brk2_request_body_def Let_def)
  qed (simp add: decode_brk2_request_body_def peek)
qed

lemma send_protocol_error_reply:
  assumes "send_protocol_error h t e l = Inr out"
  obtains reply resp where "out = framed h reply" "decode_response_frame h reply l = Inr resp" "rs_status resp = Rejected" "rs_error resp = e"
    "rs_task_id resp = t"
proof -
  let ?r = "BrokerResponse_default \<lparr> rs_task_id := t, rs_status := Rejected, rs_error := e, rs_selected_gpu := -1 \<rparr>"
  from assms obtain x where "encode_response_frame h ?r l = Inr x" "out = framed h x"
    by (auto simp: send_protocol_error_def Let_def res_bind_Inr_iff)
  then show thesis
    by (intro that [of x ?r]) (simp_all add: decode_response_frame_Inr_iff [where h' = h] BrokerResponse_default_def)
qed

lemma send_brk2_protocol_error_reply:
  assumes "send_brk2_protocol_error h rid e l = Inr out"
  obtains reply resp where "out = framed h reply" "encode_brk2_response_body resp rid l = Inr reply" "rs_status resp = Rejected" "rs_error resp = e"
  using assms by (auto simp: send_brk2_protocol_error_def Let_def res_bind_Inr_iff BrokerResponse_default_def)

lemma handle_frame_Reply:
  assumes "handle_frame h cfg pending f = Inr (Reply out)"
  obtains reply resp where "out = framed h reply" "rs_status resp = Rejected"
    "if is_brk2_frame f then encode_brk2_response_body resp (if 20 \<le> length f then be_word (bytes_at f 12 8) else 0) (server_limits cfg) = Inr reply
     else decode_response_frame h reply (server_limits cfg) = Inr resp"
proof (cases "is_brk2_frame f")
  case True
  obtain d rid where d: "decode_brk2_request_body f (server_limits cfg) (peek_request_id f) = (d, rid)" by fastforce
  with True assms obtain e where "send_brk2_protocol_error h rid e (server_limits cfg) = Inr out"
    by (cases d) (auto simp: handle_frame_def Let_def res_bind_Inr_iff split: if_splits)
  then obtain reply resp where "out = framed h reply" "encode_brk2_response_body resp rid (server_limits cfg) = Inr reply" "rs_status resp = Rejected"
    by (rule send_brk2_protocol_error_reply)
  with True d decode_brk2_id [of f "server_limits cfg"] show thesis by (intro that [of reply resp]) simp_all
next
  case False
  with assms obtain t e where "send_protocol_error h t e (server_limits cfg) = Inr out"
    by (cases "decode_request_frame h f (server_limits cfg)") (auto simp: handle_frame_def Let_def res_bind_Inr_iff split: if_splits)
  then obtain reply resp where "out = framed h reply" "decode_response_frame h reply (server_limits cfg) = Inr resp" "rs_status resp = Rejected"
    by (rule send_protocol_error_reply)
  with False show thesis by (intro that [of reply resp]) simp_all
qed

section \<open>What a session keeps\<close>

lemma session_read_cases:
  obtains (closed) "\<not> ss_open (session_read h cfg s)" "ss_pending (session_read h cfg s) = ss_pending s"
  | (reply) out i where "session_read h cfg s =
      s \<lparr> ss_input := i, ss_output := ss_output s @ [out] \<rparr>"
  | (dispatch) job i where "session_read h cfg s = s \<lparr> ss_pending := ss_pending s @ [(job, False)], ss_input := i \<rparr>"
      "length (ss_pending s) < sc_max_inflight_per_client cfg"
proof -
  obtain lb i where lb: "read_exact (ss_input s) 4 = (lb, i)" by fastforce
  show thesis
  proof (cases lb)
    case None
    with lb show thesis by (intro closed) (simp_all add: session_read_def)
  next
    case (Some l)
    let ?n = "unat (ntohl h (load h l) :: u32)"
    show thesis
    proof (cases "?n = 0 \<or> ?n > max_frame_bytes (server_limits cfg)")
      case True
      with lb Some show thesis by (intro closed) (simp_all add: session_read_def Let_def split: sum.split)
    next
      case False
      obtain fr j where fr: "read_exact i ?n = (fr, j)" by fastforce
      note unf = session_read_def lb Some False fr Let_def
      show thesis
      proof (cases fr)
        case None
        with False show thesis by (intro closed) (simp_all add: unf)
      next
        case (Some f)
        let ?o = "handle_frame h cfg (length (ss_pending s)) f"
        consider (e) e where "?o = Inl e" | (r) out where "?o = Inr (Reply out)" | (d) job where "?o = Inr (Dispatch job)"
        proof (cases ?o)
          case (Inr x)
          then show ?thesis using that by (cases x) simp_all
        qed (rule that(1))
        then show thesis
        proof cases
          case e
          with Some False show thesis by (intro closed) (simp_all add: unf)
        next
          case r
          with Some False show thesis by (intro reply [of out j]) (simp add: unf)
        next
          case d
          then have "length (ss_pending s) < sc_max_inflight_per_client cfg" by (simp only: handle_frame_Dispatch_iff)
          with d Some False show thesis by (intro dispatch [of j job]) (simp_all add: unf)
        qed
      qed
    qed
  qed
qed

definition unfinished :: "Session \<Rightarrow> nat" where
  "unfinished s = length (reap_finished (ss_pending s))"

lemma reap_simps [simp]:
  "reap_finished (reap_finished p) = reap_finished p" "reap_finished (p @ q) = reap_finished p @ reap_finished q"
  "reap_finished [] = []" "reap_finished [(job, fin)] = (if fin then [] else [(job, fin)])"
  by (simp_all add: reap_finished_def)

lemma length_reap_le: "length (reap_finished p) \<le> length p"
  by (simp add: reap_finished_def)

lemma reap_finish:
  "i < length p \<Longrightarrow> \<not> snd (p ! i) \<Longrightarrow> Suc (length (reap_finished (p[i := (job, True)]))) = length (reap_finished p)"
proof (induction p arbitrary: i)
  case (Cons a p)
  then show ?case by (cases i) (auto simp: reap_finished_def split: prod.splits)
qed simp

text \<open>What the session relies on from the service.\<close>

locale responder =
  fixes respond :: "'svc \<Rightarrow> 'req \<Rightarrow> 'resp res \<times> 'svc" and ok :: "'svc \<Rightarrow> bool"
  assumes answers: "ok s \<Longrightarrow> respond s r = (x, s') \<Longrightarrow> ok s' \<and> (\<exists>resp. x = Inr resp)"
begin

lemma respond_obtain:
  assumes "ok s"
  obtains resp s' where "respond s r = (Inr resp, s')" "ok s'"
  using answers [OF assms] by (metis surj_pair)

end

interpretation broker: responder "handle_request h default_gpu_compute ck" service_ok for h default_gpu_compute ck
  by unfold_locales (use handle_request_ok in blast)

lemma job_done_cases:
  assumes "service_ok service" "job_done h f ck cfg service s i = (service', s')"
  obtains resp p where "handle_request h f ck service (job_request (fst (ss_pending s ! i))) = (Inr resp, service')" "service_ok service'"
    "ss_pending s' = (ss_pending s)[i := (fst (ss_pending s ! i), True)]" "ss_open s' = ss_open s" "ss_input s' = ss_input s"
    "ss_output s' = ss_output s @
      (case write_response h (server_limits cfg) resp (job_use_brk2 (fst (ss_pending s ! i))) (job_request_id (fst (ss_pending s ! i))) of
         Inr out \<Rightarrow> if ss_open s then [out] else [] | Inl e \<Rightarrow> [])"
proof -
  obtain resp sv where r: "handle_request h f ck service (job_request (fst (ss_pending s ! i))) = (Inr resp, sv)" "service_ok sv"
    using broker.respond_obtain [OF assms(1)] by metis
  with assms(2) show thesis
    by (intro that [of resp]) (auto simp: job_done_def Let_def split: sum.splits if_splits)
qed

text \<open>The runs of a session: the parts of the loop's turns, response threads that end in any order and at any time between them, and the server's stop.  Runs in
  which a turn does not reap first are included.  \<open>k\<close> counts the frames after which the session is still open, \<open>l\<close> the response threads that ended without writing a reply.\<close>

inductive session_run :: "endian \<Rightarrow> GpuComputeFn \<Rightarrow> BrokerServerConfig \<Rightarrow> BrokerService \<Rightarrow> RecvEvent list \<Rightarrow>
    BrokerService \<Rightarrow> Session \<Rightarrow> nat \<Rightarrow> nat \<Rightarrow> bool" for h f cfg service0 input where
  run_start: "session_run h f cfg service0 input service0 \<lparr> ss_input = input, ss_pending = [], ss_output = [], ss_open = True \<rparr> 0 0"
| run_reap: "session_run h f cfg service0 input service s k l \<Longrightarrow> ss_open s \<Longrightarrow> session_run h f cfg service0 input service (session_reap s) k l"
| run_read: "session_run h f cfg service0 input service s k l \<Longrightarrow> ss_open s \<Longrightarrow> s' = session_read h cfg s \<Longrightarrow>
    session_run h f cfg service0 input service s' (if ss_open s' then Suc k else k) l"
| run_done: "session_run h f cfg service0 input service s k l \<Longrightarrow> i < length (ss_pending s) \<Longrightarrow> \<not> snd (ss_pending s ! i) \<Longrightarrow>
    job_done h f ck cfg service s i = (service', s') \<Longrightarrow>
    session_run h f cfg service0 input service' s' k (if length (ss_output s') = length (ss_output s) then Suc l else l)"
| run_stop: "session_run h f cfg service0 input service s k l \<Longrightarrow> session_run h f cfg service0 input service (s \<lparr> ss_open := False \<rparr>) k l"

lemma run_turn:
  assumes "session_run h f cfg service0 input service s k l" "ss_open s"
  shows "session_run h f cfg service0 input service (session_turn h cfg s) (if ss_open (session_turn h cfg s) then Suc k else k) l"
  using run_read [OF run_reap [OF assms] _ refl] assms(2) by (simp add: session_turn_def session_reap_def)

lemma session_run_inv:
  assumes "session_run h f cfg service0 input service s k l" "service_ok service0"
  shows "service_ok service \<and> length (ss_pending s) \<le> sc_max_inflight_per_client cfg \<and>
    (ss_open s \<longrightarrow> length (ss_output s) + unfinished s + l = k)"
  using assms(1)
proof induction
  case run_start
  show ?case using assms(2) by (simp add: unfinished_def)
next
  case (run_reap service s k l)
  have "length (reap_finished (ss_pending s)) \<le> sc_max_inflight_per_client cfg" using run_reap.IH length_reap_le le_trans by blast
  with run_reap show ?case by (simp add: session_reap_def unfinished_def)
next
  case (run_read service s k l s')
  then show ?case by (cases rule: session_read_cases [of h cfg s]) (auto simp: unfinished_def)
next
  case (run_done service s k l i ck service' s')
  have ok: "service_ok service" using run_done.IH by blast
  show ?case
    by (rule job_done_cases [OF ok run_done(4)])
      (use run_done.IH run_done(2,3) reap_finish [of i "ss_pending s"] in \<open>auto simp: unfinished_def split: sum.splits\<close>)
next
  case (run_stop service s k l)
  then show ?case by simp
qed

section \<open>The listener\<close>

text \<open>The shared state of the server: \<open>sv_reading\<close> are the sessions between the loop's test of \<^verbatim>\<open>running_\<close> and the end of that turn,
  \<open>sv_shut\<close> the sockets on which \<^verbatim>\<open>shutdown\<close> was called (a blocked \<^verbatim>\<open>recv\<close> on them returns), \<open>sv_stopped\<close> says that \<^verbatim>\<open>stop\<close>
  is past its loop over the client sockets.\<close>

record Server =
  sv_running :: bool
  sv_stopped :: bool
  sv_clients :: "int set"
  sv_reading :: "int set"
  sv_shut :: "int set"

text \<open>The result, what is written to the refused client, and the new state.  \<open>timeout_ok\<close> says whether \<^verbatim>\<open>setsockopt\<close> succeeds.\<close>

definition admit_client :: "endian \<Rightarrow> BrokerServerConfig \<Rightarrow> bool \<Rightarrow> Server \<Rightarrow> int \<Rightarrow> (bool \<times> bytes \<times> Server) res" where
  "admit_client h cfg timeout_ok sv client_socket =
     (if card (sv_clients sv) \<ge> sc_max_clients cfg then
        res_bind (send_protocol_error h [] ''too many concurrent broker clients'' (server_limits cfg)) (\<lambda>out.
        Inr (False, out, sv \<lparr> sv_shut := insert client_socket (sv_shut sv) \<rparr>))
      else if \<not> timeout_ok then Inr (False, [], sv \<lparr> sv_shut := insert client_socket (sv_shut sv) \<rparr>)
      else Inr (True, [], sv \<lparr> sv_clients := insert client_socket (sv_clients sv) \<rparr>))"

definition stop_clients :: "Server \<Rightarrow> Server" where
  "stop_clients sv = sv \<lparr> sv_stopped := True, sv_shut := sv_shut sv \<union> sv_clients sv \<rparr>"

text \<open>The steps of the accepting thread, of the session threads and of the thread that calls \<^verbatim>\<open>stop\<close>, in any order.  \<^verbatim>\<open>accept\<close> returns a
  descriptor that is not in use; a refused one is closed at once.\<close>

inductive server_step :: "endian \<Rightarrow> BrokerServerConfig \<Rightarrow> Server \<Rightarrow> Server \<Rightarrow> bool" for h cfg where
  accept: "c \<notin> sv_clients sv \<Longrightarrow> c \<notin> sv_shut sv \<Longrightarrow> admit_client h cfg ok sv c = Inr (True, out, sv') \<Longrightarrow> server_step h cfg sv sv'"
| refuse: "c \<notin> sv_clients sv \<Longrightarrow> c \<notin> sv_shut sv \<Longrightarrow> admit_client h cfg ok sv c = Inr (False, out, sv') \<Longrightarrow>
    server_step h cfg sv (sv' \<lparr> sv_shut := sv_shut sv' - {c} \<rparr>)"
| turn_begin: "c \<in> sv_clients sv \<Longrightarrow> sv_running sv \<Longrightarrow> server_step h cfg sv (sv \<lparr> sv_reading := insert c (sv_reading sv) \<rparr>)"
| turn_end: "c \<in> sv_reading sv \<Longrightarrow> server_step h cfg sv (sv \<lparr> sv_reading := sv_reading sv - {c} \<rparr>)"
| session_end: "c \<in> sv_clients sv \<Longrightarrow> c \<notin> sv_reading sv \<Longrightarrow>
    server_step h cfg sv (sv \<lparr> sv_clients := sv_clients sv - {c}, sv_shut := sv_shut sv - {c} \<rparr>)"
| stop_flag: "sv_running sv \<Longrightarrow> server_step h cfg sv (sv \<lparr> sv_running := False \<rparr>)"
| stop_shutdown: "\<not> sv_running sv \<Longrightarrow> \<not> sv_stopped sv \<Longrightarrow> server_step h cfg sv (stop_clients sv)"

definition Server_start :: Server where
  "Server_start = \<lparr> sv_running = True, sv_stopped = False, sv_clients = {}, sv_reading = {}, sv_shut = {} \<rparr>"

definition server_inv :: "BrokerServerConfig \<Rightarrow> Server \<Rightarrow> bool" where
  "server_inv cfg sv \<longleftrightarrow> finite (sv_clients sv) \<and> card (sv_clients sv) \<le> sc_max_clients cfg \<and> sv_reading sv \<subseteq> sv_clients sv \<and>
     (sv_stopped sv \<longrightarrow> \<not> sv_running sv \<and> sv_reading sv \<subseteq> sv_shut sv)"

lemma admit_client_Inr:
  assumes "admit_client h cfg ok sv c = Inr (b, out, sv')"
  obtains "b" "card (sv_clients sv) < sc_max_clients cfg" "sv' = sv \<lparr> sv_clients := insert c (sv_clients sv) \<rparr>"
  | "\<not> b" "sv' = sv \<lparr> sv_shut := insert c (sv_shut sv) \<rparr>"
  using assms by (auto simp: admit_client_def res_bind_Inr_iff split: if_splits)

lemma server_step_inv: "server_step h cfg sv sv' \<Longrightarrow> server_inv cfg sv \<Longrightarrow> server_inv cfg sv'"
proof (induction rule: server_step.induct)
  case (accept c sv ok out sv')
  then show ?case by (elim admit_client_Inr) (auto simp: server_inv_def)
next
  case (refuse c sv ok out sv')
  then show ?case by (elim admit_client_Inr) (auto simp: server_inv_def)
next
  case (session_end c sv)
  then show ?case by (auto simp: server_inv_def intro: order_trans [OF card_Diff1_le])
qed (auto simp: server_inv_def stop_clients_def)

lemma server_run_inv: "(server_step h cfg)\<^sup>*\<^sup>* Server_start sv \<Longrightarrow> server_inv cfg sv"
proof (induction rule: rtranclp_induct)
  case base
  show ?case by (simp add: server_inv_def Server_start_def)
qed (rule server_step_inv)

section \<open>Properties\<close>

definition sample_server_config :: BrokerServerConfig where
  "sample_server_config = BrokerServerConfig_default \<lparr> sc_service_config := sample_config \<rparr>"

lemma sample_server_limits: "server_limits sample_server_config = ProtocolLimits_default"
  by (simp add: sample_server_config_def sample_config_def BrokerServiceConfig_default_def)

lemma sample_server_roomy: "roomy_limits (server_limits sample_server_config)"
  by (simp add: sample_server_limits roomy_limits_default)

lemma session_turn_consumed:
  assumes "stream True (ss_input s) = framed h' f @ rest" "f \<noteq> []" "length f \<le> max_frame_bytes (server_limits cfg)" "length f < 2 ^ 32"
    "roomy_limits (server_limits cfg)" "ss_open s"
  shows "stream True (ss_input (session_turn h cfg s)) = rest \<and> ss_open (session_turn h cfg s) \<and>
    (case handle_frame h cfg (unfinished s) f of
       Inr (Reply out) \<Rightarrow> ss_output (session_turn h cfg s) = ss_output s @ [out] \<and> unfinished (session_turn h cfg s) = unfinished s
     | Inr (Dispatch job) \<Rightarrow> ss_output (session_turn h cfg s) = ss_output s \<and> unfinished (session_turn h cfg s) = Suc (unfinished s)
     | Inl e \<Rightarrow> False)"
proof -
  obtain out where out: "handle_frame h cfg (length (reap_finished (ss_pending s))) f = Inr out" using handle_frame_ok [OF assms(5)] by blast
  from assms(1-4) show ?thesis
    by (rule session_turn_frame [where h = h and cfg = cfg])
      (use assms(6) out in \<open>cases out; simp add: unfinished_def Let_def\<close>)
qed

text \<open>C11. A complete frame starts a response thread exactly when the session has a free slot and the frame is a valid BRK1 request or a valid
  BRK2 request; the request served is the decoded one, and a BRK2 request keeps its request id.\<close>

theorem frame_dispatch_iff:
  "handle_frame h cfg pending f = Inr (Dispatch job) \<longleftrightarrow>
    pending < sc_max_inflight_per_client cfg \<and>
    (if job_use_brk2 job then decode_brk2_request_body f (server_limits cfg) 0 = (Inr (job_request job), job_request_id job)
     else decode_request_frame h f (server_limits cfg) = Inr (job_request job) \<and> job_request_id job = 0)"
  by (rule handle_frame_Dispatch_iff)

text \<open>C22. With limits that leave room for an error text, every frame that starts no response thread is answered: by a Rejected response that the
  BRK1 decoder reads back, or, for a frame with the BRK2 magic, by a BRK2 response with the frame's own request id (zero if the frame is too
  short to hold one).\<close>

theorem frame_always_answered:
  assumes "roomy_limits (server_limits cfg)" "\<nexists>job. handle_frame h cfg pending f = Inr (Dispatch job)"
  shows "\<exists>reply resp. handle_frame h cfg pending f = Inr (Reply (framed h reply)) \<and> rs_status resp = Rejected \<and>
    (if is_brk2_frame f
     then encode_brk2_response_body resp (if 20 \<le> length f then be_word (bytes_at f 12 8) else 0) (server_limits cfg) = Inr reply
     else decode_response_frame h reply (server_limits cfg) = Inr resp)"
proof -
  from handle_frame_ok [OF assms(1)] obtain out where out: "handle_frame h cfg pending f = Inr out" by blast
  with assms(2) obtain r where r: "handle_frame h cfg pending f = Inr (Reply r)" by (cases out) auto
  then show ?thesis by (rule handle_frame_Reply) (use r in blast)
qed

theorem frame_always_answered_witness:
  "\<exists>reply resp. handle_frame LittleEndian sample_server_config 0 [0x42, 0x52, 0x4b, 0x32] = Inr (Reply (framed LittleEndian reply)) \<and>
     rs_status resp = Rejected \<and> encode_brk2_response_body resp 0 (server_limits sample_server_config) = Inr reply"
proof -
  let ?f = "[0x42, 0x52, 0x4b, 0x32] :: bytes"
  have b: "is_brk2_frame ?f" by (simp add: is_brk2_frame_def byte_of_char_def numeral_2_eq_2 numeral_3_eq_3)
  have "\<nexists>job. handle_frame LittleEndian sample_server_config 0 ?f = Inr (Dispatch job)"
    using b brk1_accepted_not_brk2 [of LittleEndian ?f "server_limits sample_server_config"]
    by (auto simp: handle_frame_Dispatch_iff dest: brk2_accepted_length split: if_splits)
  from frame_always_answered [OF sample_server_roomy this] b show ?thesis by simp
qed

text \<open>C3. In every run of a session, whatever the order in which response threads end, the number of pending responses never exceeds the
  configured limit, the service keeps its invariant, and as long as the session is open every frame taken is accounted for: it was answered,
  or its response thread still runs, or that thread ended without a reply.\<close>

theorem session_accounting:
  assumes "session_run h f cfg service0 input service s k l" "service_ok service0"
  shows "service_ok service \<and> length (ss_pending s) \<le> sc_max_inflight_per_client cfg \<and>
    (ss_open s \<longrightarrow> length (ss_output s) + unfinished s + l = k)"
  using assms by (rule session_run_inv)

theorem session_accounting_witness:
  "\<exists>s. session_run BigEndian (\<lambda>xs g. Inl ''unused'') sample_server_config sample_service [Data (framed BigEndian [7])] sample_service s 1 0 \<and>
     ss_open s \<and> length (ss_output s) + unfinished s = 1"
proof -
  let ?start = "\<lparr> ss_input = [Data (framed BigEndian [7])], ss_pending = [], ss_output = [], ss_open = True \<rparr>"
  let ?after = "session_turn BigEndian sample_server_config ?start"
  have "framed BigEndian [7] \<noteq> []" by (simp add: framed_def)
  then have "stream True (ss_input ?start) = framed BigEndian [7] @ []" by simp
  then have is_open: "ss_open ?after"
    using session_turn_consumed [OF _ _ _ _ sample_server_roomy, of ?start BigEndian "[7]" "[]" BigEndian]
    by (simp add: sample_server_limits ProtocolLimits_default_def)
  then have "session_run BigEndian (\<lambda>xs g. Inl ''unused'') sample_server_config sample_service [Data (framed BigEndian [7])] sample_service ?after 1 0"
    using run_turn [OF run_start [of BigEndian "\<lambda>xs g. Inl ''unused''" sample_server_config sample_service "[Data (framed BigEndian [7])]"]]
    by simp
  with session_accounting [OF this sample_service_ok(1)] is_open show ?thesis by auto
qed

text \<open>C35. The response thread of a BRK2 request writes its reply exactly when the response, with its 76 bytes of field overhead, fits the limits.
  The overhead counts against the payload limit, so a result as long as an accepted payload may not fit; the encoder's exception is
  swallowed then and the client gets no reply at all.\<close>

theorem brk2_reply_written_iff:
  assumes "service_ok service" "ss_open s" "ss_pending s ! i = (job, fin)" "job_use_brk2 job"
    "handle_request h f ck service (job_request job) = (Inr resp, service')"
  shows "ss_output (snd (job_done h f ck cfg service s i)) \<noteq> ss_output s \<longleftrightarrow>
    length (rs_task_id resp) \<le> max_string_bytes (server_limits cfg) \<and> length (rs_error resp) \<le> max_string_bytes (server_limits cfg) \<and>
    length (rs_task_id resp) < 2 ^ 32 \<and> length (rs_result resp) < 2 ^ 32 \<and> length (rs_error resp) < 2 ^ 32 \<and>
    76 + length (rs_task_id resp) + length (rs_result resp) + length (rs_error resp) \<le> max_payload_bytes (server_limits cfg) \<and>
    108 + length (rs_task_id resp) + length (rs_result resp) + length (rs_error resp) \<le> max_frame_bytes (server_limits cfg)"
proof -
  have "ss_output (snd (job_done h f ck cfg service s i)) \<noteq> ss_output s \<longleftrightarrow>
      (\<exists>b. encode_brk2_response_body resp (job_request_id job) (server_limits cfg) = Inr b)"
    using assms by (simp add: job_done_def Let_def write_response_def res_bind_def split: sum.split)
  then show ?thesis unfolding brk2_response_encodes_iff .
qed

theorem brk2_reply_written_iff_witness:
  "\<exists>resp service'. handle_request BigEndian (\<lambda>xs g. Inl ''unused'') sample_clock sample_service service_task = (Inr resp, service') \<and>
     (ss_output (snd (job_done BigEndian (\<lambda>xs g. Inl ''unused'') sample_clock sample_server_config sample_service
        \<lparr> ss_input = [], ss_pending = [(\<lparr> job_request = service_task, job_use_brk2 = True, job_request_id = 7 \<rparr>, False)], ss_output = [],
          ss_open = True \<rparr> 0)) \<noteq> [] \<longrightarrow> length (rs_result resp) \<le> max_payload_bytes (server_limits sample_server_config))"
proof -
  obtain resp service' where r: "handle_request BigEndian (\<lambda>xs g. Inl ''unused'') sample_clock sample_service service_task = (Inr resp, service')"
    using broker.respond_obtain [OF sample_service_ok(1)] by metis
  let ?job = "\<lparr> job_request = service_task, job_use_brk2 = True, job_request_id = 7 \<rparr>"
  let ?sess = "\<lparr> ss_input = [], ss_pending = [(?job, False)], ss_output = [], ss_open = True \<rparr>"
  have "ss_pending ?sess ! 0 = (?job, False)" "job_use_brk2 ?job" "ss_open ?sess" "ss_output ?sess = []" by simp_all
  with r brk2_reply_written_iff [OF sample_service_ok(1), of ?sess 0 ?job False BigEndian "\<lambda>xs g. Inl ''unused''" sample_clock resp service'
      sample_server_config]
  have "ss_output (snd (job_done BigEndian (\<lambda>xs g. Inl ''unused'') sample_clock sample_server_config sample_service ?sess 0)) \<noteq> [] \<longrightarrow>
      length (rs_result resp) \<le> max_payload_bytes (server_limits sample_server_config)" by simp
  with r show ?thesis by blast
qed

text \<open>C23. In every reachable state of the server, with accepting, serving and stopping in any order, no more clients are registered than the
  configured number, and once \<^verbatim>\<open>stop\<close> is past its loop over the sockets, every session that may still be blocked in a read reads from a
  socket that was shut down, so that its read returns and the join at the end of the server's run is not blocked by it.\<close>

theorem server_clients_bounded:
  assumes "(server_step h cfg)\<^sup>*\<^sup>* Server_start sv"
  shows "finite (sv_clients sv) \<and> card (sv_clients sv) \<le> sc_max_clients cfg \<and> sv_reading sv \<subseteq> sv_clients sv \<and>
    (sv_stopped sv \<longrightarrow> sv_reading sv \<subseteq> sv_shut sv)"
  using server_run_inv [OF assms] by (simp add: server_inv_def)

theorem server_clients_bounded_witness:
  "\<exists>sv. (server_step BigEndian sample_server_config)\<^sup>*\<^sup>* Server_start sv \<and> sv_stopped sv \<and> 5 \<in> sv_reading sv \<and> 5 \<in> sv_shut sv"
proof -
  let ?a = "Server_start \<lparr> sv_clients := {5} \<rparr>"
  let ?b = "?a \<lparr> sv_reading := {5} \<rparr>"
  let ?c = "?b \<lparr> sv_running := False \<rparr>"
  let ?step = "server_step BigEndian sample_server_config"
  have "?step Server_start ?a"
    by (rule server_step.accept [of 5 _ _ _ True "[]"])
      (simp_all add: admit_client_def Server_start_def sample_server_config_def BrokerServerConfig_default_def)
  moreover have "?step ?a ?b" using server_step.turn_begin [of 5 ?a] by (simp add: Server_start_def)
  moreover have "?step ?b ?c" using server_step.stop_flag [of ?b] by (simp add: Server_start_def)
  moreover have "?step ?c (stop_clients ?c)" using server_step.stop_shutdown [of ?c] by (simp add: Server_start_def)
  ultimately have run: "?step\<^sup>*\<^sup>* Server_start (stop_clients ?c)" by (elim converse_rtranclp_into_rtranclp) (rule rtranclp.rtrancl_refl)
  from server_clients_bounded [OF run] have "sv_reading (stop_clients ?c) \<subseteq> sv_shut (stop_clients ?c)"
    by (simp add: stop_clients_def)
  then have "sv_stopped (stop_clients ?c) \<and> 5 \<in> sv_reading (stop_clients ?c) \<and> 5 \<in> sv_shut (stop_clients ?c)"
    by (auto simp: stop_clients_def)
  with run show ?thesis by blast
qed

end
