(* ===== verification/Float64_Arith.thy ===== *)
theory Float64_Arith
  imports Float64
begin

text \<open>
  The rounded operations that the sources use on \<^verbatim>\<open>double\<close> and \<^verbatim>\<open>float\<close>: the subtraction of the ADI delta packet, the
  multiplication by \<^verbatim>\<open>3.0\<close> of the simulated NPU, and the quantisation of the Ethos-U executor.  An exact result is a
  fraction in units of the least positive subnormal; \<open>round_fields\<close> rounds it to the nearest float with \<open>p\<close> bits of
  precision, ties to even, and to infinity from the exponent \<open>emax\<close> on.  Which NaN an operation returns is up to
  the machine and is the argument \<open>nan\<close>.
\<close>

section \<open>Rounding\<close>

function excess :: "nat \<Rightarrow> nat \<Rightarrow> nat" where
  "excess p n = (if n < 2 ^ p then 0 else Suc (excess p (n div 2)))"
  by pat_completeness auto

termination
proof (relation "measure snd")
  fix p n :: nat
  assume "\<not> n < 2 ^ p"
  then have "0 < n" by (metis gr0I zero_less_numeral zero_less_power)
  then show "((p, n div 2), (p, n)) \<in> measure snd" by simp
qed simp

declare excess.simps [simp del]

text \<open>The nearest integer to a fraction, ties to even.\<close>

definition round_half_even :: "nat \<Rightarrow> nat \<Rightarrow> nat" where
  "round_half_even num den =
     (let q = num div den; r = num mod den in
      if den < 2 * r \<or> den = 2 * r \<and> odd q then q + 1 else q)"

definition round_scale :: "nat \<Rightarrow> nat \<Rightarrow> nat \<Rightarrow> nat" where
  "round_scale p num den = excess p (num div den)"

definition round_coeff :: "nat \<Rightarrow> nat \<Rightarrow> nat \<Rightarrow> nat" where
  "round_coeff p num den = round_half_even num (den * 2 ^ round_scale p num den)"

definition round_fields :: "nat \<Rightarrow> nat \<Rightarrow> nat \<Rightarrow> nat \<Rightarrow> nat \<times> nat" where
  "round_fields p emax num den =
     (let k = round_scale p num den; q = round_coeff p num den in
      if q < 2 ^ (p - 1) then (0, q)
      else if q < 2 ^ p then (if k + 1 < emax then (k + 1, q - 2 ^ (p - 1)) else (emax, 0))
      else (if k + 2 < emax then (k + 2, 0) else (emax, 0)))"

definition round_double :: "nat \<Rightarrow> nat \<Rightarrow> nat \<Rightarrow> double" where
  "round_double s num den = (let (e, m) = round_fields 53 2047 num den in mk_double s e m)"

section \<open>Operations on doubles\<close>

definition double_isnan :: "double \<Rightarrow> bool" where
  "double_isnan v \<longleftrightarrow> double_exponent v = 2047 \<and> double_mantissa v \<noteq> 0"

text \<open>The exact value of a finite double in units of \<open>2 ^ -1074\<close>.\<close>

definition double_value :: "double \<Rightarrow> int" where
  "double_value v = (if double_sign v = 0 then int (double_magnitude v) else - int (double_magnitude v))"

definition double_sub :: "(double \<Rightarrow> double \<Rightarrow> double) \<Rightarrow> double \<Rightarrow> double \<Rightarrow> double" where
  "double_sub nan x y =
     (if double_isnan x \<or> double_isnan y then nan x y
      else if \<not> double_isfinite x then
        (if \<not> double_isfinite y \<and> double_sign x = double_sign y then nan x y else x)
      else if \<not> double_isfinite y then mk_double (1 - double_sign y) 2047 0
      else let d = double_value x - double_value y in
        if d = 0 then mk_double (if double_sign x = 1 \<and> double_sign y = 0 then 1 else 0) 0 0
        else round_double (if d < 0 then 1 else 0) (nat \<bar>d\<bar>) 1)"

definition double_mul3 :: "(double \<Rightarrow> double) \<Rightarrow> double \<Rightarrow> double" where
  "double_mul3 nan x =
     (if double_isnan x then nan x
      else if \<not> double_isfinite x then x
      else round_double (double_sign x) (3 * double_magnitude x) 1)"

text \<open>Division, addition, \<^verbatim>\<open>std::nearbyint\<close>, \<^verbatim>\<open><\<close> and the conversions from and to integers.\<close>

definition double_neg :: "double \<Rightarrow> double" where
  "double_neg v = mk_double (1 - double_sign v) (double_exponent v) (double_mantissa v)"

definition double_add :: "(double \<Rightarrow> double \<Rightarrow> double) \<Rightarrow> double \<Rightarrow> double \<Rightarrow> double" where
  "double_add nan x y = (if double_isnan x \<or> double_isnan y then nan x y else double_sub nan x (double_neg y))"

definition double_div :: "(double \<Rightarrow> double \<Rightarrow> double) \<Rightarrow> double \<Rightarrow> double \<Rightarrow> double" where
  "double_div nan x y =
     (let s = (if double_sign x = double_sign y then 0 else 1) in
      if double_isnan x \<or> double_isnan y then nan x y
      else if \<not> double_isfinite x then (if \<not> double_isfinite y then nan x y else mk_double s 2047 0)
      else if \<not> double_isfinite y then mk_double s 0 0
      else if double_magnitude y = 0 then (if double_magnitude x = 0 then nan x y else mk_double s 2047 0)
      else round_double s (double_magnitude x * 2 ^ 1074) (double_magnitude y))"

definition double_nearbyint :: "double \<Rightarrow> double" where
  "double_nearbyint x =
     (if \<not> double_isfinite x then x
      else round_double (double_sign x) (round_half_even (double_magnitude x) (2 ^ 1074) * 2 ^ 1074) 1)"

definition double_less :: "double \<Rightarrow> double \<Rightarrow> bool" where
  "double_less x y \<longleftrightarrow> \<not> double_isnan x \<and> \<not> double_isnan y \<and> double_value x < double_value y"

definition double_of_int :: "int \<Rightarrow> double" where
  "double_of_int i = round_double (if i < 0 then 1 else 0) (nat \<bar>i\<bar> * 2 ^ 1074) 1"

text \<open>The integer part, towards zero.\<close>

definition double_trunc :: "double \<Rightarrow> int" where
  "double_trunc v = (if double_sign v = 0 then int (double_magnitude v div 2 ^ 1074) else - int (double_magnitude v div 2 ^ 1074))"

section \<open>Single precision\<close>

definition float_sign :: "u32 \<Rightarrow> nat" where "float_sign v = unat v div 2 ^ 31"
definition float_exponent :: "u32 \<Rightarrow> nat" where "float_exponent v = unat v div 2 ^ 23 mod 2 ^ 8"
definition float_mantissa :: "u32 \<Rightarrow> nat" where "float_mantissa v = unat v mod 2 ^ 23"

definition mk_float :: "nat \<Rightarrow> nat \<Rightarrow> nat \<Rightarrow> u32" where
  "mk_float s e m = word_of_nat (s * 2 ^ 31 + e * 2 ^ 23 + m)"

definition float_isfinite :: "u32 \<Rightarrow> bool" where
  "float_isfinite v \<longleftrightarrow> float_exponent v \<noteq> 255"

text \<open>In units of \<open>2 ^ -149\<close>.\<close>

definition float_magnitude :: "u32 \<Rightarrow> nat" where
  "float_magnitude v =
     (if float_exponent v = 0 then float_mantissa v else (2 ^ 23 + float_mantissa v) * 2 ^ (float_exponent v - 1))"

definition round_float :: "nat \<Rightarrow> nat \<Rightarrow> nat \<Rightarrow> u32" where
  "round_float s num den = (let (e, m) = round_fields 24 255 num den in mk_float s e m)"

definition float_of_int :: "int \<Rightarrow> u32" where
  "float_of_int i = round_float (if i < 0 then 1 else 0) (nat \<bar>i\<bar> * 2 ^ 149) 1"

text \<open>The product of two finite values.\<close>

definition float_mul :: "u32 \<Rightarrow> u32 \<Rightarrow> u32" where
  "float_mul x y = round_float (if float_sign x = float_sign y then 0 else 1) (float_magnitude x * float_magnitude y) (2 ^ 149)"

text \<open>The conversion of a value that is not a NaN.\<close>

definition double_of_float :: "u32 \<Rightarrow> double" where
  "double_of_float x =
     (if \<not> float_isfinite x then mk_double (float_sign x) 2047 0
      else round_double (float_sign x) (float_magnitude x * 2 ^ 925) 1)"

section \<open>The nearest float\<close>

lemma excess_bounds:
  assumes "0 < p"
  shows "n div 2 ^ excess p n < 2 ^ p \<and> (0 < excess p n \<longrightarrow> 2 ^ (p - 1) \<le> n div 2 ^ excess p n)"
  using assms
proof (induction p n rule: excess.induct)
  case (1 p n)
  show ?case
  proof (cases "n < 2 ^ p")
    case False
    then have e: "excess p n = Suc (excess p (n div 2))" by (subst excess.simps) simp
    have "n div 2 ^ excess p n = n div 2 div 2 ^ excess p (n div 2)" by (simp add: e div_mult2_eq)
    moreover have "2 ^ (p - 1) \<le> n div 2" using False 1(2) by (cases p) (simp_all add: less_eq_div_iff_mult_less_eq mult.commute)
    moreover have "excess p (n div 2) = 0 \<or> 0 < excess p (n div 2)" by blast
    ultimately show ?thesis using 1 False by auto
  qed (simp add: excess.simps [of p n])
qed

text \<open>Magnitudes with \<open>p\<close> significant bits.\<close>

definition representable :: "nat \<Rightarrow> nat \<Rightarrow> bool" where
  "representable p m \<longleftrightarrow> (\<exists>c j. m = c * 2 ^ j \<and> c < 2 ^ p)"

lemma no_float_between:
  assumes "0 < p" "representable p m" "num div (den * 2 ^ round_scale p num den) * 2 ^ round_scale p num den < m"
  shows "(num div (den * 2 ^ round_scale p num den) + 1) * 2 ^ round_scale p num den \<le> m"
proof -
  let ?k = "round_scale p num den" and ?n = "num div den"
  let ?q = "num div (den * 2 ^ ?k)"
  have q: "?q = ?n div 2 ^ excess p ?n" by (simp add: round_scale_def div_mult2_eq)
  from assms(2) obtain c j where w: "m = c * 2 ^ j" "c < 2 ^ p" by (auto simp: representable_def)
  show ?thesis
  proof (cases "?k \<le> j")
    case True
    then have "c * 2 ^ j = (c * 2 ^ (j - ?k)) * 2 ^ ?k" by (simp add: power_add [symmetric])
    then show ?thesis using assms(3) w by (metis Suc_eq_plus1 Suc_leI mult_le_mono1 mult_less_cancel2)
  next
    case False
    then have "c * 2 ^ j < 2 ^ p * 2 ^ j" using w(2) by simp
    also have "\<dots> \<le> 2 ^ (p - 1) * 2 ^ ?k"
    proof -
      have "(2 :: nat) ^ (p + j) \<le> 2 ^ (p - 1 + ?k)" using False assms(1) by (intro power_increasing) simp_all
      then show ?thesis by (simp only: power_add)
    qed
    also have "\<dots> \<le> ?q * 2 ^ ?k" using excess_bounds [OF assms(1), of ?n] False q by (simp add: round_scale_def)
    finally show ?thesis using assms(3) w by simp
  qed
qed

lemma nearest_multiple:
  fixes a r u w c :: int
  assumes "w \<le> a \<or> a + u \<le> w" "0 \<le> r" "r < u" "c = a \<and> 2 * r \<le> u \<or> c = a + u \<and> u \<le> 2 * r"
  shows "\<bar>c - (a + r)\<bar> \<le> \<bar>w - (a + r)\<bar>"
  using assms by linarith

text \<open>The rounded fraction is a nearest one: its distance to the exact value, scaled by the denominator, is minimal.\<close>

lemma round_coeff_nearest:
  assumes "0 < p" "0 < den" "representable p m"
  shows "\<bar>int (round_coeff p num den * 2 ^ round_scale p num den * den) - int num\<bar> \<le> \<bar>int (m * den) - int num\<bar>"
proof -
  let ?k = "round_scale p num den"
  let ?u = "den * 2 ^ ?k" let ?q = "num div ?u" and ?r = "num mod ?u"
  have n: "num = ?q * ?u + ?r" by (simp only: div_mult_mod_eq)
  have r: "?r < ?u" using assms(2) by simp
  have "m \<le> ?q * 2 ^ ?k \<or> ?q * 2 ^ ?k + 2 ^ ?k \<le> m"
    using no_float_between [OF assms(1,3), of num den] by fastforce
  then have "m * den \<le> ?q * 2 ^ ?k * den \<or> (?q * 2 ^ ?k + 2 ^ ?k) * den \<le> m * den" by (meson mult_le_mono1)
  then have w: "int (m * den) \<le> int (?q * ?u) \<or> int (?q * ?u) + int ?u \<le> int (m * den)"
    unfolding of_nat_add [symmetric] of_nat_le_iff by (simp only: ac_simps distrib_left distrib_right)
  have "round_coeff p num den * ?u = (if ?u < 2 * ?r \<or> ?u = 2 * ?r \<and> odd ?q then ?q * ?u + ?u else ?q * ?u)"
    by (simp add: round_coeff_def round_half_even_def Let_def)
  then have c: "int (round_coeff p num den * ?u) = int (?q * ?u) \<and> 2 * int ?r \<le> int ?u \<or>
      int (round_coeff p num den * ?u) = int (?q * ?u) + int ?u \<and> int ?u \<le> 2 * int ?r"
    by (cases "?u < 2 * ?r \<or> ?u = 2 * ?r \<and> odd ?q") (simp_all only: if_True if_False, linarith+)
  have "int num = int (?q * ?u) + int ?r" using n by linarith
  moreover have "0 \<le> int ?r" "int ?r < int ?u" using r by linarith+
  ultimately have "\<bar>int (round_coeff p num den * ?u) - int num\<bar> \<le> \<bar>int (m * den) - int num\<bar>" using nearest_multiple [OF w _ _ c] by simp
  then show ?thesis by (simp only: ac_simps)
qed

lemma round_fields_cases:
  assumes "0 < p"
  obtains (subnormal) "round_coeff p num den < 2 ^ (p - 1)" "round_scale p num den = 0"
      "round_fields p emax num den = (0, round_coeff p num den)"
  | (normal) "2 ^ (p - 1) \<le> round_coeff p num den" "round_coeff p num den < 2 ^ p" "round_scale p num den + 1 < emax"
      "round_fields p emax num den = (round_scale p num den + 1, round_coeff p num den - 2 ^ (p - 1))"
  | (carry) "round_coeff p num den = 2 ^ p" "round_scale p num den + 2 < emax"
      "round_fields p emax num den = (round_scale p num den + 2, 0)"
  | (overflow) "round_fields p emax num den = (emax, 0)"
proof -
  let ?k = "round_scale p num den" and ?q = "round_coeff p num den" and ?n = "num div den"
  have "num div (den * 2 ^ ?k) = ?n div 2 ^ excess p ?n" by (simp add: round_scale_def div_mult2_eq)
  then have b: "?n div 2 ^ excess p ?n \<le> ?q" "?q \<le> ?n div 2 ^ excess p ?n + 1"
    by (simp_all add: round_coeff_def round_half_even_def Let_def)
  then have q: "?q \<le> 2 ^ p" using excess_bounds [OF assms, of ?n] by simp
  show thesis
  proof (cases "?q < 2 ^ (p - 1)")
    case True
    then have "?k = 0" using excess_bounds [OF assms, of ?n] b(1) by (auto simp: round_scale_def)
    with True show thesis by (intro subnormal) (simp_all add: round_fields_def Let_def)
  next
    case big: False
    show thesis
    proof (cases "?q < 2 ^ p")
      case True
      with big show thesis
        by (cases "?k + 1 < emax") (rule normal, simp_all add: round_fields_def Let_def, rule overflow, simp add: round_fields_def Let_def)
    next
      case False
      with big q show thesis
        by (cases "?k + 2 < emax") (rule carry, simp_all add: round_fields_def Let_def, rule overflow, simp add: round_fields_def Let_def)
    qed
  qed
qed

section \<open>Doubles\<close>

lemma representable_double: "double_isfinite w \<Longrightarrow> representable 53 (double_magnitude w)"
  unfolding representable_def double_magnitude_def using double_fields_less(3) [of w]
  by (cases "double_exponent w = 0") (rule exI [of _ "double_mantissa w"], rule exI [of _ 0], simp,
    rule exI [of _ "2 ^ 52 + double_mantissa w"], rule exI [of _ "double_exponent w - 1"], simp)

lemma round_double_magnitude:
  assumes "s < 2" "double_isfinite (round_double s num den)"
  shows "double_magnitude (round_double s num den) = round_coeff 53 num den * 2 ^ round_scale 53 num den \<and> double_sign (round_double s num den) = s"
proof -
  let ?k = "round_scale 53 num den" and ?q = "round_coeff 53 num den"
  have p: "0 < (53 :: nat)" by simp
  show ?thesis
  proof (cases rule: round_fields_cases [OF p, of num den 2047])
    case 1
    then have "?q < 2 ^ 52" by simp
    with 1 assms(1) show ?thesis by (simp add: round_double_def double_magnitude_def mk_double_fields)
  next
    case 2
    then have "?q - 2 ^ 52 < 2 ^ 52" "2 ^ 52 \<le> ?q" by simp_all
    with 2 assms(1) show ?thesis by (simp add: round_double_def double_magnitude_def mk_double_fields)
  next
    case 3
    with assms(1) show ?thesis by (simp add: round_double_def double_magnitude_def mk_double_fields)
  next
    case 4
    with assms show ?thesis by (simp add: round_double_def double_isfinite_def mk_double_fields)
  qed
qed

lemma round_double_not_nan: "s < 2 \<Longrightarrow> \<not> double_isnan (round_double s num den)"
  by (cases rule: round_fields_cases [of 53 num den 2047]) (auto simp: round_double_def double_isnan_def mk_double_fields)

lemma round_double_sign: "s < 2 \<Longrightarrow> double_sign (round_double s num den) = s"
  by (cases rule: round_fields_cases [of 53 num den 2047]) (auto simp: round_double_def mk_double_fields)

text \<open>Rounding gives a nearest double.\<close>

lemma round_double_nearest:
  assumes "s < 2" "0 < den" "double_isfinite (round_double s num den)" "double_isfinite w"
  shows "\<bar>int (double_magnitude (round_double s num den) * den) - int num\<bar> \<le> \<bar>int (double_magnitude w * den) - int num\<bar>"
  using round_double_magnitude [OF assms(1,3)] round_coeff_nearest [OF _ assms(2) representable_double [OF assms(4)], of num] by simp

lemma double_value_zero: "double_isfinite 0" "double_magnitude 0 = 0"
  by (simp_all add: double_isfinite_def double_magnitude_def double_exponent_def double_mantissa_def)

lemma double_sub_nearest:
  assumes "double_isfinite x" "double_isfinite y" "double_isfinite (double_sub nan x y)" "double_isfinite w"
  shows "\<bar>double_value (double_sub nan x y) - (double_value x - double_value y)\<bar> \<le> \<bar>double_value w - (double_value x - double_value y)\<bar>"
proof -
  define d where "d = double_value x - double_value y"
  have nn: "\<not> double_isnan x" "\<not> double_isnan y" using assms(1,2) by (auto simp: double_isnan_def double_isfinite_def)
  show ?thesis
  proof (cases "d = 0")
    case True
    then have "double_value (double_sub nan x y) = 0"
      using nn assms(1,2) by (simp add: double_sub_def d_def double_value_def [of "mk_double _ _ _"] double_magnitude_def mk_double_fields)
    with True show ?thesis by (simp add: d_def)
  next
    case False
    let ?s = "if d < 0 then 1 else 0 :: nat" and ?n = "nat \<bar>d\<bar>"
    have r: "double_sub nan x y = round_double ?s ?n 1" using nn assms(1,2) False by (simp add: double_sub_def d_def)
    let ?m = "int (double_magnitude (round_double ?s ?n 1))"
    have s: "?s < 2" "0 < (1 :: nat)" by simp_all
    have fin: "double_isfinite (round_double ?s ?n 1)" using assms(3) r by simp
    have "\<bar>?m - int ?n\<bar> \<le> \<bar>int (double_magnitude w) - int ?n\<bar>" "\<bar>?m - int ?n\<bar> \<le> int ?n"
      using round_double_nearest [OF s fin assms(4)] round_double_nearest [OF s fin double_value_zero(1)] by (simp_all add: double_value_zero)
    moreover have "double_value (round_double ?s ?n 1) = (if d < 0 then - ?m else ?m)"
      using round_double_magnitude [OF s(1) fin] by (simp add: double_value_def)
    moreover have "double_value w = int (double_magnitude w) \<or> double_value w = - int (double_magnitude w)" by (simp add: double_value_def)
    ultimately show ?thesis unfolding r d_def [symmetric] by (cases "d < 0") (simp_all only: if_True if_False, linarith+)
  qed
qed

end
