(* ===== verification/Ethosu_Bundle.thy ===== *)
theory Ethosu_Bundle
  imports Wire Float64_Arith
begin

text \<open>
  The model bundle of the Ethos-U executor: \<^verbatim>\<open>load_bundle\<close> of \<^verbatim>\<open>src/ethosu_u85_drm_executor.cpp\<close>.  The input stream is the
  list of bytes not yet read.  \<open>bundle_bytes\<close> writes the layout of \<^verbatim>\<open>docs/ETHOSU_U85_BUNDLE.md\<close>; the loader
  accepts exactly what it writes, within the bounds of \<open>bundle_ok\<close>.
\<close>

section \<open>The loader\<close>

definition kMaxRegions :: nat where "kMaxRegions = 8"
definition kMaxCommandBytes :: nat where "kMaxCommandBytes = 64 * 1024 * 1024"
definition kMaxRegionBytes :: nat where "kMaxRegionBytes = 256 * 1024 * 1024"

record Bundle =
  b_sram_size :: u32
  b_command_stream :: bytes
  b_regions :: "bytes list"
  b_input_region :: u32
  b_output_region :: u32
  b_input_offset :: u32
  b_output_offset :: u32
  b_input_elements :: u32
  b_output_elements :: u32
  b_input_scale :: u32
  b_output_scale :: u32
  b_input_zero :: i32
  b_output_zero :: i32

text \<open>\<^verbatim>\<open>in.read\<close> of \<open>n\<close> bytes; \<open>None\<close> when fewer are left.\<close>

definition stream_read :: "nat \<Rightarrow> bytes \<Rightarrow> (bytes \<times> bytes) option" where
  "stream_read n is = (if n \<le> length is then Some (take n is, drop n is) else None)"

definition read_u32 :: "bytes \<Rightarrow> (u32 \<times> bytes) res" where
  "read_u32 is =
     (case stream_read 4 is of
        None \<Rightarrow> Inl ''truncated Ethos-U bundle header''
      | Some (b, is) \<Rightarrow>
          Inr (((ucast (b ! 0) OR push_bit 8 (ucast (b ! 1))) OR push_bit 16 (ucast (b ! 2))) OR push_bit 24 (ucast (b ! 3)), is))"

text \<open>\<^verbatim>\<open>!std::isfinite(scale) || scale <= 0\<close>.\<close>

definition bad_scale :: "u32 \<Rightarrow> bool" where
  "bad_scale scale \<longleftrightarrow> \<not> float_isfinite scale \<or> float_sign scale = 1 \<or> float_magnitude scale = 0"

fun load_regions :: "nat \<Rightarrow> bytes \<Rightarrow> (bytes list \<times> bytes) res" where
  "load_regions 0 is = Inr ([], is)"
| "load_regions (Suc n) is =
     res_bind (read_u32 is) (\<lambda>(sz, is).
     if sz = 0 \<or> unat sz > kMaxRegionBytes then Inl ''invalid Ethos-U region size''
     else case stream_read (unat sz) is of
       None \<Rightarrow> Inl ''truncated Ethos-U region data''
     | Some (region, is) \<Rightarrow> res_bind (load_regions n is) (\<lambda>(regions, is). Inr (region # regions, is)))"

text \<open>What follows the fixed header: the command stream, the regions, and the final checks.\<close>

definition load_body :: "Bundle \<Rightarrow> u32 \<Rightarrow> u32 \<Rightarrow> bytes \<Rightarrow> Bundle res" where
  "load_body b cmd_size region_count is =
     (if cmd_size = 0 \<or> unat cmd_size > kMaxCommandBytes \<or> region_count = 0 \<or> unat region_count > kMaxRegions \<or>
         b_sram_size b = 0 \<or> b_input_region b \<ge> region_count \<or> b_output_region b \<ge> region_count \<or>
         b_input_elements b = 0 \<or> b_output_elements b = 0 \<or> bad_scale (b_input_scale b) \<or> bad_scale (b_output_scale b)
      then Inl ''invalid Ethos-U bundle dimensions or quantization''
      else case stream_read (unat cmd_size) is of
        None \<Rightarrow> Inl ''truncated Ethos-U command stream''
      | Some (command_stream, is) \<Rightarrow>
          res_bind (load_regions (unat region_count) is) (\<lambda>(regions, is).
          if is \<noteq> [] then Inl ''trailing bytes in Ethos-U bundle''
          else if unat (b_input_offset b) + unat (b_input_elements b) > length (regions ! unat (b_input_region b)) \<or>
                  unat (b_output_offset b) + unat (b_output_elements b) > length (regions ! unat (b_output_region b))
          then Inl ''Ethos-U tensor range exceeds its region''
          else Inr (b \<lparr> b_command_stream := command_stream, b_regions := regions \<rparr>)))"

definition load_bundle :: "bytes option \<Rightarrow> string \<Rightarrow> Bundle res" where
  "load_bundle contents path =
     (case contents of
        None \<Rightarrow> Inl (''cannot open Ethos-U bundle: '' @ path)
      | Some is \<Rightarrow>
          (case stream_read 8 is of
             None \<Rightarrow> Inl ''invalid Ethos-U bundle magic (expected YU85BND1)''
           | Some (magic, is) \<Rightarrow>
               if magic \<noteq> bytes_of_string ''YU85BND1'' then Inl ''invalid Ethos-U bundle magic (expected YU85BND1)''
               else
               res_bind (read_u32 is) (\<lambda>(version, is).
               if version \<noteq> 1 then Inl ''unsupported Ethos-U bundle version''
               else
               res_bind (read_u32 is) (\<lambda>(sram_size, is).
               res_bind (read_u32 is) (\<lambda>(cmd_size, is).
               res_bind (read_u32 is) (\<lambda>(region_count, is).
               res_bind (read_u32 is) (\<lambda>(input_region, is).
               res_bind (read_u32 is) (\<lambda>(output_region, is).
               res_bind (read_u32 is) (\<lambda>(input_offset, is).
               res_bind (read_u32 is) (\<lambda>(output_offset, is).
               res_bind (read_u32 is) (\<lambda>(input_elements, is).
               res_bind (read_u32 is) (\<lambda>(output_elements, is).
               res_bind (read_u32 is) (\<lambda>(input_scale, is).
               res_bind (read_u32 is) (\<lambda>(input_zero, is).
               res_bind (read_u32 is) (\<lambda>(output_scale, is).
               res_bind (read_u32 is) (\<lambda>(output_zero, is).
               load_body \<lparr> b_sram_size = sram_size, b_command_stream = [], b_regions = [], b_input_region = input_region,
                   b_output_region = output_region, b_input_offset = input_offset, b_output_offset = output_offset,
                   b_input_elements = input_elements, b_output_elements = output_elements, b_input_scale = input_scale,
                   b_output_scale = output_scale, b_input_zero = input_zero, b_output_zero = output_zero \<rparr>
                 cmd_size region_count is))))))))))))))))"

section \<open>The documented layout\<close>

definition le32 :: "u32 \<Rightarrow> bytes" where
  "le32 v = rev (be_bytes 4 v)"

definition bundle_header :: "Bundle \<Rightarrow> u32 list" where
  "bundle_header b = [1, b_sram_size b, word_of_nat (length (b_command_stream b)), word_of_nat (length (b_regions b)),
     b_input_region b, b_output_region b, b_input_offset b, b_output_offset b, b_input_elements b, b_output_elements b,
     b_input_scale b, b_input_zero b, b_output_scale b, b_output_zero b]"

definition region_bytes :: "bytes \<Rightarrow> bytes" where
  "region_bytes r = le32 (word_of_nat (length r)) @ r"

definition bundle_bytes :: "Bundle \<Rightarrow> bytes" where
  "bundle_bytes b = bytes_of_string ''YU85BND1'' @ concat (map le32 (bundle_header b)) @ b_command_stream b @
     concat (map region_bytes (b_regions b))"

definition region_ok :: "bytes \<Rightarrow> bool" where
  "region_ok r \<longleftrightarrow> 0 < length r \<and> length r \<le> kMaxRegionBytes"

definition bundle_ok :: "Bundle \<Rightarrow> bool" where
  "bundle_ok b \<longleftrightarrow>
     0 < length (b_command_stream b) \<and> length (b_command_stream b) \<le> kMaxCommandBytes \<and>
     0 < length (b_regions b) \<and> length (b_regions b) \<le> kMaxRegions \<and> list_all region_ok (b_regions b) \<and> b_sram_size b \<noteq> 0 \<and>
     unat (b_input_region b) < length (b_regions b) \<and> unat (b_output_region b) < length (b_regions b) \<and>
     b_input_elements b \<noteq> 0 \<and> b_output_elements b \<noteq> 0 \<and> \<not> bad_scale (b_input_scale b) \<and> \<not> bad_scale (b_output_scale b) \<and>
     unat (b_input_offset b) + unat (b_input_elements b) \<le> length (b_regions b ! unat (b_input_region b)) \<and>
     unat (b_output_offset b) + unat (b_output_elements b) \<le> length (b_regions b ! unat (b_output_region b))"

section \<open>Reading what was written\<close>

lemma stream_read_iff: "stream_read n is = Some (a, r) \<longleftrightarrow> is = a @ r \<and> length a = n"
  by (auto simp: stream_read_def)

lemma length_le32 [simp]: "length (le32 v) = 4"
  by (simp add: le32_def)

lemma le_word_4: "((ucast a OR push_bit 8 (ucast b)) OR push_bit 16 (ucast c)) OR push_bit 24 (ucast d) = (be_word [d, c, b, a] :: u32)"
  unfolding foldl_shift_in_0 [symmetric] by (simp add: shift_in_def push_bit_or push_bit_push_bit ac_simps)

lemma read_u32_iff: "read_u32 is = Inr (v, r) \<longleftrightarrow> is = le32 v @ r"
proof (cases "stream_read 4 is")
  case None
  then have "length is < 4" by (simp add: stream_read_def split: if_splits)
  then show ?thesis using None by (auto simp: read_u32_def)
next
  case (Some x)
  then obtain b t where x: "stream_read 4 is = Some (b, t)" "is = b @ t" "length b = 4" by (cases x) (auto simp: stream_read_iff)
  then obtain b0 b1 b2 b3 where b: "b = [b0, b1, b2, b3]" by (auto simp: length_Suc_conv eval_nat_numeral)
  have "be_word [b3, b2, b1, b0] = v \<longleftrightarrow> [b3, b2, b1, b0] = be_bytes 4 v" by (rule be_word_eq_iff) simp_all
  also have "\<dots> \<longleftrightarrow> rev b = be_bytes 4 v" by (simp add: b)
  also have "\<dots> \<longleftrightarrow> b = le32 v" by (metis le32_def rev_rev_ident)
  finally have "be_word [b3, b2, b1, b0] = v \<longleftrightarrow> b = le32 v" .
  then show ?thesis
    using x b by (auto simp: read_u32_def le_word_4 [symmetric] numeral_2_eq_2 numeral_3_eq_3 simp del: append_Cons)
qed

lemma bind_read_u32_iff: "res_bind (read_u32 is) f = Inr y \<longleftrightarrow> (\<exists>v r. is = le32 v @ r \<and> f (v, r) = Inr y)"
  by (auto simp: res_bind_Inr_iff read_u32_iff)

lemma case_stream_read_iff:
  "(case stream_read n is of None \<Rightarrow> Inl e | Some (a, r) \<Rightarrow> f a r) = Inr y \<longleftrightarrow> (\<exists>a r. is = a @ r \<and> length a = n \<and> f a r = Inr y)"
proof (cases "n \<le> length is")
  case True
  then have "is = a @ r \<and> length a = n \<longleftrightarrow> a = take n is \<and> r = drop n is" for a r by auto
  then have "(\<exists>a r. (is = a @ r \<and> length a = n) \<and> f a r = Inr y) \<longleftrightarrow> f (take n is) (drop n is) = Inr y" by simp
  with True show ?thesis by (simp add: stream_read_def conj_assoc)
qed (auto simp: stream_read_def)

lemma region_size: "region_ok r \<Longrightarrow> unat (word_of_nat (length r) :: u32) = length r"
  by (simp add: region_ok_def kMaxRegionBytes_def unat_of_nat)

lemma load_regions_iff:
  "load_regions n is = Inr (rs, r) \<longleftrightarrow> length rs = n \<and> list_all region_ok rs \<and> is = concat (map region_bytes rs) @ r"
proof (induction n arbitrary: "is" rs)
  case 0
  then show ?case by auto
next
  case (Suc n)
  have "load_regions (Suc n) is = Inr (rs, r) \<longleftrightarrow>
      (\<exists>sz t a u rs'. is = le32 sz @ t \<and> sz \<noteq> 0 \<and> unat sz \<le> kMaxRegionBytes \<and> t = a @ u \<and> length a = unat sz \<and>
        load_regions n u = Inr (rs', r) \<and> rs = a # rs')"
    by (auto simp: read_u32_iff res_bind_Inr_iff case_stream_read_iff not_less)
  also have "\<dots> \<longleftrightarrow> (\<exists>a rs' u. region_ok a \<and> is = region_bytes a @ u \<and> load_regions n u = Inr (rs', r) \<and> rs = a # rs')"
  proof (intro iffI; elim exE conjE)
    fix sz t a u rs'
    assume "is = le32 sz @ t" "sz \<noteq> 0" "unat sz \<le> kMaxRegionBytes" "t = a @ u" "length a = unat sz" "load_regions n u = Inr (rs', r)" "rs = a # rs'"
    moreover from this have "word_of_nat (length a) = sz" by simp
    ultimately show "\<exists>a rs' u. region_ok a \<and> is = region_bytes a @ u \<and> load_regions n u = Inr (rs', r) \<and> rs = a # rs'"
      by (intro exI [of _ a] exI [of _ rs'] exI [of _ u]) (simp add: region_ok_def region_bytes_def unat_gt_0)
  next
    fix a rs' u
    assume a: "region_ok a" "is = region_bytes a @ u" "load_regions n u = Inr (rs', r)" "rs = a # rs'"
    let ?sz = "word_of_nat (length a) :: u32"
    have "is = le32 ?sz @ (a @ u)" "unat ?sz \<le> kMaxRegionBytes" "length a = unat ?sz"
      using a region_size [OF a(1)] by (simp_all add: region_ok_def region_bytes_def)
    moreover have "?sz \<noteq> 0" using region_size [OF a(1)] a(1) by (auto simp: region_ok_def)
    ultimately show "\<exists>sz t a u rs'. is = le32 sz @ t \<and> sz \<noteq> 0 \<and> unat sz \<le> kMaxRegionBytes \<and> t = a @ u \<and> length a = unat sz \<and>
        load_regions n u = Inr (rs', r) \<and> rs = a # rs'" using a(3,4) by blast
  qed
  also have "\<dots> \<longleftrightarrow> length rs = Suc n \<and> list_all region_ok rs \<and> is = concat (map region_bytes rs) @ r"
    by (cases rs) (auto simp: Suc.IH)
  finally show ?case .
qed

lemma load_body_iff:
  "load_body b c n is = Inr b' \<longleftrightarrow> (\<exists>cs rs. b' = b \<lparr> b_command_stream := cs, b_regions := rs \<rparr> \<and>
     is = cs @ concat (map region_bytes rs) \<and> unat c = length cs \<and> unat n = length rs \<and> bundle_ok b')" (is "_ \<longleftrightarrow> ?r")
proof
  assume l: "load_body b c n is = Inr b'"
  then obtain cs rs where "is = cs @ concat (map region_bytes rs)" "length cs = unat c" "length rs = unat n" "list_all region_ok rs"
    "b' = b \<lparr> b_command_stream := cs, b_regions := rs \<rparr>"
    "unat (b_input_offset b) + unat (b_input_elements b) \<le> length (rs ! unat (b_input_region b))"
    "unat (b_output_offset b) + unat (b_output_elements b) \<le> length (rs ! unat (b_output_region b))"
    by (auto simp: load_body_def case_stream_read_iff res_bind_Inr_iff load_regions_iff not_less)
  with l show ?r
    by (intro exI [of _ cs] exI [of _ rs]) (simp add: load_body_def bundle_ok_def word_le_nat_alt not_le unat_gt_0)
next
  assume ?r
  then obtain cs rs where r: "b' = b \<lparr> b_command_stream := cs, b_regions := rs \<rparr>" "is = cs @ concat (map region_bytes rs)"
    "unat c = length cs" "unat n = length rs" "bundle_ok b'" by blast
  then have "stream_read (unat c) is = Some (cs, concat (map region_bytes rs))"
      "load_regions (unat n) (concat (map region_bytes rs)) = Inr (rs, [])"
    by (simp_all add: stream_read_iff load_regions_iff bundle_ok_def)
  with r show "load_body b c n is = Inr b'"
    by (auto simp: load_body_def bundle_ok_def word_le_nat_alt not_le unat_gt_0)
qed

lemma unat_eq_iff_of_nat: "k < 2 ^ 32 \<Longrightarrow> unat (c :: u32) = k \<longleftrightarrow> c = word_of_nat k"
  by (simp add: word_unat_eq_iff unat_of_nat)

lemma bundle_sizes:
  assumes "bundle_ok b"
  shows "unat c = length (b_command_stream b) \<longleftrightarrow> c = (word_of_nat (length (b_command_stream b)) :: u32)"
    "unat n = length (b_regions b) \<longleftrightarrow> n = (word_of_nat (length (b_regions b)) :: u32)"
  using assms by (intro unat_eq_iff_of_nat; simp add: bundle_ok_def kMaxCommandBytes_def kMaxRegions_def)+

lemma read_u32_le32 [simp]: "read_u32 (le32 v @ r) = Inr (v, r)"
  by (simp add: read_u32_iff)

lemma load_bundle_iff: "load_bundle contents path = Inr b \<longleftrightarrow> contents = Some (bundle_bytes b) \<and> bundle_ok b"
proof
  assume l: "load_bundle contents path = Inr b"
  then obtain fs where fs: "contents = Some fs" by (cases contents) (simp_all add: load_bundle_def)
  with l obtain sram c n ireg oreg ioff ooff iel oel isc izp osc ozp t where
    f: "contents = Some (bytes_of_string ''YU85BND1'' @ le32 1 @ le32 sram @ le32 c @ le32 n @ le32 ireg @ le32 oreg @ le32 ioff @ le32 ooff @
        le32 iel @ le32 oel @ le32 isc @ le32 izp @ le32 osc @ le32 ozp @ t)"
    and body: "load_body \<lparr> b_sram_size = sram, b_command_stream = [], b_regions = [], b_input_region = ireg, b_output_region = oreg,
        b_input_offset = ioff, b_output_offset = ooff, b_input_elements = iel, b_output_elements = oel, b_input_scale = isc,
        b_output_scale = osc, b_input_zero = izp, b_output_zero = ozp \<rparr> c n t = Inr b"
    unfolding load_bundle_def
    by (simp only: fs option.case case_stream_read_iff if_Inl_eq_Inr bind_read_u32_iff prod.case not_not) blast
  from body obtain cs rs where "b = \<lparr> b_sram_size = sram, b_command_stream = cs, b_regions = rs, b_input_region = ireg, b_output_region = oreg,
        b_input_offset = ioff, b_output_offset = ooff, b_input_elements = iel, b_output_elements = oel, b_input_scale = isc,
        b_output_scale = osc, b_input_zero = izp, b_output_zero = ozp \<rparr>" "t = cs @ concat (map region_bytes rs)"
      "unat c = length cs" "unat n = length rs" and ok: "bundle_ok b"
    unfolding load_body_iff by auto
  with bundle_sizes(1) [OF ok, of c] bundle_sizes(2) [OF ok, of n] f show "contents = Some (bundle_bytes b) \<and> bundle_ok b"
    by (simp add: bundle_bytes_def bundle_header_def)
next
  assume b: "contents = Some (bundle_bytes b) \<and> bundle_ok b"
  let ?t = "b_command_stream b @ concat (map region_bytes (b_regions b))"
  have "load_body (b \<lparr> b_command_stream := [], b_regions := [] \<rparr>) (word_of_nat (length (b_command_stream b)))
      (word_of_nat (length (b_regions b))) ?t = Inr b"
    unfolding load_body_iff using b bundle_sizes [of b]
    by (intro exI [of _ "b_command_stream b"] exI [of _ "b_regions b"]) simp
  moreover have "stream_read 8 (bytes_of_string ''YU85BND1'' @ r) = Some (bytes_of_string ''YU85BND1'', r)" for r by (simp add: stream_read_iff)
  moreover have "b \<lparr> b_command_stream := [], b_regions := [] \<rparr> = \<lparr> b_sram_size = b_sram_size b, b_command_stream = [], b_regions = [],
      b_input_region = b_input_region b, b_output_region = b_output_region b, b_input_offset = b_input_offset b,
      b_output_offset = b_output_offset b, b_input_elements = b_input_elements b, b_output_elements = b_output_elements b,
      b_input_scale = b_input_scale b, b_output_scale = b_output_scale b, b_input_zero = b_input_zero b, b_output_zero = b_output_zero b \<rparr>"
    by simp
  ultimately show "load_bundle contents path = Inr b" using b
    by (simp only: load_bundle_def bundle_bytes_def bundle_header_def list.map concat.simps append.assoc append_Nil option.case prod.case
        read_u32_le32 res_bind_simps simp_thms if_False)
qed

text \<open>A small bundle.\<close>

definition sample_bundle :: Bundle where
  "sample_bundle = \<lparr> b_sram_size = 4096, b_command_stream = [1, 2, 3], b_regions = [[0, 0, 0, 0]], b_input_region = 0, b_output_region = 0,
     b_input_offset = 0, b_output_offset = 2, b_input_elements = 2, b_output_elements = 2, b_input_scale = 0x3f800000,
     b_output_scale = 0x3f000000, b_input_zero = 0, b_output_zero = -3 \<rparr>"

lemma sample_bundle_ok: "bundle_ok sample_bundle"
  by (simp add: bundle_ok_def sample_bundle_def region_ok_def kMaxCommandBytes_def kMaxRegions_def kMaxRegionBytes_def bad_scale_def
      float_isfinite_def float_sign_def float_magnitude_def float_exponent_def float_mantissa_def)

section \<open>Properties\<close>

text \<open>C18. The bundle loader accepts exactly the files in the documented layout whose sizes, indices and scales are within bounds and whose
  tensor ranges lie inside their regions, and returns the bundle that was written.\<close>

theorem ethosu_bundle_codec: "load_bundle contents path = Inr b \<longleftrightarrow> contents = Some (bundle_bytes b) \<and> bundle_ok b"
  by (rule load_bundle_iff)

end
