(* ===== verification/Run_Outcome.thy ===== *)
theory Run_Outcome
  imports Prelude
begin

text \<open>
  The outcome of code that talks to devices: a value, an exception with its text, or \<open>Undefined\<close>, which marks what C++ leaves undefined (an
  access outside an object, an uninitialised value, a conversion out of range, a signed overflow).
\<close>

datatype RunError = Thrown string | Undefined string

type_synonym 'a run = "RunError + 'a"

definition run_bind :: "'a run \<Rightarrow> ('a \<Rightarrow> 'b run) \<Rightarrow> 'b run" where
  "run_bind m f = (case m of Inl e \<Rightarrow> Inl e | Inr x \<Rightarrow> f x)"

definition defined :: "'a run \<Rightarrow> bool" where
  "defined r \<longleftrightarrow> (\<forall>u. r \<noteq> Inl (Undefined u))"

lemma defined_simps [simp]: "defined (Inr x)" "defined (Inl (Thrown e))" "\<not> defined (Inl (Undefined u))"
  by (simp_all add: defined_def)

lemma defined_bind: "defined m \<Longrightarrow> (\<And>x. m = Inr x \<Longrightarrow> defined (f x)) \<Longrightarrow> defined (run_bind m f)"
  by (cases m) (auto simp: run_bind_def defined_def)

lemma run_bind_Inr_iff: "run_bind m f = Inr y \<longleftrightarrow> (\<exists>x. m = Inr x \<and> f x = Inr y)"
  by (cases m) (simp_all add: run_bind_def)

end
