(* ===== verification/Ethosu_Executor.thy ===== *)
theory Ethosu_Executor
  imports Ethosu_Bundle Run_Outcome "HOL-Library.Multiset"
begin

text \<open>
  The Ethos-U executor and the simulated NPU: the rest of \<^verbatim>\<open>src/ethosu_u85_drm_executor.cpp\<close> and \<^verbatim>\<open>include/npu_device.h\<close>.  The
  kernel's DRM interface is the argument \<open>d\<close>: what each ioctl answers and what a job leaves in the mapped regions.  An
  \<open>Undefined\<close> result marks what C++ leaves undefined: an access outside a mapping or the handle array, a conversion out of range, a
  signed overflow.
\<close>

section \<open>The device\<close>

record Drm =
  drm_env :: "string option"
  drm_access :: "string \<Rightarrow> bool"
  drm_open :: "string \<Rightarrow> int"
  drm_query :: "int \<Rightarrow> bool"
  drm_bo_create :: "nat \<Rightarrow> nat \<Rightarrow> u32 res"
  drm_mmap_offset :: "u32 \<Rightarrow> unit res"
  drm_mmap :: "u32 \<Rightarrow> unit res"
  drm_cmdstream_create :: "bytes \<Rightarrow> u32 res"
  drm_submit :: "u32 \<Rightarrow> u32 \<Rightarrow> u32 list \<Rightarrow> unit res"
  drm_clock :: "(int \<times> int) option"
  drm_wait :: "u32 \<Rightarrow> int \<Rightarrow> unit res"
  drm_job :: "bytes \<Rightarrow> u32 \<Rightarrow> bytes list \<Rightarrow> bytes list"

definition ioctl_check :: "string \<Rightarrow> 'a res \<Rightarrow> 'a run" where
  "ioctl_check msg r = (case r of Inl e \<Rightarrow> Inl (Thrown (msg @ e)) | Inr x \<Rightarrow> Inr x)"

definition find_device :: "Drm \<Rightarrow> string \<Rightarrow> string" where
  "find_device d requested =
     (if requested \<noteq> [] then requested
      else case drm_env d of
        Some env \<Rightarrow> if env \<noteq> [] then env
          else (case find (drm_access d) (map (\<lambda>i. ''/dev/dri/renderD'' @ to_string i) [128..<256]) of Some p \<Rightarrow> p | None \<Rightarrow> [])
      | None \<Rightarrow> (case find (drm_access d) (map (\<lambda>i. ''/dev/dri/renderD'' @ to_string i) [128..<256]) of Some p \<Rightarrow> p | None \<Rightarrow> []))"

definition open_ethosu :: "Drm \<Rightarrow> string \<Rightarrow> int" where
  "open_ethosu d path =
     (if path = [] then -1
      else let fd = drm_open d path in
        if fd < 0 then -1
        else if \<not> drm_query d fd then -1
        else fd)"

record Executor =
  ex_bundle :: Bundle
  ex_path :: string
  ex_fd :: int

definition EthosU85DrmExecutor_init :: "Drm \<Rightarrow> bytes option \<Rightarrow> string \<Rightarrow> string \<Rightarrow> Executor res" where
  "EthosU85DrmExecutor_init d contents bundle_path device =
     res_bind (load_bundle contents bundle_path) (\<lambda>bundle.
     let path = find_device d device in
     Inr \<lparr> ex_bundle = bundle, ex_path = path, ex_fd = open_ethosu d path \<rparr>)"

definition ethosu_available :: "Executor \<Rightarrow> bool" where
  "ethosu_available ex \<longleftrightarrow> ex_fd ex \<ge> 0"

section \<open>Buffers\<close>

text \<open>The loop that creates, maps and fills one buffer object per region: how it ended, the handles created so far, the contents of the
  mappings.\<close>

fun create_regions :: "Drm \<Rightarrow> nat \<Rightarrow> bytes list \<Rightarrow> unit run \<times> u32 list \<times> bytes list" where
  "create_regions d i [] = (Inr (), [], [])"
| "create_regions d i (region # regions) =
     (case ioctl_check ''Ethos-U BO_CREATE failed: '' (drm_bo_create d i (length region)) of
        Inl e \<Rightarrow> (Inl e, [], [])
      | Inr handle \<Rightarrow>
          (case run_bind (ioctl_check ''Ethos-U DRM BO_MMAP_OFFSET failed: '' (drm_mmap_offset d handle))
                  (\<lambda>_. ioctl_check ''Ethos-U DRM mmap failed: '' (drm_mmap d handle)) of
             Inl e \<Rightarrow> (Inl e, [handle], [])
           | Inr _ \<Rightarrow>
               let (r, handles, maps) = create_regions d (i + 1) regions in (r, handle # handles, region # maps)))"

text \<open>The destructor of \<^verbatim>\<open>GemHandle\<close>.\<close>

definition close_handles :: "u32 list \<Rightarrow> u32 list" where
  "close_handles handles = filter (\<lambda>h. h \<noteq> 0) handles"

definition map_at :: "bytes list \<Rightarrow> u32 \<Rightarrow> bytes run" where
  "map_at maps i = (if unat i < length maps then Inr (maps ! unat i) else Inl (Undefined ''region index''))"

definition map_write :: "bytes \<Rightarrow> nat \<Rightarrow> u8 \<Rightarrow> bytes run" where
  "map_write m i v = (if i < length m then Inr (m[i := v]) else Inl (Undefined ''write outside a mapping''))"

definition map_read :: "bytes \<Rightarrow> nat \<Rightarrow> u8 run" where
  "map_read m i = (if i < length m then Inr (m ! i) else Inl (Undefined ''read outside a mapping''))"

section \<open>Quantisation\<close>

definition clamp_int8 :: "double \<Rightarrow> double" where
  "clamp_int8 q =
     (let lo = 0xC060000000000000; hi = 0x405FC00000000000;
          m = (if double_less q hi then q else hi) in
      if double_less lo m then m else lo)"

definition to_int8 :: "double \<Rightarrow> u8 run" where
  "to_int8 v = (let i = double_trunc v in if -128 \<le> i \<and> i \<le> 127 then Inr (word_of_int i) else Inl (Undefined ''conversion out of range''))"

definition quantize :: "(double \<Rightarrow> double \<Rightarrow> double) \<Rightarrow> Bundle \<Rightarrow> double \<Rightarrow> u8 run" where
  "quantize nan b x =
     (if \<not> double_isfinite x then Inl (Thrown ''Ethos-U input contains NaN or infinity'')
      else let q = double_add nan (double_nearbyint (double_div nan x (double_of_float (b_input_scale b)))) (double_of_int (sint (b_input_zero b)))
        in to_int8 (clamp_int8 q))"

fun write_input :: "(double \<Rightarrow> double \<Rightarrow> double) \<Rightarrow> Bundle \<Rightarrow> double list \<Rightarrow> nat \<Rightarrow> bytes \<Rightarrow> bytes run" where
  "write_input nan b [] i m = Inr m"
| "write_input nan b (x # xs) i m =
     run_bind (quantize nan b x) (\<lambda>v.
     run_bind (map_write m (unat (b_input_offset b) + i) v) (\<lambda>m. write_input nan b xs (i + 1) m))"

definition dequantize :: "Bundle \<Rightarrow> u8 \<Rightarrow> double run" where
  "dequantize b v =
     (let i = sint v - sint (b_output_zero b) in
      if i < - (2 ^ 31) \<or> 2 ^ 31 \<le> i then Inl (Undefined ''signed overflow'')
      else Inr (double_of_float (float_mul (float_of_int i) (b_output_scale b))))"

fun read_output :: "Bundle \<Rightarrow> nat \<Rightarrow> nat \<Rightarrow> bytes \<Rightarrow> double list run" where
  "read_output b i 0 m = Inr []"
| "read_output b i (Suc n) m =
     run_bind (map_read m (unat (b_output_offset b) + i)) (\<lambda>v.
     run_bind (dequantize b v) (\<lambda>x.
     run_bind (read_output b (i + 1) n m) (\<lambda>xs. Inr (x # xs))))"

section \<open>Running a model\<close>

definition kJobTimeoutNs :: int where "kJobTimeoutNs = 30 * 1000 * 1000 * 1000"

text \<open>The deadline of the wait, from \<^verbatim>\<open>tv_sec\<close> and \<^verbatim>\<open>tv_nsec\<close>, in 64-bit signed arithmetic.\<close>

definition int64_ok :: "int \<Rightarrow> bool" where
  "int64_ok i \<longleftrightarrow> - (2 ^ 63) \<le> i \<and> i < 2 ^ 63"

definition int64 :: "int \<Rightarrow> int run" where
  "int64 i = (if int64_ok i then Inr i else Inl (Undefined ''signed overflow''))"

definition job_deadline :: "int \<times> int \<Rightarrow> int run" where
  "job_deadline now =
     (case now of (tv_sec, tv_nsec) \<Rightarrow>
      run_bind (int64 (tv_sec * 1000000000)) (\<lambda>ns. run_bind (int64 (ns + tv_nsec)) (\<lambda>ns. int64 (ns + kJobTimeoutNs))))"

text \<open>From the filled input to the output, given the handles of the regions; also the handle of the command stream, if it was created.\<close>

definition submit_job :: "Drm \<Rightarrow> Bundle \<Rightarrow> u32 list \<Rightarrow> bytes list \<Rightarrow> double list run \<times> u32 list" where
  "submit_job d b handles maps =
     (case ioctl_check ''Ethos-U CMDSTREAM_BO_CREATE failed: '' (drm_cmdstream_create d (b_command_stream b)) of
        Inl e \<Rightarrow> (Inl e, [])
      | Inr command_handle \<Rightarrow>
          (if length handles > 8 then Inl (Undefined ''region handle array'')
           else
           run_bind (ioctl_check ''Ethos-U SUBMIT failed: '' (drm_submit d command_handle (b_sram_size b) handles)) (\<lambda>_.
           case drm_clock d of
             None \<Rightarrow> Inl (Thrown ''clock_gettime failed while waiting for Ethos-U job'')
           | Some now \<Rightarrow>
               run_bind (job_deadline now) (\<lambda>deadline.
               if unat (b_output_region b) \<ge> length handles then Inl (Undefined ''region index'')
               else
               run_bind (ioctl_check ''Ethos-U BO_WAIT failed: '' (drm_wait d (handles ! unat (b_output_region b)) deadline)) (\<lambda>_.
               let maps = drm_job d (b_command_stream b) (b_sram_size b) maps in
               run_bind (map_at maps (b_output_region b)) (\<lambda>m.
               read_output b 0 (unat (b_output_elements b)) m)))),
           [command_handle]))"

text \<open>The result of \<^verbatim>\<open>run\<close>, the handles it created and the handles it closed.\<close>

definition ethosu_run :: "Drm \<Rightarrow> (double \<Rightarrow> double \<Rightarrow> double) \<Rightarrow> Executor \<Rightarrow> double list \<Rightarrow> double list run \<times> u32 list \<times> u32 list" where
  "ethosu_run d nan ex input =
     (let b = ex_bundle ex in
      if ex_fd ex < 0 then (Inl (Thrown ''mainline Ethos-U DRM device is unavailable''), [], [])
      else if length input \<noteq> unat (b_input_elements b)
      then (Inl (Thrown ''input element count does not match Ethos-U bundle''), [], [])
      else
        let (r, handles, maps) = create_regions d 0 (b_regions b) in
        case r of
          Inl e \<Rightarrow> (Inl e, handles, close_handles handles)
        | Inr _ \<Rightarrow>
            (case run_bind (map_at maps (b_input_region b)) (\<lambda>m. write_input nan b input 0 m) of
               Inl e \<Rightarrow> (Inl e, handles, close_handles handles)
             | Inr m \<Rightarrow>
                 let (r, command) = submit_job d b handles (maps[unat (b_input_region b) := m]) in
                 (r, handles @ command, close_handles command @ close_handles handles)))"

section \<open>The simulated NPU\<close>

record NpuDevice =
  npu_name :: string
  npu_model :: string
  npu_is_simulated :: bool
  npu_is_available :: bool

definition NpuDevice_default :: NpuDevice where
  "NpuDevice_default = \<lparr> npu_name = ''simulated-npu'', npu_model = ''simulated'', npu_is_simulated = True, npu_is_available = True \<rparr>"

definition SimulatedNpuExecutor_run :: "(double \<Rightarrow> double) \<Rightarrow> double list \<Rightarrow> double list" where
  "SimulatedNpuExecutor_run nan input = map (double_mul3 nan) input"

section \<open>Nothing undefined\<close>

lemma defined_ioctl [simp]: "defined (ioctl_check msg r)"
  by (cases r) (simp_all add: ioctl_check_def)

lemma clamp_bounds: "-128 * 2 ^ 1074 \<le> double_value (clamp_int8 q) \<and> double_value (clamp_int8 q) \<le> 127 * 2 ^ 1074"
proof -
  have hi: "double_value 0x405FC00000000000 = 127 * 2 ^ 1074"
    by (simp add: double_value_def double_sign_def double_magnitude_def double_exponent_def double_mantissa_def)
  have lo: "double_value 0xC060000000000000 = -128 * 2 ^ 1074"
    by (simp add: double_value_def double_sign_def double_magnitude_def double_exponent_def double_mantissa_def)
  show ?thesis unfolding clamp_int8_def Let_def double_less_def using hi lo by auto
qed

lemma to_int8_clamp: "\<exists>v. to_int8 (clamp_int8 q) = Inr v"
proof -
  let ?c = "clamp_int8 q" and ?u = "2 ^ 1074 :: nat"
  have "-128 \<le> double_trunc ?c \<and> double_trunc ?c \<le> 127"
  proof (cases "double_sign ?c = 0")
    case True
    then have "int (double_magnitude ?c) \<le> int (127 * ?u)" using clamp_bounds [of q] by (simp add: double_value_def)
    then have "double_magnitude ?c div ?u \<le> 127 * ?u div ?u" unfolding of_nat_le_iff by (rule div_le_mono)
    then show ?thesis using True by (simp add: double_trunc_def)
  next
    case False
    then have "int (double_magnitude ?c) \<le> int (128 * ?u)" using clamp_bounds [of q] by (simp add: double_value_def)
    then have "double_magnitude ?c div ?u \<le> 128 * ?u div ?u" unfolding of_nat_le_iff by (rule div_le_mono)
    then show ?thesis using False by (simp add: double_trunc_def)
  qed
  then show ?thesis by (simp add: to_int8_def Let_def)
qed

lemma defined_quantize: "defined (quantize nan b x)"
  using to_int8_clamp by (auto simp: quantize_def Let_def) (metis defined_simps(1))

lemma write_input_ok:
  assumes "unat (b_input_offset b) + i + length xs \<le> length m"
  shows "defined (write_input nan b xs i m) \<and> (\<forall>m'. write_input nan b xs i m = Inr m' \<longrightarrow> length m' = length m)"
  using assms
proof (induction xs arbitrary: i m)
  case (Cons x xs)
  have w: "map_write m (unat (b_input_offset b) + i) v = Inr (m[unat (b_input_offset b) + i := v])" for v
    using Cons.prems by (simp add: map_write_def)
  have len: "unat (b_input_offset b) + (i + 1) + length xs \<le> length (m[k := v])" for k v using Cons.prems by simp
  show ?case
    using Cons.IH [OF len] defined_quantize
    by (auto simp: run_bind_Inr_iff w intro!: defined_bind)
qed simp

lemma create_regions_ok:
  "create_regions d i rs = (r, handles, maps) \<Longrightarrow> defined r \<and> (r = Inr () \<longrightarrow> length handles = length rs \<and> maps = rs)"
proof (induction rs arbitrary: i r handles maps)
  case (Cons x rs)
  let ?c = "ioctl_check ''Ethos-U BO_CREATE failed: '' (drm_bo_create d i (length x))"
  show ?case
  proof (cases ?c)
    case (Inl e)
    with Cons.prems show ?thesis by (auto simp: defined_def dest: defined_ioctl [unfolded defined_def, rule_format, THEN notE])
  next
    case (Inr h)
    let ?m = "run_bind (ioctl_check ''Ethos-U DRM BO_MMAP_OFFSET failed: '' (drm_mmap_offset d h)) (\<lambda>_. ioctl_check ''Ethos-U DRM mmap failed: '' (drm_mmap d h))"
    have dm: "defined ?m" by (intro defined_bind) simp_all
    obtain r2 hs ms where rec: "create_regions d (i + 1) rs = (r2, hs, ms)" by (metis prod_cases3)
    show ?thesis
    proof (cases ?m)
      case (Inl e)
      with Cons.prems Inr dm show ?thesis by auto
    next
      case (Inr u)
      with Cons.prems \<open>?c = Inr h\<close> rec Cons.IH [OF rec] show ?thesis by auto
    qed
  qed
qed simp

text \<open>The documented range of the zero points keeps the subtraction within \<^verbatim>\<open>int\<close>.\<close>

lemma dequantize_ok:
  assumes "-128 \<le> sint (b_output_zero b)" "sint (b_output_zero b) \<le> 127"
  shows "\<exists>x. dequantize b v = Inr x"
proof -
  have "-128 \<le> sint v" "sint v \<le> 127" using sint_ge [of v] sint_lt [of v] by simp_all
  with assms show ?thesis by (auto simp: dequantize_def Let_def)
qed

lemma read_output_ok:
  assumes "unat (b_output_offset b) + i + n \<le> length m" "-128 \<le> sint (b_output_zero b)" "sint (b_output_zero b) \<le> 127"
  shows "\<exists>xs. read_output b i n m = Inr xs \<and> length xs = n"
  using assms(1)
proof (induction n arbitrary: i)
  case (Suc n)
  have "map_read m (unat (b_output_offset b) + i) = Inr (m ! (unat (b_output_offset b) + i))" using Suc.prems by (simp add: map_read_def)
  moreover obtain x where "dequantize b (m ! (unat (b_output_offset b) + i)) = Inr x" using dequantize_ok [OF assms(2,3)] by blast
  moreover obtain xs where "read_output b (i + 1) n m = Inr xs" "length xs = n" using Suc.IH [of "i + 1"] Suc.prems by auto
  ultimately show ?case by (simp add: run_bind_def)
qed simp

text \<open>A job does not change the sizes of the mappings.\<close>

definition job_keeps_sizes :: "Drm \<Rightarrow> bool" where
  "job_keeps_sizes d \<longleftrightarrow> (\<forall>cs sram maps. map length (drm_job d cs sram maps) = map length maps)"

text \<open>The monotonic clock counts from a point in the past that is less than 285 years ago, and its nanoseconds are a fraction of a second.\<close>

definition clock_ok :: "Drm \<Rightarrow> bool" where
  "clock_ok d \<longleftrightarrow> (case drm_clock d of None \<Rightarrow> True | Some (tv_sec, tv_nsec) \<Rightarrow> 0 \<le> tv_sec \<and> tv_sec < 9 * 10 ^ 9 \<and> 0 \<le> tv_nsec \<and> tv_nsec < 10 ^ 9)"

lemma job_deadline_defined: "clock_ok d \<Longrightarrow> drm_clock d = Some now \<Longrightarrow> defined (job_deadline now)"
  by (auto simp: clock_ok_def job_deadline_def int64_def int64_ok_def kJobTimeoutNs_def run_bind_def split: prod.splits)

text \<open>Without this the sum overflows.\<close>

lemma job_deadline_overflow: "job_deadline (2 ^ 34, 0) = Inl (Undefined ''signed overflow'')"
  by (simp add: job_deadline_def int64_def int64_ok_def run_bind_def)

lemma submit_job_ok:
  assumes "bundle_ok b" "-128 \<le> sint (b_output_zero b)" "sint (b_output_zero b) \<le> 127" "job_keeps_sizes d" "clock_ok d"
    "length handles = length (b_regions b)" "map length maps = map length (b_regions b)" "submit_job d b handles maps = (r, c)"
  shows "defined r \<and> (\<forall>xs. r = Inr xs \<longrightarrow> length xs = unat (b_output_elements b))"
proof -
  let ?o = "unat (b_output_region b)" and ?n = "unat (b_output_elements b)"
  let ?maps = "drm_job d (b_command_stream b) (b_sram_size b) maps"
  have len: "length handles \<le> 8" "?o < length handles" using assms(1,6) by (simp_all add: bundle_ok_def kMaxRegions_def)
  have sz: "map length ?maps = map length (b_regions b)" using assms(4,7) by (simp add: job_keeps_sizes_def)
  then have o: "?o < length ?maps" using len(2) assms(6) by (metis length_map)
  then have "length (?maps ! ?o) = length (b_regions b ! ?o)" using sz by (metis length_map nth_map)
  then have "unat (b_output_offset b) + 0 + ?n \<le> length (?maps ! ?o)" using assms(1) by (simp add: bundle_ok_def)
  from read_output_ok [OF this assms(2,3)] obtain xs where ro: "read_output b 0 ?n (?maps ! ?o) = Inr xs" "length xs = ?n" by blast
  show ?thesis
  proof (cases "ioctl_check ''Ethos-U CMDSTREAM_BO_CREATE failed: '' (drm_cmdstream_create d (b_command_stream b))")
    case (Inl e)
    then have "defined (Inl e :: double list run)"
      using defined_ioctl [of "''Ethos-U CMDSTREAM_BO_CREATE failed: ''" "drm_cmdstream_create d (b_command_stream b)"] by (auto simp: defined_def)
    with Inl assms(8) show ?thesis by (auto simp: submit_job_def)
  next
    case (Inr h)
    with assms(8) len o ro job_deadline_defined [OF assms(5)] show ?thesis
      by (auto simp: submit_job_def map_at_def run_bind_Inr_iff Let_def intro!: defined_bind split: option.splits)
  qed
qed

lemma ethosu_run_ok:
  assumes "bundle_ok (ex_bundle ex)" "-128 \<le> sint (b_output_zero (ex_bundle ex))" "sint (b_output_zero (ex_bundle ex)) \<le> 127"
    "job_keeps_sizes d" "clock_ok d" "ethosu_run d nan ex input = (r, created, closed)"
  shows "defined r \<and> (\<forall>xs. r = Inr xs \<longrightarrow> length xs = unat (b_output_elements (ex_bundle ex))) \<and>
    mset closed = filter_mset (\<lambda>h. h \<noteq> 0) (mset created)"
proof -
  let ?b = "ex_bundle ex" and ?i = "unat (b_input_region (ex_bundle ex))"
  obtain r1 handles maps where c: "create_regions d 0 (b_regions ?b) = (r1, handles, maps)" by (metis prod_cases3)
  note c_ok = create_regions_ok [OF c]
  show ?thesis
  proof (cases "ex_fd ex < 0 \<or> length input \<noteq> unat (b_input_elements ?b)")
    case True
    with assms(6) show ?thesis by (auto simp: ethosu_run_def Let_def split: if_splits)
  next
    case ready: False
    show ?thesis
    proof (cases r1)
      case (Inl e)
      with ready c c_ok assms(6) show ?thesis by (auto simp: ethosu_run_def Let_def close_handles_def defined_def)
    next
      case (Inr u)
      then have maps: "maps = b_regions ?b" "length handles = length (b_regions ?b)" using c_ok by simp_all
      have i: "?i < length maps" using maps assms(1) by (simp add: bundle_ok_def)
      have "unat (b_input_offset ?b) + 0 + length input \<le> length (maps ! ?i)"
        using ready maps assms(1) by (simp add: bundle_ok_def)
      note w = write_input_ok [OF this, of nan]
      let ?w = "run_bind (map_at maps (b_input_region ?b)) (\<lambda>m. write_input nan ?b input 0 m)"
      have weq: "?w = write_input nan ?b input 0 (maps ! ?i)" using i by (simp add: map_at_def run_bind_def)
      show ?thesis
      proof (cases ?w)
        case (Inl e)
        then have we: "write_input nan ?b input 0 (maps ! ?i) = Inl e" using weq by simp
        then have "ethosu_run d nan ex input = (Inl e, handles, close_handles handles)"
          using ready c weq \<open>r1 = Inr u\<close> by (simp add: ethosu_run_def Let_def)
        with w we assms(6) show ?thesis by (auto simp: close_handles_def defined_def)
      next
        case (Inr m)
        obtain r2 cmd where s: "submit_job d ?b handles (maps[?i := m]) = (r2, cmd)" by fastforce
        have "length m = length (maps ! ?i)" using w weq Inr by simp
        then have "map length (maps[?i := m]) = map length (b_regions ?b)" using maps(1) i
          by (simp add: list_eq_iff_nth_eq nth_list_update)
        from submit_job_ok [OF assms(1-5) maps(2) this s] ready c Inr s \<open>r1 = Inr u\<close> assms(6) show ?thesis
          by (auto simp: ethosu_run_def Let_def close_handles_def)
      qed
    qed
  qed
qed

text \<open>The simulated NPU rounds three times the input to a nearest double.\<close>

lemma simulated_npu_nearest:
  assumes "i < length xs" "double_isfinite (xs ! i)" "double_isfinite (SimulatedNpuExecutor_run nan xs ! i)" "double_isfinite w"
  shows "\<bar>int (double_magnitude (SimulatedNpuExecutor_run nan xs ! i)) - int (3 * double_magnitude (xs ! i))\<bar>
    \<le> \<bar>int (double_magnitude w) - int (3 * double_magnitude (xs ! i))\<bar>"
proof -
  have "SimulatedNpuExecutor_run nan xs ! i = round_double (double_sign (xs ! i)) (3 * double_magnitude (xs ! i)) 1"
    using assms(1,2) by (simp add: SimulatedNpuExecutor_run_def double_mul3_def double_isnan_def double_isfinite_def)
  with round_double_nearest [of "double_sign (xs ! i)" 1 "3 * double_magnitude (xs ! i)" w] double_fields_less(1) [of "xs ! i"] assms(3,4)
  show ?thesis by simp
qed

text \<open>The loader does not check the zero points: this bundle is accepted, and the subtraction overflows on every non-negative output byte.\<close>

lemma ethosu_zero_point_overflow:
  "\<exists>b. load_bundle (Some (bundle_bytes b)) path = Inr b \<and> dequantize b 0 = Inl (Undefined ''signed overflow'')"
proof -
  let ?b = "sample_bundle \<lparr> b_output_zero := 0x80000000 \<rparr>"
  have "bundle_ok ?b" using sample_bundle_ok by (simp add: bundle_ok_def)
  moreover have "dequantize ?b 0 = Inl (Undefined ''signed overflow'')" by (simp add: dequantize_def)
  ultimately show ?thesis unfolding load_bundle_iff by blast
qed

section \<open>Properties\<close>

text \<open>C17. An executor built from any bundle the loader accepts runs without undefined behaviour on every input, when the output zero point is in
  the documented range, a job leaves the sizes of the mappings alone and the monotonic clock is below 285 years: no access outside a mapping or the
  handle array, no conversion out of range, no signed overflow, neither of an output element nor of the deadline.  A successful run returns as many elements as the bundle says, and every run, also one that ends with an
  exception, closes exactly the buffer objects it created.\<close>

theorem ethosu_run_safe:
  assumes "EthosU85DrmExecutor_init d contents bundle_path device = Inr ex" "job_keeps_sizes d" "clock_ok d"
    "-128 \<le> sint (b_output_zero (ex_bundle ex))" "sint (b_output_zero (ex_bundle ex)) \<le> 127"
    "ethosu_run d nan ex input = (r, created, closed)"
  shows "(\<forall>u. r \<noteq> Inl (Undefined u)) \<and> (\<forall>xs. r = Inr xs \<longrightarrow> length xs = unat (b_output_elements (ex_bundle ex))) \<and>
    mset closed = filter_mset (\<lambda>h. h \<noteq> 0) (mset created)"
proof -
  have "bundle_ok (ex_bundle ex)" using assms(1) by (auto simp: EthosU85DrmExecutor_init_def load_bundle_iff Let_def)
  from ethosu_run_ok [OF this assms(4,5,2,3,6)] show ?thesis by (simp add: defined_def)
qed

definition sample_drm :: Drm where
  "sample_drm = \<lparr> drm_env = None, drm_access = (\<lambda>p. True), drm_open = (\<lambda>p. 3), drm_query = (\<lambda>fd. True),
     drm_bo_create = (\<lambda>i n. Inr (word_of_nat (i + 1))), drm_mmap_offset = (\<lambda>h. Inr ()), drm_mmap = (\<lambda>h. Inr ()),
     drm_cmdstream_create = (\<lambda>cs. Inr 9), drm_submit = (\<lambda>c s hs. Inr ()), drm_clock = Some (5, 7), drm_wait = (\<lambda>h t. if t = 35000000007 then Inr () else Inl ''timeout''),
     drm_job = (\<lambda>cs s maps. maps) \<rparr>"

theorem ethosu_run_safe_witness:
  "\<exists>ex r created closed. EthosU85DrmExecutor_init sample_drm (Some (bundle_bytes sample_bundle)) ''b'' ''/dev/dri/renderD128'' = Inr ex \<and>
     job_keeps_sizes sample_drm \<and> clock_ok sample_drm \<and> -128 \<le> sint (b_output_zero (ex_bundle ex)) \<and> sint (b_output_zero (ex_bundle ex)) \<le> 127 \<and>
     ethosu_run sample_drm (\<lambda>x y. x) ex [0, 0] = (r, created, closed) \<and> (\<forall>u. r \<noteq> Inl (Undefined u)) \<and>
     mset closed = filter_mset (\<lambda>h. h \<noteq> 0) (mset created)"
proof -
  have "load_bundle (Some (bundle_bytes sample_bundle)) ''b'' = Inr sample_bundle" by (simp add: load_bundle_iff sample_bundle_ok)
  then obtain ex where ex: "EthosU85DrmExecutor_init sample_drm (Some (bundle_bytes sample_bundle)) ''b'' ''/dev/dri/renderD128'' = Inr ex"
      "ex_bundle ex = sample_bundle" by (simp add: EthosU85DrmExecutor_init_def Let_def)
  obtain r created closed where run: "ethosu_run sample_drm (\<lambda>x y. x) ex [0, 0] = (r, created, closed)" by (metis prod_cases3)
  have "job_keeps_sizes sample_drm" "clock_ok sample_drm" by (simp_all add: job_keeps_sizes_def clock_ok_def sample_drm_def)
  moreover have "-128 \<le> sint (b_output_zero (ex_bundle ex))" "sint (b_output_zero (ex_bundle ex)) \<le> 127"
    using ex(2) by (simp_all add: sample_bundle_def)
  ultimately show ?thesis using ethosu_run_safe [OF ex(1) _ _ _ _ run] ex(1) run by blast
qed

end
