(* ===== verification/Std_Numbers.thy ===== *)
theory Std_Numbers
  imports Prelude
begin

text \<open>
  The number conversions of the C++ library that the two \<^verbatim>\<open>main\<close> functions call.  Both throw on a text without digits and on a value out of range;
  the exception is the name of the function.
\<close>

text \<open>\<^verbatim>\<open>std::stoi\<close> and \<^verbatim>\<open>std::stoull\<close>: white space, a sign, the longest run of digits; the rest is ignored.\<close>

definition is_space :: "char \<Rightarrow> bool" where
  "is_space c \<longleftrightarrow> (of_char c :: nat) \<in> {32, 9, 10, 11, 12, 13}"

definition is_digit :: "char \<Rightarrow> bool" where
  "is_digit c \<longleftrightarrow> 48 \<le> (of_char c :: nat) \<and> (of_char c :: nat) \<le> 57"

text \<open>Whether the number is negative, and its digits.\<close>

definition scan_number :: "string \<Rightarrow> bool \<times> string" where
  "scan_number s =
     (let s = dropWhile is_space s in
      case s of
        [] \<Rightarrow> (False, [])
      | c # r \<Rightarrow>
          if c = CHR ''-'' then (True, takeWhile is_digit r)
          else if c = CHR ''+'' then (False, takeWhile is_digit r)
          else (False, takeWhile is_digit s))"

definition stoi :: "string \<Rightarrow> int res" where
  "stoi s =
     (let (neg, ds) = scan_number s;
          v = (if neg then - int (digits_value ds) else int (digits_value ds)) in
      if ds = [] then Inl ''stoi''
      else if v < - (2 ^ 31) \<or> 2 ^ 31 \<le> v then Inl ''stoi''
      else Inr v)"

definition stoull :: "string \<Rightarrow> nat res" where
  "stoull s =
     (let (neg, ds) = scan_number s; n = digits_value ds in
      if ds = [] then Inl ''stoull''
      else if 2 ^ 64 \<le> n then Inl ''stoull''
      else Inr (if neg then (2 ^ 64 - n) mod 2 ^ 64 else n))"

lemma to_string_scan: "scan_number (to_string n) = (False, to_string n)"
proof -
  have d: "\<forall>c \<in> set (to_string n). is_digit c" using to_string_digits by (auto simp: is_digit_def)
  obtain c r where cr: "to_string n = c # r" by (cases "to_string n") (auto simp: to_string.simps [of n] split: if_splits)
  with d have "is_digit c" by simp
  then have "\<not> is_space c" "c \<noteq> CHR ''-''" "c \<noteq> CHR ''+''" by (auto simp: is_digit_def is_space_def)
  moreover have "takeWhile is_digit (to_string n) = to_string n" using d by (simp add: takeWhile_eq_all_conv)
  ultimately show ?thesis using cr by (simp add: scan_number_def Let_def)
qed

lemma to_string_not_Nil: "to_string n \<noteq> []"
  by (simp add: to_string.simps [of n])

lemma stoi_to_string: "n < 2 ^ 31 \<Longrightarrow> stoi (to_string n) = Inr (int n)"
  by (simp add: stoi_def to_string_scan to_string_not_Nil digits_value_to_string)

lemma stoull_to_string: "n < 2 ^ 64 \<Longrightarrow> stoull (to_string n) = Inr n"
  by (simp add: stoull_def to_string_scan to_string_not_Nil digits_value_to_string)

lemma stoi_flag: "stoi (CHR ''-'' # CHR ''-'' # r) = Inl ''stoi''"
proof -
  have "\<not> is_space CHR ''-''" "\<not> is_digit CHR ''-''" by code_simp+
  then show ?thesis by (simp add: stoi_def scan_number_def)
qed

end
