(* ===== verification/Broker_Main.thy ===== *)
theory Broker_Main
  imports Broker_Server Ethosu_Executor Std_Numbers
begin

text \<open>
  The command line of the broker: \<^verbatim>\<open>src/broker_server_main.cpp\<close>.  The arguments after the program name are a list of
  strings; \<open>Terminate\<close> is an exception that leaves \<^verbatim>\<open>main\<close>, which happens for numbers because the loop is outside the
  \<^verbatim>\<open>try\<close> block.  The environment \<open>e\<close> holds what lies outside the program: the DRM device, the files, the CUDA
  runtime, and the NaNs of the arithmetic.
\<close>

section \<open>Arguments\<close>

record MainEnv =
  me_drm :: Drm
  me_read_file :: "string \<Rightarrow> bytes option"
  me_cuda :: "CudaRuntime option"
  me_nan :: "double \<Rightarrow> double \<Rightarrow> double"
  me_nan1 :: "double \<Rightarrow> double"
  me_has_ethosu :: bool

record Args =
  ar_config :: BrokerServerConfig
  ar_ethosu_bundle :: string
  ar_ethosu_device :: string

definition Args_default :: Args where
  "Args_default = \<lparr> ar_config = BrokerServerConfig_default, ar_ethosu_bundle = [], ar_ethosu_device = [] \<rparr>"

datatype MainOutcome = Exit int | Terminate string | Serve BrokerServerConfig BrokerService

definition upd_service :: "(BrokerServiceConfig \<Rightarrow> BrokerServiceConfig) \<Rightarrow> Args \<Rightarrow> Args" where
  "upd_service f a = a \<lparr> ar_config := (ar_config a) \<lparr> sc_service_config := f (sc_service_config (ar_config a)) \<rparr> \<rparr>"

definition SimulatedNpuExecutor :: "MainEnv \<Rightarrow> NpuExecutor" where
  "SimulatedNpuExecutor e = \<lparr> npu_executor_available = True, npu_run = (\<lambda>xs. Inr (SimulatedNpuExecutor_run (me_nan1 e) xs)) \<rparr>"

definition backend_of_name :: "string \<Rightarrow> BackendKind option" where
  "backend_of_name v = (if v = ''cpu'' then Some Cpu else if v = ''gpu'' then Some Gpu else if v = ''npu'' then Some Npu else None)"

fun parse_args :: "MainEnv \<Rightarrow> string list \<Rightarrow> Args \<Rightarrow> MainOutcome + Args" where
  "parse_args e [] a = Inr a"
| "parse_args e (arg # rest) a =
     (if arg = ''--cpu-only'' then parse_args e rest (upd_service (\<lambda>c. c \<lparr> cf_force_cpu_fallback := True \<rparr>) a)
      else if arg = ''--default-backend'' \<and> rest \<noteq> [] then
        (case backend_of_name (hd rest) of
           Some k \<Rightarrow> parse_args e (tl rest) (upd_service (\<lambda>c. c \<lparr> cf_default_backend := k \<rparr>) a)
         | None \<Rightarrow> Inl (Exit 1))
      else if arg = ''--gpu-offload-threshold'' \<and> rest \<noteq> [] then
        (case stoull (hd rest) of
           Inr n \<Rightarrow> parse_args e (tl rest) (upd_service (\<lambda>c. c \<lparr> cf_gpu_offload_threshold_bytes := n \<rparr>) a)
         | Inl x \<Rightarrow> Inl (Terminate x))
      else if arg = ''--npu-enabled'' then parse_args e rest (upd_service (\<lambda>c. c \<lparr> cf_npu_enabled := True \<rparr>) a)
      else if arg = ''--npu-ethosu-bundle'' \<and> rest \<noteq> [] then parse_args e (tl rest) (a \<lparr> ar_ethosu_bundle := hd rest \<rparr>)
      else if arg = ''--ethosu-device'' \<and> rest \<noteq> [] then parse_args e (tl rest) (a \<lparr> ar_ethosu_device := hd rest \<rparr>)
      else if arg = ''--npu-simulated'' then
        parse_args e rest (upd_service (\<lambda>c. c \<lparr> cf_npu_enabled := True, cf_npu_executor := Some (SimulatedNpuExecutor e) \<rparr>) a)
      else
        (case stoi arg of
           Inr p \<Rightarrow> parse_args e rest (a \<lparr> ar_config := (ar_config a) \<lparr> sc_port := p \<rparr> \<rparr>)
         | Inl x \<Rightarrow> Inl (Terminate x)))"

declare parse_args.simps(2) [simp del]

section \<open>The program\<close>

text \<open>
  The executor as the service sees it.  Undefined behaviour of a run has no counterpart there and is shown as an error; for bundles with zero
  points in the documented range there is none.
\<close>

definition ethosu_executor :: "MainEnv \<Rightarrow> Executor \<Rightarrow> NpuExecutor" where
  "ethosu_executor e ex = \<lparr> npu_executor_available = ethosu_available ex,
     npu_run = (\<lambda>xs. case fst (ethosu_run (me_drm e) (me_nan e) ex xs) of
        Inr ys \<Rightarrow> Inr ys | Inl (Thrown x) \<Rightarrow> Inl x | Inl (Undefined x) \<Rightarrow> Inl x) \<rparr>"

text \<open>From the parsed arguments to the executor.\<close>

definition main_executor :: "MainEnv \<Rightarrow> Args \<Rightarrow> MainOutcome + Args" where
  "main_executor e a =
     (if ar_ethosu_device a \<noteq> [] \<and> ar_ethosu_bundle a = [] then Inl (Exit 1)
      else if ar_ethosu_bundle a = [] then Inr a
      else if \<not> me_has_ethosu e then Inl (Exit 1)
      else case EthosU85DrmExecutor_init (me_drm e) (me_read_file e (ar_ethosu_bundle a)) (ar_ethosu_bundle a) (ar_ethosu_device a) of
        Inl x \<Rightarrow> Inl (Terminate x)
      | Inr ex \<Rightarrow>
          if \<not> ethosu_available ex then Inl (Exit 1)
          else Inr (upd_service (\<lambda>c. c \<lparr> cf_npu_enabled := True, cf_npu_executor := Some (ethosu_executor e ex) \<rparr>) a))"

text \<open>The last part, with the constructor inside \<^verbatim>\<open>try\<close>; \<open>Serve\<close> is the call of \<^verbatim>\<open>server->run()\<close>.\<close>

definition main_start :: "MainEnv \<Rightarrow> Args \<Rightarrow> MainOutcome" where
  "main_start e a =
     (case main_executor e a of
        Inl out \<Rightarrow> out
      | Inr a \<Rightarrow>
          (case BrokerServer_init (ar_config a) (me_cuda e) of
             Inl x \<Rightarrow> Exit 1
           | Inr service \<Rightarrow> Serve (ar_config a) service))"

definition broker_main :: "MainEnv \<Rightarrow> string list \<Rightarrow> MainOutcome" where
  "broker_main e args =
     (if args \<noteq> [] \<and> hd args = ''--help'' then Exit 0
      else case parse_args e args Args_default of
        Inl out \<Rightarrow> out
      | Inr a \<Rightarrow> main_start e a)"

section \<open>Options\<close>

text \<open>The options of the usage text, what they mean and how they are written.\<close>

datatype Opt = CpuOnly | DefaultBackend BackendKind | Threshold nat | NpuEnabled | EthosuBundle string | EthosuDevice string | NpuSimulated | Port nat

fun opt_args :: "Opt \<Rightarrow> string list" where
  "opt_args CpuOnly = [''--cpu-only'']"
| "opt_args (DefaultBackend k) = [''--default-backend'', backend_name k]"
| "opt_args (Threshold n) = [''--gpu-offload-threshold'', to_string n]"
| "opt_args NpuEnabled = [''--npu-enabled'']"
| "opt_args (EthosuBundle f) = [''--npu-ethosu-bundle'', f]"
| "opt_args (EthosuDevice f) = [''--ethosu-device'', f]"
| "opt_args NpuSimulated = [''--npu-simulated'']"
| "opt_args (Port p) = [to_string p]"

fun opt_apply :: "MainEnv \<Rightarrow> Opt \<Rightarrow> Args \<Rightarrow> Args" where
  "opt_apply e CpuOnly = upd_service (\<lambda>c. c \<lparr> cf_force_cpu_fallback := True \<rparr>)"
| "opt_apply e (DefaultBackend k) = upd_service (\<lambda>c. c \<lparr> cf_default_backend := k \<rparr>)"
| "opt_apply e (Threshold n) = upd_service (\<lambda>c. c \<lparr> cf_gpu_offload_threshold_bytes := n \<rparr>)"
| "opt_apply e NpuEnabled = upd_service (\<lambda>c. c \<lparr> cf_npu_enabled := True \<rparr>)"
| "opt_apply e (EthosuBundle f) = (\<lambda>a. a \<lparr> ar_ethosu_bundle := f \<rparr>)"
| "opt_apply e (EthosuDevice f) = (\<lambda>a. a \<lparr> ar_ethosu_device := f \<rparr>)"
| "opt_apply e NpuSimulated = upd_service (\<lambda>c. c \<lparr> cf_npu_enabled := True, cf_npu_executor := Some (SimulatedNpuExecutor e) \<rparr>)"
| "opt_apply e (Port p) = (\<lambda>a. a \<lparr> ar_config := (ar_config a) \<lparr> sc_port := int p \<rparr> \<rparr>)"

fun opt_ok :: "Opt \<Rightarrow> bool" where
  "opt_ok (Threshold n) \<longleftrightarrow> n < 2 ^ 64"
| "opt_ok (Port p) \<longleftrightarrow> p < 2 ^ 31"
| "opt_ok _ \<longleftrightarrow> True"

lemma to_string_no_flag: "to_string n \<noteq> CHR ''-'' # r"
  using to_string_digits [of "CHR ''-''" n] by auto

lemma backend_of_name_name: "backend_of_name (backend_name k) = Some k"
  by (cases k) (simp_all add: backend_of_name_def)

lemma parse_opt: "opt_ok opt \<Longrightarrow> parse_args e (opt_args opt @ rest) a = parse_args e rest (opt_apply e opt a)"
  by (cases opt) (simp_all add: parse_args.simps(2) backend_of_name_name stoi_to_string stoull_to_string to_string_no_flag)

lemma parse_opts: "list_all opt_ok opts \<Longrightarrow> parse_args e (concat (map opt_args opts) @ rest) a = parse_args e rest (fold (opt_apply e) opts a)"
  by (induction opts arbitrary: a) (simp_all add: parse_opt)

text \<open>An option that takes a value, written last, is read as a port number.\<close>

lemma parse_dangling:
  "flag \<in> {''--default-backend'', ''--gpu-offload-threshold'', ''--npu-ethosu-bundle'', ''--ethosu-device''} \<Longrightarrow>
   parse_args e [flag] a = Inl (Terminate ''stoi'')"
  by (elim insertE) (simp_all add: parse_args.simps(2) stoi_flag)

lemma opts_no_help:
  assumes "args \<noteq> []" "hd args \<noteq> ''--help''" "concat (map opt_args opts) @ args \<noteq> []"
  shows "hd (concat (map opt_args opts) @ args) \<noteq> ''--help''"
proof (cases opts)
  case (Cons x xs)
  then show ?thesis by (cases x) (simp_all add: to_string_not_Nil to_string_no_flag)
qed (use assms in simp)

lemma opts_no_help0: "opts \<noteq> [] \<Longrightarrow> hd (concat (map opt_args opts)) \<noteq> ''--help''"
  by (cases opts; cases "hd opts") (simp_all add: to_string_not_Nil to_string_no_flag)

lemma concat_opts_Nil: "concat (map opt_args opts) = [] \<longleftrightarrow> opts = []"
  by (cases opts; cases "hd opts") simp_all

lemma main_start_port: "main_start e a = Serve cfg service \<Longrightarrow> 1 \<le> sc_port cfg \<and> sc_port cfg \<le> 65535 \<and> sc_port cfg = sc_port (ar_config a)"
  by (auto simp: main_start_def main_executor_def upd_service_def BrokerServer_init_def res_bind_def split: if_splits sum.splits)

lemma broker_main_opts:
  "list_all opt_ok opts \<Longrightarrow> broker_main e (concat (map opt_args opts)) = main_start e (fold (opt_apply e) opts Args_default)"
  using parse_opts [of opts e "[]" Args_default] opts_no_help0 [of opts]
  unfolding broker_main_def concat_opts_Nil by auto

lemma broker_main_dangling:
  assumes "list_all opt_ok opts" "flag \<in> {''--default-backend'', ''--gpu-offload-threshold'', ''--npu-ethosu-bundle'', ''--ethosu-device''}"
  shows "broker_main e (concat (map opt_args opts) @ [flag]) = Terminate ''stoi''"
proof -
  have "hd (concat (map opt_args opts) @ [flag]) \<noteq> ''--help''" by (rule opts_no_help) (use assms(2) in auto)
  then show ?thesis using parse_opts [OF assms(1), of e "[flag]"] parse_dangling [OF assms(2)] by (simp add: broker_main_def)
qed

text \<open>C33. The command line does what the usage text says: any sequence of its options, in any order and with repetitions,
  has exactly the effects of the options applied from left to right, and the server is started only on the port they
  leave, which is between 1 and 65535.  An option whose value is missing is not diagnosed: it is read as the
  port number, and the exception leaves \<^verbatim>\<open>main\<close>.\<close>

theorem main_options:
  assumes "list_all opt_ok opts"
    and "flag \<in> {''--default-backend'', ''--gpu-offload-threshold'', ''--npu-ethosu-bundle'', ''--ethosu-device''}"
  shows "broker_main e (concat (map opt_args opts)) = main_start e (fold (opt_apply e) opts Args_default) \<and>
    (\<forall>cfg service. main_start e (fold (opt_apply e) opts Args_default) = Serve cfg service \<longrightarrow>
       1 \<le> sc_port cfg \<and> sc_port cfg \<le> 65535 \<and> sc_port cfg = sc_port (ar_config (fold (opt_apply e) opts Args_default))) \<and>
    broker_main e (concat (map opt_args opts) @ [flag]) = Terminate ''stoi''"
  using broker_main_opts [OF assms(1)] broker_main_dangling [OF assms] main_start_port by blast

theorem main_options_witness:
  "\<forall>e. broker_main e [to_string 9000, ''--cpu-only'', ''--default-backend'', ''gpu''] =
       main_start e (fold (opt_apply e) [Port 9000, CpuOnly, DefaultBackend Gpu] Args_default) \<and>
     broker_main e [to_string 9000, ''--cpu-only'', ''--default-backend'', ''gpu'', ''--ethosu-device''] = Terminate ''stoi''"
proof -
  have ok: "list_all opt_ok [Port 9000, CpuOnly, DefaultBackend Gpu]" by simp
  have "concat (map opt_args [Port 9000, CpuOnly, DefaultBackend Gpu]) = [to_string 9000, ''--cpu-only'', ''--default-backend'', ''gpu'']" by simp
  with main_options [OF ok, of "''--ethosu-device''"] show ?thesis by (simp del: fold.simps)
qed

end
