(* ===== verification/Owned_Handles.thy ===== *)
theory Owned_Handles
  imports Ethosu_Executor
begin

text \<open>
  The two owning types of \<^verbatim>\<open>src/ethosu_u85_drm_executor.cpp\<close>, \<^verbatim>\<open>GemHandle\<close> and \<^verbatim>\<open>Mapping\<close>: their destructors, move constructors and move
  assignments.  The locale \<open>owner\<close> states what moving an owning object promises; in it, every resource is released exactly once whatever
  objects are moved where.
\<close>

section \<open>GemHandle\<close>

record GemHandle =
  gh_fd :: int
  gh_value :: u32

definition GemHandle_default :: GemHandle where
  "GemHandle_default = \<lparr> gh_fd = -1, gh_value = 0 \<rparr>"

text \<open>The calls of \<^verbatim>\<open>GEM_CLOSE\<close> a destructor makes: the file and the handle.\<close>

definition GemHandle_destroy :: "GemHandle \<Rightarrow> (int \<times> u32) list" where
  "GemHandle_destroy x = (if gh_fd x \<ge> 0 \<and> gh_value x \<noteq> 0 then [(gh_fd x, gh_value x)] else [])"

text \<open>Moving gives the new object and what is left of the old one; assigning also the calls made.\<close>

definition GemHandle_move :: "GemHandle \<Rightarrow> GemHandle \<times> GemHandle" where
  "GemHandle_move x = (\<lparr> gh_fd = gh_fd x, gh_value = gh_value x \<rparr>, x \<lparr> gh_fd := -1, gh_value := 0 \<rparr>)"

definition GemHandle_assign :: "GemHandle \<Rightarrow> GemHandle \<Rightarrow> GemHandle \<times> GemHandle \<times> (int \<times> u32) list" where
  "GemHandle_assign x y =
     (x \<lparr> gh_fd := gh_fd y, gh_value := gh_value y \<rparr>, y \<lparr> gh_fd := -1, gh_value := 0 \<rparr>,
      if gh_fd x \<ge> 0 \<and> gh_value x \<noteq> 0 then [(gh_fd x, gh_value x)] else [])"

section \<open>Mapping\<close>

text \<open>\<open>None\<close> is \<^verbatim>\<open>MAP_FAILED\<close>.\<close>

record Mapping =
  mp_address :: "nat option"
  mp_size :: nat

definition Mapping_init :: "unit res \<Rightarrow> nat res \<Rightarrow> nat \<Rightarrow> Mapping run" where
  "Mapping_init offset mmap n =
     run_bind (ioctl_check ''Ethos-U DRM BO_MMAP_OFFSET failed: '' offset) (\<lambda>_.
     run_bind (ioctl_check ''Ethos-U DRM mmap failed: '' mmap) (\<lambda>a. Inr \<lparr> mp_address = Some a, mp_size = n \<rparr>))"

definition Mapping_destroy :: "Mapping \<Rightarrow> (nat \<times> nat) list" where
  "Mapping_destroy x = (case mp_address x of Some a \<Rightarrow> [(a, mp_size x)] | None \<Rightarrow> [])"

definition Mapping_move :: "Mapping \<Rightarrow> Mapping \<times> Mapping" where
  "Mapping_move x = (\<lparr> mp_address = mp_address x, mp_size = mp_size x \<rparr>, x \<lparr> mp_address := None, mp_size := 0 \<rparr>)"

definition Mapping_assign :: "Mapping \<Rightarrow> Mapping \<Rightarrow> Mapping \<times> Mapping \<times> (nat \<times> nat) list" where
  "Mapping_assign x y =
     (x \<lparr> mp_address := mp_address y, mp_size := mp_size y \<rparr>, y \<lparr> mp_address := None, mp_size := 0 \<rparr>,
      case mp_address x of Some a \<Rightarrow> [(a, mp_size x)] | None \<Rightarrow> [])"

section \<open>Objects that are moved around\<close>

text \<open>A move constructs a new object at the end from object \<open>i\<close>, or assigns object \<open>j\<close> to object \<open>i\<close>; assigning an object to itself does nothing.\<close>

datatype OwnerOp = MoveNew nat | MoveAssign nat nat

fun owner_op :: "('r \<Rightarrow> 'r \<times> 'r) \<Rightarrow> ('r \<Rightarrow> 'r \<Rightarrow> 'r \<times> 'r \<times> 'c list) \<Rightarrow> OwnerOp \<Rightarrow> 'r list \<times> 'c list \<Rightarrow> 'r list \<times> 'c list" where
  "owner_op move assign (MoveNew i) (xs, calls) =
     (if i < length xs then let (x, y) = move (xs ! i) in (xs[i := y] @ [x], calls) else (xs, calls))"
| "owner_op move assign (MoveAssign i j) (xs, calls) =
     (if i < length xs \<and> j < length xs \<and> i \<noteq> j
      then let (x, y, cs) = assign (xs ! i) (xs ! j) in (xs[i := x, j := y], calls @ cs) else (xs, calls))"

lemma mset_cancel: "A + S1 = B + S \<Longrightarrow> B + S2 = S1 \<Longrightarrow> A + S2 = (S :: 'a multiset)"
  by (simp add: multiset_eq_iff) (metis add.left_commute add_left_imp_eq)

locale owner =
  fixes destroy :: "'r \<Rightarrow> 'c list" and move :: "'r \<Rightarrow> 'r \<times> 'r" and assign :: "'r \<Rightarrow> 'r \<Rightarrow> 'r \<times> 'r \<times> 'c list"
  assumes move_owner: "move x = (a, b) \<Longrightarrow> destroy a = destroy x \<and> destroy b = []"
    and assign_owner: "assign x y = (a, b, cs) \<Longrightarrow> destroy a = destroy y \<and> destroy b = [] \<and> cs = destroy x"
begin

definition due :: "'r list \<times> 'c list \<Rightarrow> 'c multiset" where
  "due s = (\<Sum>x \<leftarrow> fst s. mset (destroy x)) + mset (snd s)"

lemma due_update:
  assumes "i < length xs"
  shows "(\<Sum>x \<leftarrow> xs[i := v]. mset (destroy x)) + mset (destroy (xs ! i)) = (\<Sum>x \<leftarrow> xs. mset (destroy x)) + mset (destroy v)"
  using assms by (induction xs arbitrary: i) (auto simp: ac_simps split: nat.splits)

lemma owner_op_due: "due (owner_op move assign x s) = due s"
proof (cases x)
  case (MoveNew i)
  obtain xs calls where s: "s = (xs, calls)" by fastforce
  obtain a b where m: "move (xs ! i) = (a, b)" by fastforce
  show ?thesis
  proof (cases "i < length xs")
    case True
    with due_update [OF True, of b] move_owner [OF m] show ?thesis by (simp add: MoveNew s m due_def)
  qed (simp add: MoveNew s)
next
  case (MoveAssign i j)
  obtain xs calls where s: "s = (xs, calls)" by fastforce
  obtain a b cs where m: "assign (xs ! i) (xs ! j) = (a, b, cs)" by (metis prod_cases3)
  show ?thesis
  proof (cases "i < length xs \<and> j < length xs \<and> i \<noteq> j")
    case True
    then have "xs[i := a] ! j = xs ! j" by simp
    with True due_update [of i xs a] due_update [of j "xs[i := a]" b] assign_owner [OF m]
    have 1: "mset (destroy (xs ! i)) + (\<Sum>x \<leftarrow> xs[i := a]. mset (destroy x)) = mset (destroy (xs ! j)) + (\<Sum>x \<leftarrow> xs. mset (destroy x))"
      and 2: "mset (destroy (xs ! j)) + (\<Sum>x \<leftarrow> xs[i := a, j := b]. mset (destroy x)) = (\<Sum>x \<leftarrow> xs[i := a]. mset (destroy x))"
      by (simp_all add: add.commute)
    note mset_cancel [OF 1 2]
    with True assign_owner [OF m] show ?thesis by (simp add: MoveAssign s m due_def add.commute)
  qed (auto simp: MoveAssign s)
qed

lemma released_once:
  assumes "fold (owner_op move assign) ops (xs, []) = (ys, calls)"
  shows "mset (calls @ concat (map destroy ys)) = mset (concat (map destroy xs))"
proof -
  have "due (fold (owner_op move assign) ops s) = due s" for s by (induction ops arbitrary: s) (simp_all add: owner_op_due)
  from this [of "(xs, [])"] assms show ?thesis by (simp add: due_def mset_concat o_def ac_simps)
qed

end

interpretation gem: owner GemHandle_destroy GemHandle_move GemHandle_assign
  by unfold_locales (auto simp: GemHandle_destroy_def GemHandle_move_def GemHandle_assign_def)

interpretation mapping: owner Mapping_destroy Mapping_move Mapping_assign
  by unfold_locales (auto simp: Mapping_destroy_def Mapping_move_def Mapping_assign_def split: option.splits)

text \<open>However the handles of a run are moved, their destructors make the calls \<open>close_handles\<close> lists.\<close>

lemma gem_handles_closed:
  assumes "fold (owner_op GemHandle_move GemHandle_assign) ops (map (\<lambda>v. \<lparr> gh_fd = fd, gh_value = v \<rparr>) handles, []) = (ys, calls)" "fd \<ge> 0"
  shows "mset (map snd (calls @ concat (map GemHandle_destroy ys))) = mset (close_handles handles)"
proof -
  have "map snd (concat (map GemHandle_destroy (map (\<lambda>v. \<lparr> gh_fd = fd, gh_value = v \<rparr>) handles))) = close_handles handles"
    using assms(2) by (induction handles) (auto simp: GemHandle_destroy_def close_handles_def)
  with gem.released_once [OF assms(1)] show ?thesis by (metis mset_map)
qed

text \<open>Every mapping that was made is unmapped once, with the size it was mapped with.\<close>

lemma mappings_released:
  assumes "list_all2 (\<lambda>(offset, mmap, n) x. Mapping_init offset mmap n = Inr x) reqs xs" "fold (owner_op Mapping_move Mapping_assign) ops (xs, []) = (ys, calls)"
  shows "mset (calls @ concat (map Mapping_destroy ys)) = mset (map (\<lambda>(offset, mmap, n). (projr mmap, n)) reqs)"
proof -
  have "concat (map Mapping_destroy xs) = map (\<lambda>(offset, mmap, n). (projr mmap, n)) reqs"
    using assms(1) by (induction rule: list_all2_induct)
      (auto simp: Mapping_init_def run_bind_def ioctl_check_def Mapping_destroy_def split: sum.splits)
  with mapping.released_once [OF assms(2)] show ?thesis by simp
qed

end
