(* ===== verification/Adi_Server.thy ===== *)
theory Adi_Server
  imports Host_Order Socket_Io Float64_Arith Nvlink_Placement "HOL-Library.Sublist"
begin

text \<open>
  The sessions of the ADI server: \<^verbatim>\<open>include/adi_server.h\<close> and the parts of \<^verbatim>\<open>src/adi_server.cpp\<close> that one client
  sees.  A request is a length word and five doubles; it is placed on a GPU, and the result goes back as a primary
  packet, from the second exchange on followed by a delta packet with the difference to the previous result.  The
  clock is a function from the number of packets begun so far; the answer of the worker thread is the value of the
  compute function at the chosen GPU, which the theory of the workers justifies.
\<close>

section \<open>Constants and data\<close>

definition PAYLOAD_DOUBLES :: nat where "PAYLOAD_DOUBLES = 5"
definition PAYLOAD_BYTES :: nat where "PAYLOAD_BYTES = PAYLOAD_DOUBLES * 8"
definition EXPECTED_LENGTH :: u32 where "EXPECTED_LENGTH = word_of_nat PAYLOAD_BYTES"

datatype PacketType = Primary | Delta

primrec packet_type_raw :: "PacketType \<Rightarrow> u8" where
  "packet_type_raw Primary = 0"
| "packet_type_raw Delta = 1"

type_synonym GpuPayload = "double list"
type_synonym AdiComputeFn = "GpuPayload \<Rightarrow> int \<Rightarrow> GpuPayload res"

record AdiServerConfig =
  ac_port :: int
  ac_backlog_threshold :: nat
  ac_gpu_compute_fn :: "AdiComputeFn option"
  ac_verbose :: bool

definition AdiServerConfig_default :: AdiServerConfig where
  "AdiServerConfig_default = \<lparr> ac_port = 8080, ac_backlog_threshold = 32, ac_gpu_compute_fn = None, ac_verbose = False \<rparr>"

section \<open>The default compute function\<close>

text \<open>What the CUDA and cuBLAS calls of one computation return: the error text of a failed CUDA call, whether a cuBLAS call
  succeeds, and the device buffer after \<^verbatim>\<open>cublasDscal\<close>.\<close>

record Cublas =
  cb_cudaSetDevice :: "int \<Rightarrow> string option"
  cb_cublasCreate :: bool
  cb_cudaMalloc :: "nat \<Rightarrow> string option"
  cb_memcpy_to_device :: "string option"
  cb_cublasDscal :: "double \<Rightarrow> double list \<Rightarrow> double list option"
  cb_memcpy_to_host :: "string option"

definition check_cuda :: "string option \<Rightarrow> string \<Rightarrow> unit res" where
  "check_cuda status step = (case status of None \<Rightarrow> Inr () | Some e \<Rightarrow> Inl (step @ '': '' @ e))"

definition check_cublas :: "bool \<Rightarrow> string \<Rightarrow> unit res" where
  "check_cublas ok step = (if ok then Inr () else Inl (step @ '' failed''))"

text \<open>\<open>None\<close> is a build without cuBLAS.\<close>

definition default_gpu_compute :: "Cublas option \<Rightarrow> AdiComputeFn" where
  "default_gpu_compute cublas input gpu_idx =
     (case cublas of
        Some c \<Rightarrow>
          if input = [] then Inr input
          else
          res_bind (check_cuda (cb_cudaSetDevice c gpu_idx) ''cudaSetDevice'') (\<lambda>_.
          res_bind (check_cublas (cb_cublasCreate c) ''cublasCreate'') (\<lambda>_.
          res_bind (check_cuda (cb_cudaMalloc c (length input * 8)) ''cudaMalloc'') (\<lambda>_.
          res_bind (check_cuda (cb_memcpy_to_device c) ''cudaMemcpyHostToDevice'') (\<lambda>_.
          let alpha = 0x4000000000000000 :: double; scaled = cb_cublasDscal c alpha input in
          res_bind (check_cublas (scaled \<noteq> None) ''cublasDscal'') (\<lambda>_.
          res_bind (check_cuda (cb_memcpy_to_host c) ''cudaMemcpyDeviceToHost'') (\<lambda>_.
          Inr (the scaled)))))))
      | None \<Rightarrow> let output = map double_mul2 input in Inr output)"

definition compute_fn :: "Cublas option \<Rightarrow> AdiServerConfig \<Rightarrow> AdiComputeFn" where
  "compute_fn cublas cfg = (case ac_gpu_compute_fn cfg of Some f \<Rightarrow> f | None \<Rightarrow> default_gpu_compute cublas)"

text \<open>The constructor: the placer and one worker per GPU.\<close>

definition AdiServer_init :: "GpuTopology \<Rightarrow> AdiServerConfig \<Rightarrow> (Placer \<times> nat) res" where
  "AdiServer_init t cfg =
     (let placer = Placer_init (ac_backlog_threshold cfg) in
      if num_gpus t \<le> 0 then Inl ''ADI server requires at least one GPU in the provided topology.''
      else Inr (placer, nat (num_gpus t)))"

section \<open>Packets\<close>

definition double_to_be64 :: "endian \<Rightarrow> double \<Rightarrow> u64" where
  "double_to_be64 h value = adi_host_to_be64 h value"

definition be64_to_double :: "endian \<Rightarrow> u64 \<Rightarrow> double" where
  "be64_to_double h value = adi_be64_to_host h value"

definition host_to_be32 :: "endian \<Rightarrow> u32 \<Rightarrow> u32" where "host_to_be32 h n = htonl h n"
definition be32_to_host :: "endian \<Rightarrow> u32 \<Rightarrow> u32" where "be32_to_host h n = ntohl h n"

definition adi_read_exact :: "RecvEvent list \<Rightarrow> nat \<Rightarrow> bytes option \<times> RecvEvent list" where
  "adi_read_exact = recv_loop False"

definition adi_write_exact :: "SendEvent list \<Rightarrow> bytes \<Rightarrow> bool \<times> bytes \<times> SendEvent list" where
  "adi_write_exact = send_loop False"

text \<open>The packed response header in memory and the two writes: the result, the bytes handed to the socket, the remaining events.\<close>

definition ResponseHeader_bytes :: "endian \<Rightarrow> u64 \<Rightarrow> u32 \<Rightarrow> PacketType \<Rightarrow> bytes" where
  "ResponseHeader_bytes h timestamp_ns sequence_id packet_type =
     store h 8 (adi_host_to_be64 h timestamp_ns) @ store h 4 (host_to_be32 h sequence_id) @ [packet_type_raw packet_type]"

definition send_packet ::
  "endian \<Rightarrow> u64 \<Rightarrow> SendEvent list \<Rightarrow> u32 \<Rightarrow> PacketType \<Rightarrow> GpuPayload \<Rightarrow> unit res \<times> bytes \<times> SendEvent list" where
  "send_packet h now es sequence_id packet_type payload =
     (if length payload \<noteq> PAYLOAD_DOUBLES then (Inl ''ADI response payload must contain exactly 5 doubles.'', [], es)
      else
        let header = ResponseHeader_bytes h now sequence_id packet_type;
            payload_words = concat (map (\<lambda>v. store h 8 (double_to_be64 h v)) payload);
            (ok, w, es) = adi_write_exact es header in
        if \<not> ok then (Inl ''Failed to send ADI response packet.'', w, es)
        else
          let (ok, w2, es) = adi_write_exact es payload_words in
          if \<not> ok then (Inl ''Failed to send ADI response packet.'', w @ w2, es) else (Inr (), w @ w2, es))"

section \<open>The session\<close>

record AdiSession =
  as_input :: "RecvEvent list"
  as_sends :: "SendEvent list"
  as_output :: bytes
  as_packets :: nat
  as_previous :: GpuPayload
  as_first :: bool
  as_sequence :: u32
  as_open :: bool

definition AdiSession_start :: "RecvEvent list \<Rightarrow> SendEvent list \<Rightarrow> AdiSession" where
  "AdiSession_start input sends = \<lparr> as_input = input, as_sends = sends, as_output = [], as_packets = 0, as_previous = [],
     as_first = True, as_sequence = 0, as_open = True \<rparr>"

text \<open>\<^verbatim>\<open>send_packet\<close> on the session; an exception ends it.\<close>

definition adi_send :: "endian \<Rightarrow> (nat \<Rightarrow> u64) \<Rightarrow> PacketType \<Rightarrow> GpuPayload \<Rightarrow> AdiSession \<Rightarrow> AdiSession" where
  "adi_send h clock ty payload s =
     (let (r, w, es) = send_packet h (clock (as_packets s)) (as_sends s) (as_sequence s) ty payload;
          s = s \<lparr> as_output := as_output s @ w, as_sends := es, as_packets := as_packets s + 1 \<rparr> in
      case r of Inl e \<Rightarrow> s \<lparr> as_open := False \<rparr> | Inr _ \<Rightarrow> s)"

text \<open>The delta loop.\<close>

definition adi_delta :: "(double \<Rightarrow> double \<Rightarrow> double) \<Rightarrow> GpuPayload \<Rightarrow> GpuPayload \<Rightarrow> GpuPayload" where
  "adi_delta nan current previous_payload = map (\<lambda>i. double_sub nan (current ! i) (previous_payload ! i)) [0..<length current]"

text \<open>What follows the result of the worker.\<close>

definition adi_reply ::
  "endian \<Rightarrow> (double \<Rightarrow> double \<Rightarrow> double) \<Rightarrow> (nat \<Rightarrow> u64) \<Rightarrow> GpuPayload \<Rightarrow> AdiSession \<Rightarrow> AdiSession" where
  "adi_reply h nan clock current s =
     (let s = adi_send h clock Primary current s in
      if \<not> as_open s then s
      else
        let s = (if \<not> as_first s then adi_send h clock Delta (adi_delta nan current (as_previous s)) s else s) in
        if \<not> as_open s then s
        else s \<lparr> as_previous := current, as_first := False, as_sequence := as_sequence s + 1 \<rparr>)"

text \<open>One turn of the loop.\<close>

definition adi_turn ::
  "endian \<Rightarrow> GpuTopology \<Rightarrow> AdiComputeFn \<Rightarrow> (double \<Rightarrow> double \<Rightarrow> double) \<Rightarrow> (nat \<Rightarrow> u64) \<Rightarrow> int \<Rightarrow>
   ('q \<Rightarrow> int \<Rightarrow> nat \<times> 'q) \<Rightarrow> 'q \<Rightarrow> Placer \<times> AdiSession \<Rightarrow> Placer \<times> AdiSession" where
  "adi_turn h t compute nan clock client_id queue_depth q = (\<lambda>(placer, s).
     (case adi_read_exact (as_input s) 4 of
        (None, input) \<Rightarrow> (placer, s \<lparr> as_input := input, as_open := False \<rparr>)
      | (Some length_be, input) \<Rightarrow>
          if be32_to_host h (load h length_be) \<noteq> EXPECTED_LENGTH then (placer, s \<lparr> as_input := input, as_open := False \<rparr>)
          else
            (case adi_read_exact input PAYLOAD_BYTES of
               (None, input) \<Rightarrow> (placer, s \<lparr> as_input := input, as_open := False \<rparr>)
             | (Some words, input) \<Rightarrow>
                 let request = map (\<lambda>i. be64_to_double h (load h (bytes_at words (8 * i) 8))) [0..<PAYLOAD_DOUBLES];
                     (target_gpu, placer, _) = place t placer client_id queue_depth q;
                     s = s \<lparr> as_input := input \<rparr> in
                 (case compute request target_gpu of
                    Inl e \<Rightarrow> (placer, s \<lparr> as_open := False \<rparr>)
                  | Inr current \<Rightarrow> (placer, adi_reply h nan clock current s)))))"

text \<open>The start and the end of \<^verbatim>\<open>session_loop\<close>.\<close>

definition adi_session_begin :: "GpuTopology \<Rightarrow> Placer \<Rightarrow> int \<Rightarrow> int \<times> Placer" where
  "adi_session_begin t placer client_id = assign_home t placer client_id"

definition adi_session_end :: "Placer \<Rightarrow> int \<Rightarrow> Placer" where
  "adi_session_end placer client_id = release_client placer client_id"

text \<open>The loop, with what the queue depths look like to each turn.\<close>

fun adi_run ::
  "endian \<Rightarrow> GpuTopology \<Rightarrow> AdiComputeFn \<Rightarrow> (double \<Rightarrow> double \<Rightarrow> double) \<Rightarrow> (nat \<Rightarrow> u64) \<Rightarrow> int \<Rightarrow>
   ('q \<Rightarrow> int \<Rightarrow> nat \<times> 'q) \<Rightarrow> 'q list \<Rightarrow> Placer \<times> AdiSession \<Rightarrow> Placer \<times> AdiSession" where
  "adi_run h t compute nan clock client_id queue_depth [] st = st"
| "adi_run h t compute nan clock client_id queue_depth (q # qs) st =
     (if as_open (snd st)
      then adi_run h t compute nan clock client_id queue_depth qs (adi_turn h t compute nan clock client_id queue_depth q st)
      else st)"

section \<open>Bytes on the wire\<close>

definition adi_request :: "GpuPayload \<Rightarrow> bytes" where
  "adi_request xs = be_bytes 4 (40 :: u32) @ concat (map (be_bytes 8) xs)"

definition adi_packet :: "u64 \<Rightarrow> u32 \<Rightarrow> PacketType \<Rightarrow> GpuPayload \<Rightarrow> bytes" where
  "adi_packet now seq ty p = be_bytes 8 now @ be_bytes 4 seq @ [packet_type_raw ty] @ concat (map (be_bytes 8) p)"

text \<open>What a session with the results \<open>rs\<close> writes, from the previous result and the number of packets so far.\<close>

definition adi_exchange :: "(double \<Rightarrow> double \<Rightarrow> double) \<Rightarrow> (nat \<Rightarrow> u64) \<Rightarrow> nat \<Rightarrow> u32 \<Rightarrow> GpuPayload option \<Rightarrow> GpuPayload \<Rightarrow> bytes" where
  "adi_exchange nan clock k seq prev r = adi_packet (clock k) seq Primary r @
     (case prev of None \<Rightarrow> [] | Some p \<Rightarrow> adi_packet (clock (k + 1)) seq Delta (adi_delta nan r p))"

fun adi_stream :: "(double \<Rightarrow> double \<Rightarrow> double) \<Rightarrow> (nat \<Rightarrow> u64) \<Rightarrow> nat \<Rightarrow> u32 \<Rightarrow> GpuPayload option \<Rightarrow> GpuPayload list \<Rightarrow> bytes" where
  "adi_stream nan clock k seq prev [] = []"
| "adi_stream nan clock k seq prev (r # rs) =
     adi_exchange nan clock k seq prev r @ adi_stream nan clock (if prev = None then k + 1 else k + 2) (seq + 1) (Some r) rs"

lemma payload_words_eq: "concat (map (\<lambda>v. store h 8 (double_to_be64 h v)) p) = concat (map (be_bytes 8) p)"
  by (simp add: double_to_be64_def)

lemma send_packet_cases:
  assumes "length p = 5"
  obtains (sent) es' where "send_packet h now es seq ty p = (Inr (), adi_packet now seq ty p, es')"
  | (failed) e w es' where "send_packet h now es seq ty p = (Inl e, w, es')" "prefix w (adi_packet now seq ty p)"
proof -
  let ?hd = "ResponseHeader_bytes h now seq ty" and ?pl = "concat (map (\<lambda>v. store h 8 (double_to_be64 h v)) p)"
  have pk: "adi_packet now seq ty p = ?hd @ ?pl"
    by (simp add: adi_packet_def ResponseHeader_bytes_def host_to_be32_def payload_words_eq)
  obtain ok1 w1 es1 where 1: "adi_write_exact es ?hd = (ok1, w1, es1)" by (metis prod_cases3)
  obtain ok2 w2 es2 where 2: "adi_write_exact es1 ?pl = (ok2, w2, es2)" by (metis prod_cases3)
  have h: "\<exists>rest. ?hd = w1 @ rest \<and> (ok1 \<longleftrightarrow> rest = [])" using send_loop_spec [OF 1 [unfolded adi_write_exact_def]] .
  have q: "\<exists>rest. ?pl = w2 @ rest \<and> (ok2 \<longleftrightarrow> rest = [])" using send_loop_spec [OF 2 [unfolded adi_write_exact_def]] .
  note unf = send_packet_def assms PAYLOAD_DOUBLES_def Let_def 1 2
  show thesis
  proof (cases "ok1 \<and> ok2")
    case True
    with h q have "w1 @ w2 = ?hd @ ?pl" by auto
    with True show thesis by (intro sent [of es2]) (simp add: unf pk)
  next
    case False
    show thesis
    proof (cases ok1)
      case True
      with False h q have "prefix (w1 @ w2) (?hd @ ?pl)" by (auto simp: prefix_def)
      with True False show thesis by (intro failed) (simp_all add: unf pk)
    next
      case no: False
      with h have "prefix w1 (?hd @ ?pl)" by (auto simp: prefix_def)
      with no show thesis by (intro failed) (simp_all add: unf pk)
    qed
  qed
qed

lemma adi_send_cases:
  assumes "length p = 5"
  obtains (sent) es' where "adi_send h clock ty p s =
      s \<lparr> as_output := as_output s @ adi_packet (clock (as_packets s)) (as_sequence s) ty p, as_sends := es', as_packets := as_packets s + 1 \<rparr>"
  | (failed) w where "\<not> as_open (adi_send h clock ty p s)" "as_output (adi_send h clock ty p s) = as_output s @ w"
      "prefix w (adi_packet (clock (as_packets s)) (as_sequence s) ty p)"
  using assms
  by (rule send_packet_cases [of p h "clock (as_packets s)" "as_sends s" "as_sequence s" ty])
    (rule sent, simp add: adi_send_def, rule failed, simp_all add: adi_send_def)

definition adi_prev :: "AdiSession \<Rightarrow> GpuPayload option" where
  "adi_prev s = (if as_first s then None else Some (as_previous s))"

lemma length_adi_delta [simp]: "length (adi_delta nan r p) = length r"
  by (simp add: adi_delta_def)

lemma adi_reply_cases:
  assumes "length r = 5" "as_open s"
  obtains (sent) es' where "adi_reply h nan clock r s =
      s \<lparr> as_output := as_output s @ adi_exchange nan clock (as_packets s) (as_sequence s) (adi_prev s) r, as_sends := es',
          as_packets := as_packets s + (if as_first s then 1 else 2), as_previous := r, as_first := False, as_sequence := as_sequence s + 1 \<rparr>"
  | (failed) w where "\<not> as_open (adi_reply h nan clock r s)" "as_output (adi_reply h nan clock r s) = as_output s @ w"
      "prefix w (adi_exchange nan clock (as_packets s) (as_sequence s) (adi_prev s) r)"
proof (cases rule: adi_send_cases [OF assms(1), of h clock Primary s])
  case (1 es)
  note p = 1
  show thesis
  proof (cases "as_first s")
    case True
    show thesis
      by (rule sent [of es]) (use p True assms(2) in \<open>simp add: adi_reply_def adi_exchange_def adi_prev_def Let_def\<close>)
  next
    case False
    let ?s = "s \<lparr> as_output := as_output s @ adi_packet (clock (as_packets s)) (as_sequence s) Primary r, as_sends := es,
      as_packets := as_packets s + 1 \<rparr>"
    let ?d = "adi_delta nan r (as_previous s)"
    have len: "length ?d = 5" using assms(1) by simp
    show thesis
    proof (cases rule: adi_send_cases [OF len, of h clock Delta ?s])
      case (1 es2)
      show thesis
        by (rule sent [of es2]) (use p False assms(2) 1 in \<open>simp add: adi_reply_def adi_exchange_def adi_prev_def Let_def\<close>)
    next
      case (2 w)
      show thesis
        by (rule failed [of "adi_packet (clock (as_packets s)) (as_sequence s) Primary r @ w"])
          (use p False assms(2) 2 in \<open>simp_all add: adi_reply_def adi_exchange_def adi_prev_def Let_def\<close>)
    qed
  qed
next
  case (2 w)
  then show thesis
    by (intro failed [of w]) (auto simp: adi_reply_def adi_exchange_def Let_def intro: prefix_prefix)
qed

section \<open>Reading a request\<close>

interpretation adi_reader: byte_reader adi_read_exact "stream False"
  unfolding adi_read_exact_def by (rule recv_reader.byte_reader_axioms)

lemma request_words:
  assumes "length xs = 5"
  shows "map (\<lambda>i. be64_to_double h (load h (bytes_at (concat (map (be_bytes 8) xs)) (8 * i) 8))) [0..<PAYLOAD_DOUBLES] = xs"
proof -
  obtain a b c d e where xs: "xs = [a, b, c, d, e]" using assms by (auto simp: length_Suc_conv eval_nat_numeral)
  have up: "[0..<PAYLOAD_DOUBLES] = [0, 1, 2, 3, 4]" by (simp add: PAYLOAD_DOUBLES_def upt_rec)
  show ?thesis unfolding up xs
    by (simp add: be64_to_double_def adi_be64_to_host_load be_word_be_bytes bytes_at_def)
qed

lemma adi_turn_request:
  assumes "stream False (as_input s) = adi_request xs @ rest" "length xs = 5"
    "place t placer c queue_depth q = (g, placer', q')"
  obtains input where "stream False input = rest"
    "adi_turn h t compute nan clock c queue_depth q (placer, s) =
      (placer', case compute xs g of Inl e \<Rightarrow> s \<lparr> as_input := input, as_open := False \<rparr>
                | Inr r \<Rightarrow> adi_reply h nan clock r (s \<lparr> as_input := input \<rparr>))"
proof -
  let ?l = "be_bytes 4 (40 :: u32)" and ?w = "concat (map (be_bytes 8) xs)"
  have "stream False (as_input s) = ?l @ (?w @ rest)" using assms(1) by (simp add: adi_request_def)
  from adi_reader.rd_prefix [OF this] obtain i1 where i1: "adi_read_exact (as_input s) 4 = (Some ?l, i1)" "stream False i1 = ?w @ rest"
    by (metis length_be_bytes)
  have lw: "length ?w = PAYLOAD_BYTES"
    using assms(2) by (simp add: length_concat PAYLOAD_BYTES_def PAYLOAD_DOUBLES_def o_def sum_list_triv)
  from adi_reader.rd_prefix [OF i1(2)] obtain i2 where i2: "adi_read_exact i1 PAYLOAD_BYTES = (Some ?w, i2)" "stream False i2 = rest"
    unfolding lw by metis
  have "be32_to_host h (load h ?l) = EXPECTED_LENGTH"
    by (simp add: be32_to_host_def be_word_load_32 be_word_be_bytes EXPECTED_LENGTH_def PAYLOAD_BYTES_def PAYLOAD_DOUBLES_def)
  with i1 i2 show thesis
    using request_words [OF assms(2), of h] assms(3)
    by (intro that [of i2]) (simp_all add: adi_turn_def Let_def split: sum.split)
qed

section \<open>A whole session\<close>

text \<open>The requests have five doubles and the compute function answers them with \<open>F\<close> on every GPU, again with five doubles.\<close>

definition adi_served :: "GpuTopology \<Rightarrow> AdiComputeFn \<Rightarrow> (GpuPayload \<Rightarrow> GpuPayload) \<Rightarrow> GpuPayload \<Rightarrow> bool" where
  "adi_served t compute F xs \<longleftrightarrow> length xs = 5 \<and> length (F xs) = 5 \<and> (\<forall>g \<in> {0..<num_gpus t}. compute xs g = Inr (F xs))"

lemma adi_turn_served:
  assumes "topo_wf t" "as_open s" "stream False (as_input s) = adi_request xs @ rest" "adi_served t compute F xs"
    "adi_turn h t compute nan clock c queue_depth q (placer, s) = (placer', s')"
  obtains (kept) "as_open s'" "stream False (as_input s') = rest" "as_sequence s' = as_sequence s + 1" "adi_prev s' = Some (F xs)"
      "as_packets s' = (if adi_prev s = None then as_packets s + 1 else as_packets s + 2)"
      "as_output s' = as_output s @ adi_exchange nan clock (as_packets s) (as_sequence s) (adi_prev s) (F xs)"
  | (closed) w where "\<not> as_open s'" "as_output s' = as_output s @ w"
      "prefix w (adi_exchange nan clock (as_packets s) (as_sequence s) (adi_prev s) (F xs))"
proof -
  obtain g p2 q2 where pl: "place t placer c queue_depth q = (g, p2, q2)" by (metis prod_cases3)
  have "in_range (num_gpus t) g" using place_range [OF assms(1) pl] by simp
  then have comp: "compute xs g = Inr (F xs)" and len: "length xs = 5" "length (F xs) = 5" using assms(4) by (auto simp: adi_served_def)
  obtain input where input: "stream False input = rest"
    and turn: "adi_turn h t compute nan clock c queue_depth q (placer, s) =
      (p2, case compute xs g of Inl e \<Rightarrow> s \<lparr> as_input := input, as_open := False \<rparr>
           | Inr r \<Rightarrow> adi_reply h nan clock r (s \<lparr> as_input := input \<rparr>))"
    by (rule adi_turn_request [OF assms(3) len(1) pl])
  let ?s = "s \<lparr> as_input := input \<rparr>"
  have s': "s' = adi_reply h nan clock (F xs) ?s" using turn assms(5) comp by simp
  have op: "as_open ?s" "adi_prev ?s = adi_prev s" using assms(2) by (simp_all add: adi_prev_def)
  show thesis
  proof (cases rule: adi_reply_cases [OF len(2) op(1), of h nan clock])
    case (1 es)
    show thesis by (rule kept) (use 1 s' op input assms(2) in \<open>simp_all add: adi_prev_def\<close>)
  next
    case (2 w)
    show thesis by (rule closed [of w]) (use 2 s' op in \<open>simp_all add: adi_prev_def\<close>)
  qed
qed

lemma adi_run_closed: "\<not> as_open s \<Longrightarrow> adi_run h t compute nan clock c queue_depth qs (placer, s) = (placer, s)"
  by (cases qs) simp_all

lemma adi_run_output:
  assumes "topo_wf t" "\<forall>xs \<in> set reqs. adi_served t compute F xs" "as_open s"
    "stream False (as_input s) = concat (map adi_request reqs) @ rest" "length qs = length reqs"
    "adi_run h t compute nan clock c queue_depth qs (placer, s) = (placer', s')"
  shows "\<exists>w. as_output s' = as_output s @ w \<and>
    prefix w (adi_stream nan clock (as_packets s) (as_sequence s) (adi_prev s) (map F reqs)) \<and>
    (as_open s' \<longrightarrow> w = adi_stream nan clock (as_packets s) (as_sequence s) (adi_prev s) (map F reqs) \<and>
       as_sequence s' = as_sequence s + word_of_nat (length reqs) \<and> stream False (as_input s') = rest)"
  using assms(2-)
proof (induction reqs arbitrary: s qs placer)
  case Nil
  then show ?case by simp
next
  case (Cons xs reqs)
  obtain q qs' where qs: "qs = q # qs'" using Cons.prems(4) by (cases qs) auto
  obtain p1 s1 where turn: "adi_turn h t compute nan clock c queue_depth q (placer, s) = (p1, s1)" by fastforce
  have run: "adi_run h t compute nan clock c queue_depth qs' (p1, s1) = (placer', s')"
    using Cons.prems(2,5) qs turn by simp
  have req: "stream False (as_input s) = adi_request xs @ (concat (map adi_request reqs) @ rest)" "adi_served t compute F xs"
    using Cons.prems(1,3) by simp_all
  show ?case
  proof (cases rule: adi_turn_served [OF assms(1) Cons.prems(2) req turn])
    case 1
    from Cons.IH [OF _ 1(1,2) _ run] Cons.prems(1,4) qs 1 show ?thesis by (auto simp: add.assoc)
  next
    case (2 w)
    then have "s' = s1" using run adi_run_closed by (metis prod.inject)
    with 2 show ?thesis by (intro exI [of _ w]) (simp add: prefix_prefix)
  qed
qed

text \<open>Both builds of the default compute function double every element, when \<^verbatim>\<open>cublasDscal\<close> scales as documented.\<close>

lemma default_gpu_compute_doubles:
  assumes "\<And>c. cublas = Some c \<Longrightarrow> cb_cublasDscal c 0x4000000000000000 xs \<in> {None, Some (map double_mul2 xs)}"
    "default_gpu_compute cublas xs g = Inr ys"
  shows "ys = map double_mul2 xs"
  using assms by (cases cublas) (auto simp: default_gpu_compute_def res_bind_Inr_iff Let_def check_cublas_def split: if_splits)

text \<open>A request whose length word is not 40 ends the session at once: nothing is placed and nothing is written.\<close>

lemma adi_turn_bad_length:
  assumes "stream False (as_input s) = be_bytes 4 (n :: u32) @ rest" "n \<noteq> 40"
    "adi_turn h t compute nan clock c queue_depth q (placer, s) = (placer', s')"
  shows "placer' = placer \<and> \<not> as_open s' \<and> as_output s' = as_output s"
proof -
  obtain i where i: "adi_read_exact (as_input s) 4 = (Some (be_bytes 4 n), i)"
    using adi_reader.rd_prefix [OF assms(1)] by (metis length_be_bytes)
  have "be32_to_host h (load h (be_bytes 4 n)) \<noteq> EXPECTED_LENGTH"
    using assms(2) by (simp add: be32_to_host_def be_word_load_32 be_word_be_bytes EXPECTED_LENGTH_def PAYLOAD_BYTES_def PAYLOAD_DOUBLES_def)
  with i assms(3) show ?thesis by (auto simp: adi_turn_def)
qed

section \<open>Properties\<close>

text \<open>C13. A client that sends requests of five doubles receives, in order and for every segmentation of its bytes, one primary packet per
  request with consecutive sequence ids and, from the second on, a delta packet with the same id; whatever the socket accepts, the bytes
  written are a prefix of that stream, and the whole of it as long as the session is open.\<close>

theorem adi_session_stream:
  assumes "topo_wf t" "\<forall>xs \<in> set reqs. adi_served t compute F xs" "stream False input = concat (map adi_request reqs) @ rest"
    "length qs = length reqs" "adi_run h t compute nan clock c queue_depth qs (placer, AdiSession_start input sends) = (placer', s')"
  shows "prefix (as_output s') (adi_stream nan clock 0 0 None (map F reqs)) \<and>
    (as_open s' \<longrightarrow> as_output s' = adi_stream nan clock 0 0 None (map F reqs) \<and> as_sequence s' = word_of_nat (length reqs) \<and>
       stream False (as_input s') = rest)"
  using adi_run_output [OF assms(1,2) _ _ assms(4,5)] assms(3) by (auto simp: AdiSession_start_def adi_prev_def)

definition adi_sample :: GpuPayload where "adi_sample = replicate 5 0x3ff0000000000000"

lemma adi_sample_served: "adi_served sample_topo (default_gpu_compute None) (map double_mul2) adi_sample"
  by (simp add: adi_served_def adi_sample_def default_gpu_compute_def)

theorem adi_session_stream_witness:
  "prefix (as_output (snd (adi_run LittleEndian sample_topo (default_gpu_compute None) (\<lambda>x y. x) word_of_nat 5 (\<lambda>q g. (0, q)) [(), ()]
     (sample_placer, AdiSession_start [Data (adi_request adi_sample @ adi_request adi_sample)] [Sent 13, Sent 40, Sent 4]))))
   (adi_stream (\<lambda>x y. x) word_of_nat 0 0 None [map double_mul2 adi_sample, map double_mul2 adi_sample])"
proof -
  have "stream False [Data (adi_request adi_sample @ adi_request adi_sample)] = concat (map adi_request [adi_sample, adi_sample]) @ []"
    by (simp add: adi_request_def adi_sample_def)
  from adi_session_stream [OF topo_wf_sample _ this, of "default_gpu_compute None" "map double_mul2" "[(), ()]" LittleEndian "\<lambda>x y. x" word_of_nat
      5 "\<lambda>q g. (0, q)" sample_placer "[Sent 13, Sent 40, Sent 4]"] adi_sample_served
  show ?thesis by (simp add: prod_eq_iff)
qed

text \<open>Each element of a delta packet is a double nearest to the exact difference of the two results, when these are finite and the
  difference does not leave the range.\<close>

lemma adi_delta_nearest:
  assumes "i < length current" "double_isfinite (current ! i)" "double_isfinite (previous ! i)"
    "double_isfinite (adi_delta nan current previous ! i)" "double_isfinite w"
  shows "\<bar>double_value (adi_delta nan current previous ! i) - (double_value (current ! i) - double_value (previous ! i))\<bar>
    \<le> \<bar>double_value w - (double_value (current ! i) - double_value (previous ! i))\<bar>"
proof -
  have d: "adi_delta nan current previous ! i = double_sub nan (current ! i) (previous ! i)" using assms(1) by (simp add: adi_delta_def)
  with assms show ?thesis by (metis double_sub_nearest)
qed

end
