(* ===== verification/Adi_Workers.thy ===== *)
theory Adi_Workers
  imports Adi_Server
begin

text \<open>
  The threads of the ADI server (\<^verbatim>\<open>src/adi_server.cpp\<close>): one worker per GPU with its queue, the session threads that
  enqueue a task and wait for its future, and the thread that stops the server.  Each step is one critical section
  or one call outside a lock; the steps interleave freely.  \<open>adi_step\<close> is the step relation; \<open>worker_step\<close> are the
  steps of one worker alone.
\<close>

section \<open>State\<close>

text \<open>Where a session thread is: reading, with a placed task not yet enqueued, waiting for the future, or with the future's value
  (\<open>Inl\<close> is the exception stored in it).\<close>

datatype ClientPc =
  Reading
| Placed GpuPayload int
| Waiting GpuPayload int
| Answered GpuPayload int "GpuPayload res"

datatype WorkerPc = WIdle | WBusy int GpuPayload | WExited

record WorkerState =
  ws_queue :: "(int \<times> GpuPayload) list"
  ws_stopping :: bool
  ws_pc :: WorkerPc

record AdiSys =
  ay_running :: bool
  ay_workers :: "int \<Rightarrow> WorkerState"
  ay_clients :: "int \<Rightarrow> ClientPc option"

definition AdiSys_start :: AdiSys where
  "AdiSys_start = \<lparr> ay_running = True, ay_workers = (\<lambda>g. \<lparr> ws_queue = [], ws_stopping = False, ws_pc = WIdle \<rparr>), ay_clients = (\<lambda>c. None) \<rparr>"

section \<open>Steps\<close>

text \<open>The critical section of the worker loop; \<open>None\<close> while the condition variable keeps it waiting.\<close>

definition worker_wake :: "WorkerState \<Rightarrow> WorkerState option" where
  "worker_wake w =
     (if ws_pc w \<noteq> WIdle then None
      else if \<not> (ws_stopping w \<or> ws_queue w \<noteq> []) then None
      else if ws_stopping w \<and> ws_queue w = [] then Some (w \<lparr> ws_pc := WExited \<rparr>)
      else case ws_queue w of
        [] \<Rightarrow> None
      | (c, p) # q \<Rightarrow> Some (w \<lparr> ws_queue := q, ws_pc := WBusy c p \<rparr>))"

definition set_worker :: "int \<Rightarrow> WorkerState \<Rightarrow> AdiSys \<Rightarrow> AdiSys" where
  "set_worker g w sys = sys \<lparr> ay_workers := (ay_workers sys)(g := w) \<rparr>"

definition set_client :: "int \<Rightarrow> ClientPc option \<Rightarrow> AdiSys \<Rightarrow> AdiSys" where
  "set_client c pc sys = sys \<lparr> ay_clients := (ay_clients sys)(c := pc) \<rparr>"

text \<open>\<^verbatim>\<open>set_value\<close> or \<^verbatim>\<open>set_exception\<close> on the promise of the task of client \<open>c\<close>.\<close>

definition fulfil :: "int \<Rightarrow> GpuPayload res \<Rightarrow> AdiSys \<Rightarrow> AdiSys" where
  "fulfil c r sys = (case ay_clients sys c of Some (Waiting p g) \<Rightarrow> set_client c (Some (Answered p g r)) sys | _ \<Rightarrow> sys)"

text \<open>The end of \<^verbatim>\<open>gpu_worker_loop\<close>'s turn.\<close>

definition worker_finish :: "AdiComputeFn \<Rightarrow> int \<Rightarrow> AdiSys \<Rightarrow> AdiSys option" where
  "worker_finish compute g sys =
     (case ws_pc (ay_workers sys g) of
        WBusy c p \<Rightarrow> Some (set_worker g ((ay_workers sys g) \<lparr> ws_pc := WIdle \<rparr>) (fulfil c (compute p g) sys))
      | _ \<Rightarrow> None)"

text \<open>The push to the queue in \<^verbatim>\<open>session_loop\<close>.\<close>

definition enqueue :: "int \<Rightarrow> AdiSys \<Rightarrow> AdiSys option" where
  "enqueue c sys =
     (case ay_clients sys c of
        Some (Placed p g) \<Rightarrow>
          let w = ay_workers sys g in
          Some (set_client c (Some (Waiting p g)) (set_worker g (w \<lparr> ws_queue := ws_queue w @ [(c, p)] \<rparr>) sys))
      | _ \<Rightarrow> None)"

definition stop_worker :: "int \<Rightarrow> AdiSys \<Rightarrow> AdiSys" where
  "stop_worker g sys = set_worker g ((ay_workers sys g) \<lparr> ws_stopping := True \<rparr>) sys"

inductive worker_step :: "AdiComputeFn \<Rightarrow> int \<Rightarrow> AdiSys \<Rightarrow> AdiSys \<Rightarrow> bool" for compute g where
  wake: "worker_wake (ay_workers sys g) = Some w \<Longrightarrow> worker_step compute g sys (set_worker g w sys)"
| finish: "worker_finish compute g sys = Some sys' \<Longrightarrow> worker_step compute g sys sys'"

text \<open>All threads, for \<open>n\<close> GPUs.\<close>

inductive adi_step :: "AdiComputeFn \<Rightarrow> int \<Rightarrow> AdiSys \<Rightarrow> AdiSys \<Rightarrow> bool" for compute n where
  connect: "ay_clients sys c = None \<Longrightarrow> adi_step compute n sys (set_client c (Some Reading) sys)"
| request: "ay_clients sys c = Some Reading \<Longrightarrow> ay_running sys \<Longrightarrow> in_range n g \<Longrightarrow> adi_step compute n sys (set_client c (Some (Placed p g)) sys)"
| push: "enqueue c sys = Some sys' \<Longrightarrow> adi_step compute n sys sys'"
| worker: "in_range n g \<Longrightarrow> worker_step compute g sys sys' \<Longrightarrow> adi_step compute n sys sys'"
| reply: "ay_clients sys c = Some (Answered p g (Inr r)) \<Longrightarrow> adi_step compute n sys (set_client c (Some Reading) sys)"
| disconnect: "ay_clients sys c = Some Reading \<or> ay_clients sys c = Some (Answered p g r) \<Longrightarrow> adi_step compute n sys (set_client c None sys)"
| stop: "adi_step compute n sys (sys \<lparr> ay_running := False \<rparr>)"
| stopping: "\<not> ay_running sys \<Longrightarrow> adi_step compute n sys (stop_worker g sys)"

section \<open>The invariant\<close>

definition holds_task :: "WorkerState \<Rightarrow> int \<times> GpuPayload \<Rightarrow> bool" where
  "holds_task w x \<longleftrightarrow> x \<in> set (ws_queue w) \<or> ws_pc w = WBusy (fst x) (snd x)"

definition worker_tasks :: "WorkerState \<Rightarrow> int list" where
  "worker_tasks w = (case ws_pc w of WBusy c p \<Rightarrow> [c] | _ \<Rightarrow> []) @ map fst (ws_queue w)"

definition adi_inv :: "AdiComputeFn \<Rightarrow> int \<Rightarrow> AdiSys \<Rightarrow> bool" where
  "adi_inv compute n sys \<longleftrightarrow>
     (\<forall>c p g. ay_clients sys c = Some (Waiting p g) \<longleftrightarrow> holds_task (ay_workers sys g) (c, p)) \<and>
     (\<forall>g. distinct (worker_tasks (ay_workers sys g))) \<and>
     (\<forall>c p g. ay_clients sys c = Some (Placed p g) \<or> ay_clients sys c = Some (Waiting p g) \<longrightarrow> in_range n g) \<and>
     (\<forall>c p g r. ay_clients sys c = Some (Answered p g r) \<longrightarrow> r = compute p g) \<and>
     (\<forall>g. ws_pc (ay_workers sys g) = WExited \<longrightarrow> ws_stopping (ay_workers sys g)) \<and>
     (\<forall>g. ws_stopping (ay_workers sys g) \<longrightarrow> \<not> ay_running sys)"

lemma adi_inv_start: "adi_inv compute n AdiSys_start"
  by (simp add: adi_inv_def AdiSys_start_def holds_task_def worker_tasks_def)

lemma waiting_iff: "adi_inv compute n sys \<Longrightarrow> ay_clients sys c = Some (Waiting p g) \<longleftrightarrow> holds_task (ay_workers sys g) (c, p)"
  by (simp add: adi_inv_def)

lemma worker_wake_cases:
  assumes "worker_wake w = Some w'"
  obtains (exit) "ws_pc w = WIdle" "ws_stopping w" "ws_queue w = []" "w' = w \<lparr> ws_pc := WExited \<rparr>"
  | (take) c p q where "ws_pc w = WIdle" "ws_queue w = (c, p) # q" "w' = w \<lparr> ws_queue := q, ws_pc := WBusy c p \<rparr>"
  using assms by (auto simp: worker_wake_def split: if_splits list.splits prod.splits)

lemma worker_wake_holds:
  assumes "worker_wake w = Some w'"
  shows "holds_task w' x \<longleftrightarrow> holds_task w x" "worker_tasks w' = worker_tasks w" "ws_stopping w' = ws_stopping w"
    "ws_pc w' = WExited \<Longrightarrow> ws_stopping w"
  using assms by (cases rule: worker_wake_cases; cases x; auto simp: holds_task_def worker_tasks_def)+

lemma worker_tasks_iff: "c \<in> set (worker_tasks w) \<longleftrightarrow> (\<exists>p. holds_task w (c, p))"
  by (cases "ws_pc w") (force simp: worker_tasks_def holds_task_def)+

text \<open>A step of a session that neither starts nor ends waiting.\<close>

lemma adi_inv_set_client:
  assumes "adi_inv compute n sys" "\<And>p g. ay_clients sys c \<noteq> Some (Waiting p g)" "\<And>p g. pc \<noteq> Some (Waiting p g)"
    "\<And>p g. pc = Some (Placed p g) \<Longrightarrow> in_range n g" "\<And>p g r. pc \<noteq> Some (Answered p g r)"
  shows "adi_inv compute n (set_client c pc sys)"
proof -
  have "(if c' = c then pc else ay_clients sys c') = Some (Waiting p g) \<longleftrightarrow> holds_task (ay_workers sys g) (c', p)" for c' p g
    using waiting_iff [OF assms(1)] assms(2,3) by (cases "c' = c") auto
  with assms show ?thesis by (simp add: adi_inv_def set_client_def)
qed

lemma adi_inv_enqueue:
  assumes "adi_inv compute n sys" "enqueue c sys = Some sys'"
  shows "adi_inv compute n sys'"
proof -
  from assms(2) obtain p g where pl: "ay_clients sys c = Some (Placed p g)"
    and sys': "sys' = set_client c (Some (Waiting p g))
      (set_worker g ((ay_workers sys g) \<lparr> ws_queue := ws_queue (ay_workers sys g) @ [(c, p)] \<rparr>) sys)"
    by (auto simp: enqueue_def Let_def split: option.splits ClientPc.splits)
  let ?w = "ay_workers sys g" let ?w' = "?w \<lparr> ws_queue := ws_queue ?w @ [(c, p)] \<rparr>"
  have holds: "holds_task ?w' x \<longleftrightarrow> holds_task ?w x \<or> x = (c, p)" for x by (auto simp: holds_task_def)
  have free: "\<not> holds_task (ay_workers sys g') (c, p')" for g' p' using waiting_iff [OF assms(1), of c p' g'] pl by simp
  then have "c \<notin> set (worker_tasks ?w)" by (simp add: worker_tasks_iff)
  then have "distinct (worker_tasks ?w')" using assms(1) by (simp add: adi_inv_def worker_tasks_def)
  moreover have "ay_clients sys' c' = Some (Waiting p' g') \<longleftrightarrow> holds_task (ay_workers sys' g') (c', p')" for c' p' g'
    using waiting_iff [OF assms(1), of c' p' g'] holds [of "(c', p')"] free [of g' p'] by (auto simp: sys' set_client_def set_worker_def)
  ultimately show ?thesis using assms(1) pl by (auto simp: adi_inv_def sys' set_client_def set_worker_def)
qed

lemma adi_inv_finish:
  assumes "adi_inv compute n sys" "worker_finish compute g sys = Some sys'"
  shows "adi_inv compute n sys'"
    and "\<exists>c p. ws_pc (ay_workers sys g) = WBusy c p \<and>
      sys' = set_worker g ((ay_workers sys g) \<lparr> ws_pc := WIdle \<rparr>) (set_client c (Some (Answered p g (compute p g))) sys)"
proof -
  from assms(2) obtain c p where pc: "ws_pc (ay_workers sys g) = WBusy c p"
    and s1: "sys' = set_worker g ((ay_workers sys g) \<lparr> ws_pc := WIdle \<rparr>) (fulfil c (compute p g) sys)"
    by (auto simp: worker_finish_def split: WorkerPc.splits)
  let ?w = "ay_workers sys g" let ?w' = "?w \<lparr> ws_pc := WIdle \<rparr>"
  have wait: "ay_clients sys c = Some (Waiting p g)" using waiting_iff [OF assms(1)] pc by (simp add: holds_task_def)
  then have sys': "sys' = set_worker g ?w' (set_client c (Some (Answered p g (compute p g))) sys)" using s1 by (simp add: fulfil_def)
  with pc show "\<exists>c p. ws_pc ?w = WBusy c p \<and> sys' = set_worker g ?w' (set_client c (Some (Answered p g (compute p g))) sys)" by blast
  have "distinct (worker_tasks ?w)" using assms(1) by (simp add: adi_inv_def)
  then have dist: "distinct (worker_tasks ?w')" and out: "(c, p') \<notin> set (ws_queue ?w)" for p'
    using pc by (force simp: worker_tasks_def)+
  have holds: "holds_task ?w' x \<longleftrightarrow> holds_task ?w x \<and> fst x \<noteq> c" for x
    using pc out by (cases x) (auto simp: holds_task_def)
  have only: "holds_task (ay_workers sys g') (c, p') \<Longrightarrow> g' = g" for g' p' using waiting_iff [OF assms(1), of c p' g'] wait by simp
  note upd = sys' set_client_def set_worker_def
  have "ay_clients sys' c' = Some (Waiting p' g') \<longleftrightarrow> holds_task (ay_workers sys' g') (c', p')" for c' p' g'
    using waiting_iff [OF assms(1), of c' p' g'] holds [of "(c', p')"] only [of g' p'] by (auto simp: upd)
  moreover have "distinct (worker_tasks (ay_workers sys' g'))" for g' using assms(1) dist by (simp add: adi_inv_def upd)
  moreover have "in_range n g'" if "ay_clients sys' c' = Some (Placed p' g') \<or> ay_clients sys' c' = Some (Waiting p' g')" for c' p' g'
    using assms(1) that unfolding adi_inv_def by (auto simp: upd split: if_splits)
  moreover have "r = compute p' g'" if "ay_clients sys' c' = Some (Answered p' g' r)" for c' p' g' r
    using assms(1) that unfolding adi_inv_def by (auto simp: upd split: if_splits)
  moreover have "(ws_pc (ay_workers sys' g') = WExited \<longrightarrow> ws_stopping (ay_workers sys' g')) \<and> (ws_stopping (ay_workers sys' g') \<longrightarrow> \<not> ay_running sys')" for g'
    using assms(1) unfolding adi_inv_def by (auto simp: upd)
  ultimately show "adi_inv compute n sys'" unfolding adi_inv_def by blast
qed

lemma adi_inv_wake:
  assumes "adi_inv compute n sys" "worker_wake (ay_workers sys g) = Some w"
  shows "adi_inv compute n (set_worker g w sys)"
  using assms(1) worker_wake_holds [OF assms(2)] by (auto simp: adi_inv_def set_worker_def)

lemma adi_inv_worker: "worker_step compute g sys sys' \<Longrightarrow> adi_inv compute n sys \<Longrightarrow> adi_inv compute n sys'"
  by (induction rule: worker_step.induct) (blast intro: adi_inv_wake adi_inv_finish)+

lemma adi_step_inv: "adi_step compute n sys sys' \<Longrightarrow> adi_inv compute n sys \<Longrightarrow> adi_inv compute n sys'"
proof (induction rule: adi_step.induct)
  case (stopping sys g)
  then show ?case by (simp add: adi_inv_def stop_worker_def set_worker_def holds_task_def worker_tasks_def)
next
  case (stop sys)
  then show ?case by (simp add: adi_inv_def)
qed (auto intro: adi_inv_set_client adi_inv_enqueue adi_inv_worker)

lemma adi_run_inv: "(adi_step compute n)\<^sup>*\<^sup>* AdiSys_start sys \<Longrightarrow> adi_inv compute n sys"
proof (induction rule: rtranclp_induct)
  case base
  show ?case by (rule adi_inv_start)
qed (rule adi_step_inv)

section \<open>Waiting sessions are served\<close>

lemma worker_finish_step:
  assumes "adi_inv compute n sys" "ws_pc (ay_workers sys g) = WBusy c p"
  obtains sys' where "worker_step compute g sys sys'" "adi_inv compute n sys'" "ws_pc (ay_workers sys' g) = WIdle"
    "ws_queue (ay_workers sys' g) = ws_queue (ay_workers sys g)" "ay_clients sys' c = Some (Answered p g (compute p g))"
proof -
  obtain sys' where f: "worker_finish compute g sys = Some sys'" using assms(2) by (simp add: worker_finish_def)
  from adi_inv_finish [OF assms(1) f] assms(2) f show thesis
    by (intro that [of sys']) (auto simp: set_client_def set_worker_def intro: worker_step.finish)
qed

lemma worker_round:
  assumes "adi_inv compute n sys" "ws_pc (ay_workers sys g) = WIdle" "ws_queue (ay_workers sys g) = (c, p) # q"
  obtains sys' where "(worker_step compute g ^^ 2) sys sys'" "adi_inv compute n sys'" "ws_pc (ay_workers sys' g) = WIdle"
    "ws_queue (ay_workers sys' g) = q" "ay_clients sys' c = Some (Answered p g (compute p g))"
proof -
  let ?w = "(ay_workers sys g) \<lparr> ws_queue := q, ws_pc := WBusy c p \<rparr>"
  have w: "worker_wake (ay_workers sys g) = Some ?w" using assms(2,3) by (simp add: worker_wake_def)
  have 1: "worker_step compute g sys (set_worker g ?w sys)" using w by (rule worker_step.wake)
  have "ws_pc (ay_workers (set_worker g ?w sys) g) = WBusy c p" by (simp add: set_worker_def)
  from worker_finish_step [OF adi_inv_wake [OF assms(1) w] this] obtain sys' where
    2: "worker_step compute g (set_worker g ?w sys) sys'" and rest: "adi_inv compute n sys'" "ws_pc (ay_workers sys' g) = WIdle"
      "ws_queue (ay_workers sys' g) = ws_queue (ay_workers (set_worker g ?w sys) g)" "ay_clients sys' c = Some (Answered p g (compute p g))" .
  have "(worker_step compute g ^^ 2) sys sys'" using 1 2 by (auto simp: numeral_2_eq_2)
  with rest show thesis by (intro that [of sys']) (simp_all add: set_worker_def)
qed

lemma worker_serves:
  assumes "adi_inv compute n sys" "ws_pc (ay_workers sys g) = WIdle" "ws_queue (ay_workers sys g) = xs @ (c, p) # ys"
  shows "\<exists>sys'. (worker_step compute g ^^ (2 * length xs + 2)) sys sys' \<and> ay_clients sys' c = Some (Answered p g (compute p g))"
  using assms
proof (induction xs arbitrary: sys)
  case Nil
  then obtain sys' where "(worker_step compute g ^^ 2) sys sys'" "ay_clients sys' c = Some (Answered p g (compute p g))"
    using worker_round [OF Nil(1,2)] by (metis append_Nil)
  then show ?case unfolding list.size mult_0_right add_0 by blast
next
  case (Cons x xs)
  obtain c0 p0 where "x = (c0, p0)" by fastforce
  with Cons.prems obtain sys1 where 1: "(worker_step compute g ^^ 2) sys sys1" "adi_inv compute n sys1"
      "ws_pc (ay_workers sys1 g) = WIdle" "ws_queue (ay_workers sys1 g) = xs @ (c, p) # ys"
    using worker_round [OF Cons.prems(1,2), of c0 p0 "xs @ (c, p) # ys"] by (metis append_Cons)
  from Cons.IH [OF 1(2-4)] obtain sys2 where 2: "(worker_step compute g ^^ (2 * length xs + 2)) sys1 sys2"
      "ay_clients sys2 c = Some (Answered p g (compute p g))" by blast
  have "(worker_step compute g ^^ (2 + (2 * length xs + 2))) sys sys2" by (rule relpowp_trans [OF 1(1) 2(1)])
  with 2(2) show ?case by (intro exI [of _ sys2]) (simp add: add.commute)
qed

lemma waiting_served:
  assumes "adi_inv compute n sys" "ay_clients sys c = Some (Waiting p g)" "ws_pc (ay_workers sys g) \<noteq> WExited"
  shows "\<exists>k sys'. k \<le> 2 * length (ws_queue (ay_workers sys g)) + 1 \<and> (worker_step compute g ^^ k) sys sys' \<and>
    ay_clients sys' c = Some (Answered p g (compute p g))"
proof -
  let ?w = "ay_workers sys g"
  have "holds_task ?w (c, p)" using waiting_iff [OF assms(1)] assms(2) by simp
  then consider (busy) "ws_pc ?w = WBusy c p" | (idle) xs ys where "ws_queue ?w = xs @ (c, p) # ys" "ws_pc ?w = WIdle"
    | (other) xs ys c0 p0 where "ws_queue ?w = xs @ (c, p) # ys" "ws_pc ?w = WBusy c0 p0"
    using assms(3) by (cases "ws_pc ?w") (auto simp: holds_task_def dest: split_list)
  then show ?thesis
  proof cases
    case busy
    then obtain sys' where "worker_step compute g sys sys'" "ay_clients sys' c = Some (Answered p g (compute p g))"
      using worker_finish_step [OF assms(1)] by metis
    then show ?thesis by (intro exI [of _ 1] exI [of _ sys']) (simp add: eq_OO)
  next
    case idle
    from worker_serves [OF assms(1) idle(2,1)] idle(1) show ?thesis by (intro exI [of _ "2 * length xs + 2"]) simp
  next
    case other
    then obtain sys1 where 1: "worker_step compute g sys sys1" "adi_inv compute n sys1" "ws_pc (ay_workers sys1 g) = WIdle"
        "ws_queue (ay_workers sys1 g) = xs @ (c, p) # ys"
      using worker_finish_step [OF assms(1)] by metis
    from worker_serves [OF 1(2-4)] obtain sys2 where 2: "(worker_step compute g ^^ (2 * length xs + 2)) sys1 sys2"
        "ay_clients sys2 c = Some (Answered p g (compute p g))" by blast
    have "(worker_step compute g ^^ Suc (2 * length xs + 2)) sys sys2" using relpowp_Suc_I2 [of _ sys sys1] 1(1) 2(1) by metis
    with 2(2) other(1) show ?thesis by (intro exI [of _ "Suc (2 * length xs + 2)"] exI [of _ sys2]) simp
  qed
qed

section \<open>A session that is never served\<close>

definition stranded :: "int \<Rightarrow> GpuPayload \<Rightarrow> int \<Rightarrow> AdiSys \<Rightarrow> bool" where
  "stranded c p g sys \<longleftrightarrow> ay_clients sys c = Some (Waiting p g) \<and> ws_pc (ay_workers sys g) = WExited"

lemma stranded_worker:
  assumes "worker_step compute g' sys sys'" "adi_inv compute n sys" "stranded c p g sys"
  shows "stranded c p g sys'"
  using assms
proof (induction rule: worker_step.induct)
  case (wake sys w)
  then show ?case by (auto simp: stranded_def set_worker_def worker_wake_def)
next
  case (finish sys sys')
  from adi_inv_finish(2) [OF finish(2,1)] obtain c' p' where b: "ws_pc (ay_workers sys g') = WBusy c' p'"
    "sys' = set_worker g' ((ay_workers sys g') \<lparr> ws_pc := WIdle \<rparr>) (set_client c' (Some (Answered p' g' (compute p' g'))) sys)" by blast
  have "ay_clients sys c' = Some (Waiting p' g')" using waiting_iff [OF finish(2)] b(1) by (simp add: holds_task_def)
  then have "c' \<noteq> c" "g' \<noteq> g" using finish(3) b(1) by (auto simp: stranded_def)
  with finish(3) b(2) show ?case by (simp add: stranded_def set_worker_def set_client_def)
qed

lemma stranded_step:
  assumes "adi_step compute n sys sys'" "adi_inv compute n sys" "stranded c p g sys"
  shows "stranded c p g sys'"
  using assms
proof (induction rule: adi_step.induct)
  case (worker g' sys sys')
  then show ?case using stranded_worker by blast
next
  case (push c' sys sys')
  then show ?case
    by (auto simp: stranded_def enqueue_def set_client_def set_worker_def Let_def split: option.splits ClientPc.splits)
qed (auto simp: stranded_def set_client_def stop_worker_def set_worker_def)

lemma stranded_forever:
  assumes "(adi_step compute n)\<^sup>*\<^sup>* sys sys'" "adi_inv compute n sys" "stranded c p g sys"
  shows "adi_inv compute n sys' \<and> stranded c p g sys'"
  using assms by (induction rule: rtranclp_induct) (auto intro: adi_step_inv stranded_step)

section \<open>Properties\<close>

text \<open>C8. Whatever the interleaving of sessions, workers and the stop, the value a session finds in its future is the compute function's
  value at the payload of that session's own request and at the GPU it was placed on.\<close>

theorem adi_answer_is_own:
  assumes "(adi_step compute n)\<^sup>*\<^sup>* AdiSys_start sys" "ay_clients sys c = Some (Answered p g r)"
  shows "r = compute p g"
  using adi_run_inv [OF assms(1)] assms(2) by (simp add: adi_inv_def)

text \<open>The run in which client 7 asks, is placed on GPU 0 and enqueued.\<close>

definition one_waiting :: "bool \<Rightarrow> AdiSys" where
  "one_waiting running = AdiSys_start \<lparr> ay_running := running, ay_clients := [7 \<mapsto> Waiting adi_sample 0],
     ay_workers := (ay_workers AdiSys_start)(0 := \<lparr> ws_queue = [(7, adi_sample)], ws_stopping = False, ws_pc = WIdle \<rparr>) \<rparr>"

lemma one_placed: "(adi_step compute 1)\<^sup>*\<^sup>* AdiSys_start (set_client 7 (Some (Placed adi_sample 0)) AdiSys_start)"
proof -
  let ?a = "set_client 7 (Some Reading) AdiSys_start"
  let ?b = "set_client 7 (Some (Placed adi_sample 0)) ?a"
  have "adi_step compute 1 AdiSys_start ?a" by (rule adi_step.connect) (simp add: AdiSys_start_def)
  moreover have "adi_step compute 1 ?a ?b" by (rule adi_step.request) (simp_all add: AdiSys_start_def set_client_def)
  moreover have "?b = set_client 7 (Some (Placed adi_sample 0)) AdiSys_start" by (simp add: set_client_def)
  ultimately show ?thesis by (metis converse_rtranclp_into_rtranclp rtranclp.rtrancl_refl)
qed

lemma one_waiting_reachable: "(adi_step compute 1)\<^sup>*\<^sup>* AdiSys_start (one_waiting True)"
proof -
  have "adi_step compute 1 (set_client 7 (Some (Placed adi_sample 0)) AdiSys_start) (one_waiting True)"
    by (rule adi_step.push [of 7]) (simp add: enqueue_def set_client_def set_worker_def one_waiting_def AdiSys_start_def fun_eq_iff)
  with one_placed show ?thesis by (rule rtranclp.rtrancl_into_rtrancl)
qed

theorem adi_answer_is_own_witness:
  "\<exists>sys r. (adi_step (default_gpu_compute None) 1)\<^sup>*\<^sup>* AdiSys_start sys \<and> ay_clients sys 7 = Some (Answered adi_sample 0 r) \<and>
     r = Inr (map double_mul2 adi_sample)"
proof -
  let ?c = "default_gpu_compute None"
  have inv: "adi_inv ?c 1 (one_waiting True)" using adi_run_inv [OF one_waiting_reachable] .
  from waiting_served [OF this, of 7 adi_sample 0] obtain k sys where run: "(worker_step ?c 0 ^^ k) (one_waiting True) sys"
    "ay_clients sys 7 = Some (Answered adi_sample 0 (?c adi_sample 0))" by (auto simp: one_waiting_def)
  have "worker_step ?c 0 \<le> adi_step ?c 1" by (auto intro: adi_step.worker)
  with run(1) have "(adi_step ?c 1)\<^sup>*\<^sup>* (one_waiting True) sys" by (meson relpowp_imp_rtranclp rtranclp_mono predicate2D)
  then have r: "(adi_step ?c 1)\<^sup>*\<^sup>* AdiSys_start sys" using one_waiting_reachable rtranclp_trans by metis
  from adi_answer_is_own [OF r run(2)] r run(2) show ?thesis by (auto simp: default_gpu_compute_def)
qed

text \<open>C21. While the server runs, a waiting session is served by steps of its own worker alone, and by few of them: at most two per queued task
  and one for a task in progress.\<close>

theorem adi_waiting_served:
  assumes "(adi_step compute n)\<^sup>*\<^sup>* AdiSys_start sys" "ay_running sys" "ay_clients sys c = Some (Waiting p g)"
  shows "\<exists>k sys'. k \<le> 2 * length (ws_queue (ay_workers sys g)) + 1 \<and> (worker_step compute g ^^ k) sys sys' \<and>
    ay_clients sys' c = Some (Answered p g (compute p g))"
proof -
  have inv: "adi_inv compute n sys" using assms(1) by (rule adi_run_inv)
  then have "ws_pc (ay_workers sys g) \<noteq> WExited" using assms(2) by (auto simp: adi_inv_def)
  with inv assms(3) show ?thesis by (rule waiting_served)
qed

theorem adi_waiting_served_witness:
  "\<exists>k sys'. k \<le> 3 \<and> (worker_step (default_gpu_compute None) 0 ^^ k) (one_waiting True) sys' \<and>
     ay_clients sys' 7 = Some (Answered adi_sample 0 (Inr (map double_mul2 adi_sample)))"
proof -
  have "ay_running (one_waiting True)" "ay_clients (one_waiting True) 7 = Some (Waiting adi_sample 0)"
      "length (ws_queue (ay_workers (one_waiting True) 0)) = 1"
    by (simp_all add: one_waiting_def AdiSys_start_def)
  with adi_waiting_served [of "default_gpu_compute None" 1 "one_waiting True" 7 adi_sample 0] one_waiting_reachable obtain k sys' where
    "k \<le> 3" "(worker_step (default_gpu_compute None) 0 ^^ k) (one_waiting True) sys'"
    "ay_clients sys' 7 = Some (Answered adi_sample 0 (default_gpu_compute None adi_sample 0))" by auto
  then show ?thesis by (intro exI [of _ k] exI [of _ sys']) (simp add: default_gpu_compute_def)
qed

text \<open>C36. The stop can strand a session: if the worker leaves between the placement of a task and its enqueueing, the task stays in the queue of a
  worker that no longer runs, the session waits for its future in every later state, and the join of the session threads never returns.\<close>

theorem adi_stop_strands_session:
  "\<exists>sys. (adi_step compute 1)\<^sup>*\<^sup>* AdiSys_start sys \<and>
    (\<forall>sys'. (adi_step compute 1)\<^sup>*\<^sup>* sys sys' \<longrightarrow> ay_clients sys' 7 = Some (Waiting adi_sample 0))"
proof -
  let ?s0 = "set_client 7 (Some (Placed adi_sample 0)) AdiSys_start"
  let ?s1 = "?s0 \<lparr> ay_running := False \<rparr>"
  let ?s2 = "stop_worker 0 ?s1"
  let ?s3 = "set_worker 0 ((ay_workers ?s2 0) \<lparr> ws_pc := WExited \<rparr>) ?s2"
  obtain s4 where s4: "enqueue 7 ?s3 = Some s4" by (simp add: enqueue_def set_worker_def stop_worker_def set_client_def)
  have "adi_step compute 1 ?s0 ?s1" by (rule adi_step.stop)
  moreover have "adi_step compute 1 ?s1 ?s2" by (rule adi_step.stopping) simp
  moreover have "adi_step compute 1 ?s2 ?s3"
    by (intro adi_step.worker [where g = 0] worker_step.wake)
      (simp_all add: worker_wake_def stop_worker_def set_worker_def set_client_def AdiSys_start_def)
  moreover have "adi_step compute 1 ?s3 s4" using s4 by (rule adi_step.push)
  ultimately have "(adi_step compute 1)\<^sup>*\<^sup>* ?s0 s4" by (elim converse_rtranclp_into_rtranclp) (rule rtranclp.rtrancl_refl)
  then have run: "(adi_step compute 1)\<^sup>*\<^sup>* AdiSys_start s4" by (rule rtranclp_trans [OF one_placed])
  have "stranded 7 adi_sample 0 s4"
    using s4 by (auto simp: stranded_def enqueue_def set_worker_def stop_worker_def set_client_def Let_def)
  then have "ay_clients sys' 7 = Some (Waiting adi_sample 0)" if "(adi_step compute 1)\<^sup>*\<^sup>* s4 sys'" for sys'
    using stranded_forever [OF that adi_run_inv [OF run]] by (simp add: stranded_def)
  with run show ?thesis by blast
qed

theorem adi_stop_strands_session_witness:
  "\<exists>sys. (adi_step (default_gpu_compute None) 1)\<^sup>*\<^sup>* AdiSys_start sys \<and> ay_clients sys 7 = Some (Waiting adi_sample 0)"
  using adi_stop_strands_session [of "default_gpu_compute None"] by blast

end
