(* ===== verification/Server_Lifecycle.thy ===== *)
theory Server_Lifecycle
  imports Broker_Server Adi_Workers Std_Numbers
begin

text \<open>
  How the broker (\<^verbatim>\<open>src/broker_server.cpp\<close>) and the ADI server (\<^verbatim>\<open>src/adi_server.cpp\<close>) open their listening socket, accept clients, reap
  session threads, stop and join.  The two servers have the same structure; what differs is stated separately.  The results of the socket calls are
  arguments.  The interleaving of a thread that calls \<^verbatim>\<open>stop\<close> with the thread that runs the server is a step relation whose steps are the single
  statements that touch the listening socket.  The termination of the session loop is here as well.
\<close>

section \<open>The listening socket\<close>

definition kInvalidSocket :: int where "kInvalidSocket = -1"

text \<open>What the calls return; an error is the text of \<^verbatim>\<open>strerror\<close>.\<close>

record Os =
  os_socket :: int
  os_setsockopt :: "string option"
  os_bind :: "u16 \<Rightarrow> string option"
  os_listen :: "string option"

text \<open>The result and the descriptors closed.  A failing call closes the socket and throws.\<close>

fun configure_listener :: "int \<Rightarrow> (string \<times> string option) list \<Rightarrow> int res \<times> int list" where
  "configure_listener fd [] = (Inr fd, [])"
| "configure_listener fd ((msg, None) # calls) = configure_listener fd calls"
| "configure_listener fd ((msg, Some e) # calls) = (Inl (msg @ e), [fd])"

definition broker_open_listener :: "Os \<Rightarrow> int \<Rightarrow> int res \<times> int list" where
  "broker_open_listener os port =
     (if os_socket os = kInvalidSocket then (Inl ''failed to create broker listener socket'', [])
      else configure_listener (os_socket os)
        [(''failed to set SO_REUSEADDR: '', os_setsockopt os),
         (''failed to bind broker listener: '', os_bind os (word_of_int port)),
         (''failed to listen on broker listener: '', os_listen os)])"

definition adi_open_listener :: "Os \<Rightarrow> int \<Rightarrow> int res \<times> int list" where
  "adi_open_listener os port =
     (if os_socket os = kInvalidSocket then (Inl ''Failed to create ADI server socket.'', [])
      else configure_listener (os_socket os)
        [(''Failed to configure ADI server socket: '', os_setsockopt os),
         (''Failed to bind ADI server socket: '', os_bind os (word_of_int port)),
         (''Failed to listen on ADI server socket: '', os_listen os)])"

section \<open>Accepting\<close>

datatype AcceptResult = Accepted int | AcceptEintr | AcceptFailed string
datatype 'a AcceptAction = AcceptBreak | AcceptAgain | AcceptThrow string | AcceptNew 'a

text \<open>The check after \<^verbatim>\<open>accept\<close>; \<open>run_flag\<close> is \<^verbatim>\<open>running_\<close> at that time.\<close>

definition broker_accept :: "bool \<Rightarrow> AcceptResult \<Rightarrow> int AcceptAction" where
  "broker_accept run_flag r =
     (case r of
        Accepted c \<Rightarrow> AcceptNew c
      | AcceptEintr \<Rightarrow> if \<not> run_flag then AcceptBreak else AcceptAgain
      | AcceptFailed e \<Rightarrow> if \<not> run_flag then AcceptBreak else AcceptThrow (''accept failed: '' @ e))"

text \<open>The ADI server numbers its clients with a 64-bit counter and gives up when the number does not fit an \<^verbatim>\<open>int\<close>.\<close>

definition adi_accept :: "bool \<Rightarrow> AcceptResult \<Rightarrow> u64 \<Rightarrow> (int \<times> int) AcceptAction \<times> u64" where
  "adi_accept run_flag r raw_client_id =
     (case broker_accept run_flag r of
        AcceptNew c \<Rightarrow>
          (if 2 ^ 31 - 1 < unat raw_client_id then AcceptThrow ''ADI server exhausted client identifier space.''
           else AcceptNew (c, int (unat raw_client_id)), raw_client_id + 1)
      | AcceptBreak \<Rightarrow> (AcceptBreak, raw_client_id)
      | AcceptAgain \<Rightarrow> (AcceptAgain, raw_client_id)
      | AcceptThrow e \<Rightarrow> (AcceptThrow e, raw_client_id))"

text \<open>A session thread and whether it is done; joining waits for it.\<close>

definition reap_finished_sessions :: "bool \<Rightarrow> ('a \<times> bool) list \<Rightarrow> ('a \<times> bool) list" where
  "reap_finished_sessions join_all sessions = filter (\<lambda>(t, finished). \<not> (join_all \<or> finished)) sessions"

lemma reap_join_all [simp]: "reap_finished_sessions True sessions = []"
  by (simp add: reap_finished_sessions_def)

text \<open>The client ids of the first \<open>n\<close> clients of an ADI server are \<open>1, \<dots>, n\<close>.\<close>

fun adi_accept_all :: "int list \<Rightarrow> u64 \<Rightarrow> (int \<times> int) list" where
  "adi_accept_all [] k = []"
| "adi_accept_all (c # cs) k = (case adi_accept True (Accepted c) k of (AcceptNew x, k) \<Rightarrow> x # adi_accept_all cs k | _ \<Rightarrow> [])"

lemma adi_client_ids: "unat k + length cs \<le> 2 ^ 31 \<Longrightarrow> adi_accept_all cs k = zip cs (map int [unat k..<unat k + length cs])"
proof (induction cs arbitrary: k)
  case (Cons c cs)
  then have k: "unat k < 2 ^ 31" by simp
  then have "unat (k + 1) = unat k + 1" by (simp add: unat_word_ariths take_bit_eq_mod)
  with Cons k show ?case by (simp add: adi_accept_def broker_accept_def upt_conv_Cons del: upt_Suc)
qed simp

section \<open>Stopping\<close>

text \<open>The next statement of \<^verbatim>\<open>stop\<close> and of the thread in \<^verbatim>\<open>run\<close>; an exception makes that thread call \<^verbatim>\<open>stop\<close> itself.\<close>

datatype StopPc = S_begin | S_shutdown | S_close | S_reset | S_clients | S_done
datatype RunPc = R_accept | R_stop StopPc | R_shutdown | R_close | R_reset | R_join | R_done

text \<open>\<open>lf_socket\<close> is \<^verbatim>\<open>listener_socket_\<close>, \<open>lf_closes\<close> the descriptors passed to \<^verbatim>\<open>close\<close> so far.\<close>

record Life =
  lf_running :: bool
  lf_socket :: int
  lf_closes :: "int list"
  lf_stop :: StopPc
  lf_run :: RunPc

definition close_socket :: "Life \<Rightarrow> Life" where
  "close_socket s = (if lf_socket s = kInvalidSocket then s else s \<lparr> lf_closes := lf_closes s @ [lf_socket s] \<rparr>)"

definition reset_socket :: "Life \<Rightarrow> Life" where
  "reset_socket s = s \<lparr> lf_socket := kInvalidSocket \<rparr>"

fun stop_statement :: "StopPc \<Rightarrow> Life \<Rightarrow> StopPc \<times> Life" where
  "stop_statement S_begin s = (if lf_running s then (S_shutdown, s \<lparr> lf_running := False \<rparr>) else (S_done, s))"
| "stop_statement S_shutdown s = (S_close, s)"
| "stop_statement S_close s = (S_reset, close_socket s)"
| "stop_statement S_reset s = (S_clients, reset_socket s)"
| "stop_statement S_clients s = (S_done, s)"
| "stop_statement S_done s = (S_done, s)"

inductive life_step :: "Life \<Rightarrow> Life \<Rightarrow> bool" where
  stop: "stop_statement (lf_stop s) s = (pc, s') \<Longrightarrow> life_step s (s' \<lparr> lf_stop := pc \<rparr>)"
| run_break: "lf_run s = R_accept \<Longrightarrow> \<not> lf_running s \<Longrightarrow> life_step s (s \<lparr> lf_run := R_shutdown \<rparr>)"
| run_throw: "lf_run s = R_accept \<Longrightarrow> life_step s (s \<lparr> lf_run := R_stop S_begin \<rparr>)"
| run_stop: "lf_run s = R_stop p \<Longrightarrow> stop_statement p s = (pc, s') \<Longrightarrow> life_step s (s' \<lparr> lf_run := (if pc = S_done then R_shutdown else R_stop pc) \<rparr>)"
| run_shutdown: "lf_run s = R_shutdown \<Longrightarrow> life_step s (s \<lparr> lf_run := R_close \<rparr>)"
| run_close: "lf_run s = R_close \<Longrightarrow> life_step s ((close_socket s) \<lparr> lf_run := R_reset \<rparr>)"
| run_reset: "lf_run s = R_reset \<Longrightarrow> life_step s ((reset_socket s) \<lparr> lf_run := R_join \<rparr>)"
| run_join: "lf_run s = R_join \<Longrightarrow> life_step s (s \<lparr> lf_run := R_done \<rparr>)"

definition Life_start :: "int \<Rightarrow> Life" where
  "Life_start fd = \<lparr> lf_running = True, lf_socket = fd, lf_closes = [], lf_stop = S_begin, lf_run = R_accept \<rparr>"

text \<open>Before a stop; after the stopping thread cleared the flag; after the running thread cleared it itself.\<close>

definition life_fresh :: "int \<Rightarrow> Life \<Rightarrow> bool" where
  "life_fresh fd s \<longleftrightarrow> lf_running s \<and> lf_stop s = S_begin \<and> lf_run s \<in> {R_accept, R_stop S_begin} \<and> lf_closes s = [] \<and> lf_socket s = fd"

definition life_stopped :: "int \<Rightarrow> Life \<Rightarrow> bool" where
  "life_stopped fd s \<longleftrightarrow> \<not> lf_running s \<and> lf_stop s \<noteq> S_begin \<and> lf_run s \<in> {R_accept, R_stop S_begin, R_shutdown, R_close, R_reset, R_join, R_done} \<and>
     lf_closes s \<in> {[], [fd], [fd, fd]} \<and>
     length (lf_closes s) \<le> (if lf_stop s \<in> {S_reset, S_clients, S_done} then 1 else 0) + (if lf_run s \<in> {R_reset, R_join, R_done} then 1 else 0) \<and>
     (lf_stop s \<in> {S_reset, S_clients, S_done} \<or> lf_run s \<in> {R_reset, R_join, R_done} \<longrightarrow> lf_closes s \<noteq> []) \<and>
     lf_socket s = (if lf_stop s \<in> {S_clients, S_done} \<or> lf_run s \<in> {R_join, R_done} then kInvalidSocket else fd)"

definition life_thrown :: "int \<Rightarrow> Life \<Rightarrow> bool" where
  "life_thrown fd s \<longleftrightarrow> \<not> lf_running s \<and> lf_stop s \<in> {S_begin, S_done} \<and> lf_run s \<notin> {R_accept, R_stop S_begin, R_stop S_done} \<and>
     lf_closes s = (if lf_run s \<in> {R_stop S_shutdown, R_stop S_close} then [] else [fd]) \<and>
     lf_socket s = (if lf_run s \<in> {R_stop S_shutdown, R_stop S_close, R_stop S_reset} then fd else kInvalidSocket)"

definition life_inv :: "int \<Rightarrow> Life \<Rightarrow> bool" where
  "life_inv fd s \<longleftrightarrow> life_fresh fd s \<or> life_stopped fd s \<or> life_thrown fd s"

lemmas life_defs = life_inv_def life_fresh_def life_stopped_def life_thrown_def close_socket_def reset_socket_def

lemma life_fresh_step:
  assumes "life_step s s'" "life_fresh fd s"
  shows "life_inv fd s'"
  using assms by (induction rule: life_step.induct) (auto simp: life_defs)

lemma life_thrown_step:
  assumes "life_step s s'" "life_thrown fd s" "fd \<noteq> kInvalidSocket"
  shows "life_thrown fd s'"
  using assms(1,2)
proof (induction rule: life_step.induct)
  case (stop s pc s')
  then show ?case by (auto simp: life_defs)
next
  case (run_stop s p pc s')
  then show ?case using assms(3) by (cases p) (auto simp: life_defs)
qed (auto simp: life_defs)

lemma life_stopped_stop:
  assumes "life_stopped fd s" "fd \<noteq> kInvalidSocket" "stop_statement (lf_stop s) s = (pc, s')"
  shows "life_stopped fd (s' \<lparr> lf_stop := pc \<rparr>)"
proof (cases "lf_stop s")
  case S_close
  then show ?thesis using assms by (cases "lf_run s \<in> {R_join, R_done}"; cases "lf_run s = R_reset") (auto simp: life_defs)
qed (use assms in \<open>auto simp: life_defs\<close>)

lemma life_stopped_step:
  assumes "life_step s s'" "life_stopped fd s" "fd \<noteq> kInvalidSocket"
  shows "life_stopped fd s'"
  using assms(1,2)
proof (induction rule: life_step.induct)
  case (stop s pc s')
  then show ?case using life_stopped_stop assms(3) by blast
next
  case (run_stop s p pc s')
  then have "p = S_begin" by (auto simp: life_stopped_def)
  with run_stop show ?case by (auto simp: life_stopped_def)
next
  case (run_close s)
  then show ?case using assms(3) by (cases "lf_stop s") (auto simp: life_stopped_def close_socket_def)
qed (auto simp: life_stopped_def reset_socket_def)

lemma life_inv_step: "life_step s s' \<Longrightarrow> life_inv fd s \<Longrightarrow> fd \<noteq> kInvalidSocket \<Longrightarrow> life_inv fd s'"
  using life_fresh_step life_stopped_step life_thrown_step by (auto simp: life_inv_def)

lemma life_inv_reachable: "life_step\<^sup>*\<^sup>* (Life_start fd) s \<Longrightarrow> fd \<noteq> kInvalidSocket \<Longrightarrow> life_inv fd s"
proof (induction rule: rtranclp_induct)
  case base
  then show ?case by (simp add: life_inv_def life_fresh_def Life_start_def)
qed (blast intro: life_inv_step)

text \<open>The stopping thread shuts the socket down; the running thread sees the flag and closes the socket; then the stopping thread closes it as well.\<close>

lemma double_close_run:
  assumes "fd \<noteq> kInvalidSocket"
  shows "life_step\<^sup>*\<^sup>* (Life_start fd) \<lparr> lf_running = False, lf_socket = kInvalidSocket, lf_closes = [fd, fd], lf_stop = S_done, lf_run = R_done \<rparr>"
proof -
  let ?s = "\<lambda>st sock cl r. \<lparr> lf_running = False, lf_socket = sock, lf_closes = cl, lf_stop = st, lf_run = r \<rparr>"
  have st: "life_step (?s st sock cl r) (s' \<lparr> lf_stop := pc \<rparr>)" if "stop_statement st (?s st sock cl r) = (pc, s')" for st sock cl r pc s'
    using life_step.stop [of "?s st sock cl r"] that by simp
  have "life_step (Life_start fd) (?s S_shutdown fd [] R_accept)"
    using life_step.stop [of "Life_start fd"] by (simp add: Life_start_def)
  moreover have "life_step (?s S_shutdown fd [] R_accept) (?s S_close fd [] R_accept)" using st [of S_shutdown fd "[]" R_accept] by simp
  moreover have "life_step (?s S_close fd [] R_accept) (?s S_close fd [] R_shutdown)" using life_step.run_break [of "?s S_close fd [] R_accept"] by simp
  moreover have "life_step (?s S_close fd [] R_shutdown) (?s S_close fd [] R_close)" using life_step.run_shutdown [of "?s S_close fd [] R_shutdown"] by simp
  moreover have "life_step (?s S_close fd [] R_close) (?s S_close fd [fd] R_reset)"
    using life_step.run_close [of "?s S_close fd [] R_close"] assms by (simp add: close_socket_def)
  moreover have "life_step (?s S_close fd [fd] R_reset) (?s S_reset fd [fd, fd] R_reset)"
    using st [of S_close fd "[fd]" R_reset] assms by (simp add: close_socket_def)
  moreover have "life_step (?s S_reset fd [fd, fd] R_reset) (?s S_clients kInvalidSocket [fd, fd] R_reset)"
    using st [of S_reset fd "[fd, fd]" R_reset] by (simp add: reset_socket_def)
  moreover have "life_step (?s S_clients kInvalidSocket [fd, fd] R_reset) (?s S_done kInvalidSocket [fd, fd] R_reset)"
    using st [of S_clients kInvalidSocket "[fd, fd]" R_reset] by simp
  moreover have "life_step (?s S_done kInvalidSocket [fd, fd] R_reset) (?s S_done kInvalidSocket [fd, fd] R_join)"
    using life_step.run_reset [of "?s S_done kInvalidSocket [fd, fd] R_reset"] by (simp add: reset_socket_def)
  moreover have "life_step (?s S_done kInvalidSocket [fd, fd] R_join) (?s S_done kInvalidSocket [fd, fd] R_done)"
    using life_step.run_join [of "?s S_done kInvalidSocket [fd, fd] R_join"] by simp
  ultimately show ?thesis by (elim converse_rtranclp_into_rtranclp) (rule rtranclp.rtrancl_refl)
qed

text \<open>A listener that cannot be opened leaves no descriptor behind.\<close>

lemma configure_listener_closes: "configure_listener fd calls = (Inr fd', closed) \<Longrightarrow> fd' = fd \<and> closed = []"
  "configure_listener fd calls = (Inl e, closed) \<Longrightarrow> closed = [fd]"
  by (induction fd calls rule: configure_listener.induct) auto

lemma open_listener_closes:
  assumes "opened \<in> {broker_open_listener os port, adi_open_listener os port}"
  shows "opened = (Inr fd, closed) \<Longrightarrow> fd = os_socket os \<and> fd \<noteq> kInvalidSocket \<and> closed = []"
    "opened = (Inl e, closed) \<Longrightarrow> closed = (if os_socket os = kInvalidSocket then [] else [os_socket os])"
  using assms by (auto simp: broker_open_listener_def adi_open_listener_def split: if_splits dest: configure_listener_closes [OF sym])

section \<open>Running an ADI server again\<close>

text \<open>\<^verbatim>\<open>stop\<close>, \<^verbatim>\<open>join_all\<close> and the beginning of \<^verbatim>\<open>run\<close> of the ADI server, each executed without interference, for \<open>n\<close> GPUs: the state of the
  threads, \<^verbatim>\<open>listener_socket_\<close> and the calls on sockets.  \<^verbatim>\<open>join_all\<close> returns once the session and worker threads have ended.\<close>

datatype SocketCall = Shutdown int | Close int

definition socket_call :: "(int \<Rightarrow> SocketCall) \<Rightarrow> int \<Rightarrow> SocketCall list" where
  "socket_call c fd = (if fd = kInvalidSocket then [] else [c fd])"

definition adi_stop_workers :: "int \<Rightarrow> AdiSys \<Rightarrow> AdiSys" where
  "adi_stop_workers n sys = fold stop_worker [0..n - 1] sys"

definition adi_stop :: "int \<Rightarrow> int list \<Rightarrow> AdiSys \<times> int \<Rightarrow> (AdiSys \<times> int) \<times> SocketCall list" where
  "adi_stop n client_sockets s =
     (case s of (sys, listener) \<Rightarrow>
      if \<not> ay_running sys then ((sys, listener), [])
      else ((adi_stop_workers n (sys \<lparr> ay_running := False \<rparr>), kInvalidSocket),
        socket_call Shutdown listener @ socket_call Close listener @ concat (map (socket_call Shutdown) client_sockets)))"

definition adi_join_all :: "int \<Rightarrow> AdiSys \<times> int \<Rightarrow> (AdiSys \<times> int) \<times> SocketCall list" where
  "adi_join_all n s =
     (case s of (sys, listener) \<Rightarrow> ((adi_stop_workers n sys, kInvalidSocket), socket_call Shutdown listener @ socket_call Close listener))"

text \<open>\<open>started\<close> says that \<^verbatim>\<open>worker_threads_\<close> is not empty.  A new thread begins its loop on the worker state that is there.\<close>

definition start_workers :: "bool \<Rightarrow> int \<Rightarrow> AdiSys \<Rightarrow> AdiSys" where
  "start_workers started n sys =
     (if started then sys else fold (\<lambda>g sys. set_worker g ((ay_workers sys g) \<lparr> ws_pc := WIdle \<rparr>) sys) [0..n - 1] sys)"

definition adi_run_begin :: "bool \<Rightarrow> int \<Rightarrow> AdiSys \<Rightarrow> AdiSys res" where
  "adi_run_begin started n sys =
     (if ay_running sys then Inl ''ADI server is already running.'' else Inr (start_workers started n (sys \<lparr> ay_running := True \<rparr>)))"

lemma fold_set_worker:
  assumes "distinct gs" "\<And>g sys. ay_workers (f g sys) = (ay_workers sys)(g := u (ay_workers sys g))"
  shows "ay_workers (fold f gs sys) = (\<lambda>g. if g \<in> set gs then u (ay_workers sys g) else ay_workers sys g)"
  using assms by (induction gs arbitrary: sys) (auto simp: fun_eq_iff)

lemma adi_stop_workers_at: "ay_workers (adi_stop_workers n sys) g = (ay_workers sys g) \<lparr> ws_stopping := in_range n g \<or> ws_stopping (ay_workers sys g) \<rparr>"
  unfolding adi_stop_workers_def
  by (subst fold_set_worker [where u = "\<lambda>w. w \<lparr> ws_stopping := True \<rparr>"]) (auto simp: stop_worker_def set_worker_def)

lemma start_workers_at: "in_range n g \<Longrightarrow> ay_workers (start_workers False n sys) g = (ay_workers sys g) \<lparr> ws_pc := WIdle \<rparr>"
  unfolding start_workers_def
  by (simp, subst fold_set_worker [where u = "\<lambda>w. w \<lparr> ws_pc := WIdle \<rparr>"]) (auto simp: set_worker_def)

text \<open>A stop marks every worker, which makes each one leave as soon as its queue is empty.  The mark is never cleared: after the server was stopped and
  joined, the threads of a second \<^verbatim>\<open>run\<close> leave at once.\<close>

lemma adi_stop_once:
  assumes "ay_running sys" "listener \<noteq> kInvalidSocket" "adi_stop n client_sockets (sys, listener) = (s1, calls1)" "adi_join_all n s1 = ((sys', listener'), calls2)"
  shows "filter (\<lambda>c. c \<in> range Close) (calls1 @ calls2) = [Close listener]" "\<forall>fd \<in> set client_sockets. fd \<noteq> kInvalidSocket \<longrightarrow> Shutdown fd \<in> set calls1"
    "\<not> ay_running sys'" "in_range n g \<Longrightarrow> ws_stopping (ay_workers sys' g)"
proof -
  have run: "ay_running (fold stop_worker gs sys) = ay_running sys" for gs sys
    by (induction gs arbitrary: sys) (simp_all add: stop_worker_def set_worker_def)
  have "filter (\<lambda>c. c \<in> range Close) (concat (map (socket_call Shutdown) xs)) = []" for xs by (auto simp: socket_call_def filter_empty_conv)
  with assms show "filter (\<lambda>c. c \<in> range Close) (calls1 @ calls2) = [Close listener]" by (auto simp: adi_stop_def adi_join_all_def socket_call_def)
  show "\<forall>fd \<in> set client_sockets. fd \<noteq> kInvalidSocket \<longrightarrow> Shutdown fd \<in> set calls1" using assms(1,3) by (auto simp: adi_stop_def socket_call_def)
  show "\<not> ay_running sys'" using assms by (auto simp: adi_stop_def adi_join_all_def adi_stop_workers_def run)
  show "in_range n g \<Longrightarrow> ws_stopping (ay_workers sys' g)" using assms by (auto simp: adi_stop_def adi_join_all_def adi_stop_workers_at)
qed

lemma rerun_worker_exits:
  assumes "in_range n g" "ws_queue (ay_workers sys g) = []" "adi_join_all n (sys, listener) = ((sys1, listener1), calls)" "adi_run_begin False n sys1 = Inr sys'"
  shows "worker_wake (ay_workers sys' g) = Some ((ay_workers sys' g) \<lparr> ws_pc := WExited \<rparr>)"
  using assms by (auto simp: adi_join_all_def adi_run_begin_def start_workers_at adi_stop_workers_at worker_wake_def split: if_splits)

section \<open>The ADI server program\<close>

text \<open>\<^verbatim>\<open>examples/adi_server_example.cpp\<close>.  \<^verbatim>\<open>strtoul\<close> reads a text without digits as zero and a value out of range as the largest one.\<close>

definition strtoul :: "string \<Rightarrow> nat" where
  "strtoul s =
     (let (neg, ds) = scan_number s; n = digits_value ds in
      if 2 ^ 64 \<le> n then 2 ^ 64 - 1 else if neg then (2 ^ 64 - n) mod 2 ^ 64 else n)"

datatype AdiMainOutcome = AdiExit int | AdiServe AdiServerConfig GpuTopology Placer

definition adi_example_main :: "CudaRuntime option \<Rightarrow> string list \<Rightarrow> AdiMainOutcome" where
  "adi_example_main cuda args =
     (if args \<noteq> [] \<and> hd args = ''--help'' then AdiExit 0
      else case res_bind (if args = [] then Inr 8080
             else res_bind (stoi (hd args)) (\<lambda>port. if port < 1 \<or> port > 65535 then Inl ''port'' else Inr port)) (\<lambda>port.
           let threshold = (if length args > 1 then strtoul (args ! 1) else 32) in
           res_bind (detect cuda) (\<lambda>topo.
           res_bind (enable_peer_access cuda topo) (\<lambda>_.
           let cfg = AdiServerConfig_default \<lparr> ac_port := port, ac_backlog_threshold := threshold, ac_verbose := True \<rparr> in
           res_bind (AdiServer_init topo cfg) (\<lambda>(pl, workers). Inr (cfg, topo, pl))))) of
        Inl e \<Rightarrow> AdiExit 1
      | Inr (cfg, topo, pl) \<Rightarrow> AdiServe cfg topo pl)"

lemma adi_example_serves:
  assumes "adi_example_main cuda args = AdiServe cfg t pl"
  shows "1 \<le> ac_port cfg \<and> ac_port cfg \<le> 65535 \<and> topo_wf t \<and> pl = Placer_init (ac_backlog_threshold cfg)"
  using assms by (auto simp: adi_example_main_def AdiServer_init_def Let_def dest: topo_wf_detect split: if_splits sum.splits)

section \<open>The session loop ends\<close>

lemma recv_loop_length:
  assumes "recv_loop retry es n = (Some bs, es')"
  shows "length (stream retry es') + n = length (stream retry es)"
proof -
  have "n \<le> length (stream retry es)" using recv_loop_none [of retry es n] assms by (cases "n \<le> length (stream retry es)") auto
  with recv_loop_some [OF this] assms show ?thesis by auto
qed

text \<open>A part of a turn that reads and leaves the session open has taken the length word and at least one byte.\<close>

lemma session_read_takes:
  assumes "ss_open (session_read h cfg s)"
  shows "length (stream True (ss_input (session_read h cfg s))) + 5 \<le> length (stream True (ss_input s))"
proof -
  obtain lb i where lb: "read_exact (ss_input s) 4 = (lb, i)" by fastforce
  with assms obtain l where l: "lb = Some l" by (cases lb) (simp_all add: session_read_def)
  let ?n = "unat (ntohl h (load h l) :: u32)"
  have n: "\<not> (?n = 0 \<or> ?n > max_frame_bytes (server_limits cfg))"
  proof
    assume "?n = 0 \<or> ?n > max_frame_bytes (server_limits cfg)"
    with assms lb l show False by (simp add: session_read_def Let_def split: sum.splits)
  qed
  obtain fr j where fr: "read_exact i ?n = (fr, j)" by fastforce
  with assms lb l n obtain f where f: "fr = Some f" by (cases fr) (simp_all add: session_read_def Let_def)
  have "ss_input (session_read h cfg s) = j"
    using lb l n fr f by (simp add: session_read_def Let_def split: sum.splits FrameOutcome.splits)
  moreover have "length (stream True i) + 4 = length (stream True (ss_input s))" "length (stream True j) + ?n = length (stream True i)"
    using recv_loop_length lb l fr f by (auto simp: read_exact_def)
  ultimately show ?thesis using n by simp
qed

lemma session_turn_takes: "ss_open (session_turn h cfg s) \<Longrightarrow> length (stream True (ss_input (session_turn h cfg s))) + 5 \<le> length (stream True (ss_input s))"
  using session_read_takes [of h cfg "session_reap s"] by (simp add: session_turn_def session_reap_def)

lemma session_turns_end: "\<exists>n \<le> length (stream True (ss_input s)) div 5 + 1. \<not> ss_open ((session_turn h cfg ^^ n) s)"
proof (induction "length (stream True (ss_input s))" arbitrary: s rule: less_induct)
  case less
  show ?case
  proof (cases "ss_open (session_turn h cfg s)")
    case False
    then show ?thesis by (intro exI [of _ 1]) simp
  next
    case True
    let ?s = "session_turn h cfg s"
    have len: "length (stream True (ss_input ?s)) + 5 \<le> length (stream True (ss_input s))" by (rule session_turn_takes [OF True])
    with less [of ?s] obtain n where "n \<le> length (stream True (ss_input ?s)) div 5 + 1" "\<not> ss_open ((session_turn h cfg ^^ n) ?s)" by auto
    with len show ?thesis by (intro exI [of _ "Suc n"]) (simp add: funpow_swap1)
  qed
qed

lemma job_done_input: "job_done h f ck cfg service s i = (service', s') \<Longrightarrow> ss_input s' = ss_input s \<and> ss_open s' = ss_open s"
  by (auto simp: job_done_def Let_def split: prod.splits sum.splits if_splits)

lemma session_run_turns:
  "session_run h f cfg service0 input service s k l \<Longrightarrow> 5 * k + (if ss_open s then length (stream True (ss_input s)) else 0) \<le> length (stream True input)"
proof (induction rule: session_run.induct)
  case (run_reap service s k l)
  then show ?case by (simp add: session_reap_def)
next
  case (run_read service s k l s')
  then show ?case using session_read_takes [of h cfg s] by (cases "ss_open s'") auto
next
  case (run_done service s k l i ck service' s')
  then show ?case using job_done_input [OF run_done(4)] by (cases "ss_open s") simp_all
qed auto

section \<open>Properties\<close>

text \<open>C12. The session loop of the broker terminates on every input: whatever the client sends, however the bytes are cut and in whatever order
  responses finish, the number of frames handled is at most a fifth of the number of bytes received, and from every state of a session boundedly many
  further turns end it.  A silent client ends it by the receive timeout; with a configured timeout of zero the last read waits for the client or for a stop.\<close>

theorem broker_session_terminates:
  assumes "session_run h f cfg service0 input service s k l"
  shows "5 * k \<le> length (stream True input) \<and> (\<exists>n \<le> length (stream True (ss_input s)) div 5 + 1. \<not> ss_open ((session_turn h cfg ^^ n) s))"
proof -
  have "5 * k \<le> length (stream True input)" using session_run_turns [OF assms] by simp
  then show ?thesis using session_turns_end by blast
qed

theorem broker_session_terminates_witness:
  "\<exists>n \<le> 2. \<not> ss_open ((session_turn LittleEndian sample_server_config ^^ n)
     \<lparr> ss_input = [Data [0, 0, 0, 1], RecvEintr, Data [7]], ss_pending = [], ss_output = [], ss_open = True \<rparr>)"
  using broker_session_terminates [OF run_start [of LittleEndian "\<lambda>xs g. Inl ''no device''" sample_server_config sample_service
      "[Data [0, 0, 0, 1], RecvEintr, Data [7]]"]] by (simp add: numeral_2_eq_2)

text \<open>C34. When a server stops, the listening socket does not leak: once the running thread has joined everything the socket is closed and the
  variable is reset.  But two closes are possible: when the running thread leaves its loop while another thread is inside \<^verbatim>\<open>stop\<close>, both close the
  same descriptor, the second time when it may already belong to someone else.\<close>

theorem listener_closed:
  assumes "fd \<noteq> kInvalidSocket"
  shows "(\<forall>s. life_step\<^sup>*\<^sup>* (Life_start fd) s \<longrightarrow> lf_run s = R_done \<longrightarrow> lf_closes s \<in> {[fd], [fd, fd]} \<and> lf_socket s = kInvalidSocket) \<and>
    (\<exists>s. life_step\<^sup>*\<^sup>* (Life_start fd) s \<and> lf_run s = R_done \<and> lf_closes s = [fd, fd])"
proof (intro conjI allI impI)
  fix s
  assume s: "life_step\<^sup>*\<^sup>* (Life_start fd) s" "lf_run s = R_done"
  have "life_inv fd s" using life_inv_reachable [OF s(1) assms] .
  then show "lf_closes s \<in> {[fd], [fd, fd]}" "lf_socket s = kInvalidSocket"
    using s(2) by (auto simp: life_inv_def life_fresh_def life_stopped_def life_thrown_def)
next
  show "\<exists>s. life_step\<^sup>*\<^sup>* (Life_start fd) s \<and> lf_run s = R_done \<and> lf_closes s = [fd, fd]"
    by (rule exI, rule conjI [OF double_close_run [OF assms]]) simp
qed

theorem listener_closed_witness: "\<exists>s. life_step\<^sup>*\<^sup>* (Life_start 3) s \<and> lf_run s = R_done \<and> lf_closes s = [3, 3]"
  using listener_closed [of 3] by (simp add: kInvalidSocket_def)

end
