(* ===== verification/Trt_Model.thy ===== *)
theory Trt_Model
  imports Run_Outcome
begin

text \<open>
  The model store of the GPU runtime server: \<^verbatim>\<open>include/trt_model_engine.hpp\<close> and the data types of
  \<^verbatim>\<open>include/adi_tensor_protocol.h\<close> it uses.  TensorRT is the argument: an \<open>Engine\<close> is what its query functions report and what an
  enqueued inference leaves in the output buffer, and \<open>Trt\<close> is what parsing, building and deserialising return.  The factory functions of
  TensorRT are taken to return objects.  Sizes are 64-bit words, as \<^verbatim>\<open>size_t\<close> products may wrap.
\<close>

section \<open>Types\<close>

datatype TensorDataType = FP32 | FP16 | INT32 | INT8 | FP64

text \<open>The data types of TensorRT the code names, and all others.\<close>

datatype TrtDataType = kFLOAT | kHALF | kINT32 | kINT8 | kOther nat

text \<open>The two device buffers of a lane, as tensor addresses.\<close>

datatype DevPtr = InputBuf | OutputBuf

record Engine =
  en_nb_io_tensors :: int
  en_io_tensor_name :: "nat \<Rightarrow> string"
  en_tensor_is_input :: "string \<Rightarrow> bool"
  en_tensor_data_type :: "string \<Rightarrow> TrtDataType"
  en_tensor_shape :: "string \<Rightarrow> int list"
  en_enqueue :: "(string \<Rightarrow> DevPtr option) \<Rightarrow> bytes \<Rightarrow> bytes"

record TrtBinding =
  bi_name :: string
  bi_is_input :: bool
  bi_dtype :: TensorDataType
  bi_dims :: "int list"
  bi_size_bytes :: u64

record TrtModelInstance =
  mi_engine :: Engine
  mi_input_bindings :: "TrtBinding list"
  mi_output_bindings :: "TrtBinding list"
  mi_total_input_bytes :: u64
  mi_total_output_bytes :: u64

fun trtTypeToAdi :: "TrtDataType \<Rightarrow> TensorDataType" where
  "trtTypeToAdi kFLOAT = FP32"
| "trtTypeToAdi kHALF = FP16"
| "trtTypeToAdi kINT32 = INT32"
| "trtTypeToAdi kINT8 = INT8"
| "trtTypeToAdi (kOther n) = FP32"

fun getElementSize :: "TensorDataType \<Rightarrow> u64" where
  "getElementSize FP32 = 4"
| "getElementSize FP16 = 2"
| "getElementSize INT32 = 4"
| "getElementSize INT8 = 1"
| "getElementSize FP64 = 8"

section \<open>Inspecting an engine\<close>

text \<open>The loop over the dimensions: a dynamic dimension counts as one.\<close>

fun shape_loop :: "int list \<Rightarrow> int list \<Rightarrow> u64 \<Rightarrow> int list \<times> u64" where
  "shape_loop [] dims count = (dims, count)"
| "shape_loop (d # ds) dims count = (let dim = (if d < 0 then 1 else d) in shape_loop ds (dims @ [dim]) (count * word_of_int dim))"

definition inspect_tensor :: "nat \<Rightarrow> TrtModelInstance \<Rightarrow> TrtModelInstance" where
  "inspect_tensor i m =
     (let e = mi_engine m; name = en_io_tensor_name e i;
          dtype = trtTypeToAdi (en_tensor_data_type e name);
          (dims, count) = shape_loop (en_tensor_shape e name) [] 1;
          binding = \<lparr> bi_name = name, bi_is_input = en_tensor_is_input e name, bi_dtype = dtype, bi_dims = dims,
            bi_size_bytes = count * getElementSize dtype \<rparr> in
      if bi_is_input binding then
        m \<lparr> mi_input_bindings := mi_input_bindings m @ [binding], mi_total_input_bytes := mi_total_input_bytes m + bi_size_bytes binding \<rparr>
      else
        m \<lparr> mi_output_bindings := mi_output_bindings m @ [binding], mi_total_output_bytes := mi_total_output_bytes m + bi_size_bytes binding \<rparr>)"

definition inspectBindings :: "TrtModelInstance \<Rightarrow> TrtModelInstance" where
  "inspectBindings m = fold inspect_tensor [0..<nat (en_nb_io_tensors (mi_engine m))] m"

section \<open>The model store\<close>

type_synonym models = "u32 \<rightharpoonup> TrtModelInstance"

record Trt =
  trt_parseFromFile :: "string \<Rightarrow> bool"
  trt_buildSerializedNetwork :: "string \<Rightarrow> bytes option"
  trt_deserializeCudaEngine :: "bytes \<Rightarrow> Engine option"

text \<open>\<^verbatim>\<open>c_str()\<close> hands over the characters up to the first NUL.\<close>

definition c_str :: "string \<Rightarrow> string" where
  "c_str s = takeWhile (\<lambda>c. c \<noteq> CHR 0x00) s"

definition new_instance :: "Engine \<Rightarrow> TrtModelInstance" where
  "new_instance e = \<lparr> mi_engine = e, mi_input_bindings = [], mi_output_bindings = [], mi_total_input_bytes = 0, mi_total_output_bytes = 0 \<rparr>"

definition loadOnnxModel :: "Trt \<Rightarrow> u32 \<Rightarrow> string \<Rightarrow> models \<Rightarrow> (bool \<times> models) run" where
  "loadOnnxModel trt model_id onnx_path ms =
     (let path = c_str onnx_path in
      if \<not> trt_parseFromFile trt path then Inr (False, ms)
      else case trt_buildSerializedNetwork trt path of
        None \<Rightarrow> Inr (False, ms)
      | Some serialized \<Rightarrow>
          (case trt_deserializeCudaEngine trt serialized of
             None \<Rightarrow> Inl (Undefined ''null engine'')
           | Some e \<Rightarrow> Inr (True, ms(model_id \<mapsto> inspectBindings (new_instance e)))))"

definition getModel :: "models \<Rightarrow> u32 \<Rightarrow> TrtModelInstance option" where
  "getModel ms model_id = ms model_id"

section \<open>What an inspected model is\<close>

text \<open>The binding of the \<open>i\<close>th tensor, in closed form.\<close>

definition tensor_binding :: "Engine \<Rightarrow> nat \<Rightarrow> TrtBinding" where
  "tensor_binding e i =
     (let name = en_io_tensor_name e i; dims = map (\<lambda>d. if d < 0 then 1 else d) (en_tensor_shape e name);
          dtype = trtTypeToAdi (en_tensor_data_type e name) in
      \<lparr> bi_name = name, bi_is_input = en_tensor_is_input e name, bi_dtype = dtype, bi_dims = dims,
        bi_size_bytes = word_of_int (prod_list dims) * getElementSize dtype \<rparr>)"

definition bindings_of :: "Engine \<Rightarrow> TrtBinding list" where
  "bindings_of e = map (tensor_binding e) [0..<nat (en_nb_io_tensors e)]"

lemma shape_loop_eq: "shape_loop ds dims count = (dims @ map (\<lambda>d. if d < 0 then 1 else d) ds, count * word_of_int (prod_list (map (\<lambda>d. if d < 0 then 1 else d) ds)))"
  by (induction ds arbitrary: dims count) (auto simp: Let_def mult.assoc)

lemma inspect_tensor_eq:
  "inspect_tensor i m =
     (let b = tensor_binding (mi_engine m) i in
      if bi_is_input b then m \<lparr> mi_input_bindings := mi_input_bindings m @ [b], mi_total_input_bytes := mi_total_input_bytes m + bi_size_bytes b \<rparr>
      else m \<lparr> mi_output_bindings := mi_output_bindings m @ [b], mi_total_output_bytes := mi_total_output_bytes m + bi_size_bytes b \<rparr>)"
  by (simp add: inspect_tensor_def tensor_binding_def shape_loop_eq Let_def)

lemma inspect_fold:
  assumes "bs = map (tensor_binding (mi_engine m)) is"
  shows "fold inspect_tensor is m = m \<lparr> mi_input_bindings := mi_input_bindings m @ filter bi_is_input bs,
    mi_output_bindings := mi_output_bindings m @ filter (\<lambda>b. \<not> bi_is_input b) bs,
    mi_total_input_bytes := mi_total_input_bytes m + sum_list (map bi_size_bytes (filter bi_is_input bs)),
    mi_total_output_bytes := mi_total_output_bytes m + sum_list (map bi_size_bytes (filter (\<lambda>b. \<not> bi_is_input b) bs)) \<rparr>"
  using assms
proof (induction "is" arbitrary: m bs)
  case (Cons i "is")
  have "mi_engine (inspect_tensor i m) = mi_engine m" by (simp add: inspect_tensor_eq Let_def)
  with Cons.IH [of _ "inspect_tensor i m"] Cons.prems show ?case by (simp add: inspect_tensor_eq Let_def add.assoc)
qed simp

text \<open>The exact size of a tensor.\<close>

definition tensor_bytes :: "TrtBinding \<Rightarrow> nat" where
  "tensor_bytes b = nat (prod_list (bi_dims b)) * unat (getElementSize (bi_dtype b))"

text \<open>The typing of a registered model: its bindings are the tensors of its engine, split by direction and in order, every dimension is
  non-negative, and a total that fits into \<^verbatim>\<open>size_t\<close> is the exact number of bytes.\<close>

definition instance_typed :: "TrtModelInstance \<Rightarrow> bool" where
  "instance_typed m \<longleftrightarrow>
     mi_input_bindings m = filter bi_is_input (bindings_of (mi_engine m)) \<and>
     mi_output_bindings m = filter (\<lambda>b. \<not> bi_is_input b) (bindings_of (mi_engine m)) \<and>
     (\<forall>b \<in> set (mi_input_bindings m @ mi_output_bindings m). \<forall>d \<in> set (bi_dims b). 0 \<le> d) \<and>
     ((\<Sum>b\<leftarrow>mi_input_bindings m. tensor_bytes b) < 2 ^ 64 \<longrightarrow> unat (mi_total_input_bytes m) = (\<Sum>b\<leftarrow>mi_input_bindings m. tensor_bytes b)) \<and>
     ((\<Sum>b\<leftarrow>mi_output_bindings m. tensor_bytes b) < 2 ^ 64 \<longrightarrow> unat (mi_total_output_bytes m) = (\<Sum>b\<leftarrow>mi_output_bindings m. tensor_bytes b))"

fun load_models :: "Trt \<Rightarrow> (u32 \<times> string) list \<Rightarrow> models \<Rightarrow> models run" where
  "load_models trt [] ms = Inr ms"
| "load_models trt ((model_id, path) # rs) ms = run_bind (loadOnnxModel trt model_id path ms) (\<lambda>(ok, ms). load_models trt rs ms)"

lemma prod_list_nonneg: "(\<And>d. d \<in> set ds \<Longrightarrow> 0 \<le> d) \<Longrightarrow> 0 \<le> prod_list (ds :: int list)"
  by (induction ds) auto

lemma binding_dims_nonneg: "b \<in> set (bindings_of e) \<Longrightarrow> d \<in> set (bi_dims b) \<Longrightarrow> 0 \<le> d"
  by (auto simp: bindings_of_def tensor_binding_def Let_def split: if_splits)

lemma binding_size: "b \<in> set (bindings_of e) \<Longrightarrow> bi_size_bytes b = word_of_nat (tensor_bytes b)"
proof -
  assume b: "b \<in> set (bindings_of e)"
  have "0 \<le> prod_list (bi_dims b)" by (rule prod_list_nonneg) (rule binding_dims_nonneg [OF b])
  moreover have "bi_size_bytes b = word_of_int (prod_list (bi_dims b)) * getElementSize (bi_dtype b)"
    using b by (auto simp: bindings_of_def tensor_binding_def Let_def)
  ultimately show ?thesis by (simp add: tensor_bytes_def of_nat_nat)
qed

lemma sizes_exact:
  assumes "set bs \<subseteq> set (bindings_of e)" "(\<Sum>b\<leftarrow>bs. tensor_bytes b) < 2 ^ 64"
  shows "unat (\<Sum>b\<leftarrow>bs. bi_size_bytes b) = (\<Sum>b\<leftarrow>bs. tensor_bytes b)"
proof -
  have "(\<Sum>b\<leftarrow>bs. bi_size_bytes b) = word_of_nat (\<Sum>b\<leftarrow>bs. tensor_bytes b)"
    using assms(1) by (induction bs) (auto simp: binding_size)
  with assms(2) show ?thesis by (simp add: unsigned_of_nat take_bit_nat_eq_self)
qed

lemma inspect_typed: "instance_typed (inspectBindings (new_instance e))"
proof -
  have "inspectBindings (new_instance e) = \<lparr> mi_engine = e, mi_input_bindings = filter bi_is_input (bindings_of e),
      mi_output_bindings = filter (\<lambda>b. \<not> bi_is_input b) (bindings_of e),
      mi_total_input_bytes = (\<Sum>b\<leftarrow>filter bi_is_input (bindings_of e). bi_size_bytes b),
      mi_total_output_bytes = (\<Sum>b\<leftarrow>filter (\<lambda>b. \<not> bi_is_input b) (bindings_of e). bi_size_bytes b) \<rparr>"
    by (simp add: inspectBindings_def inspect_fold [OF refl] new_instance_def bindings_of_def)
  moreover have "set (filter P (bindings_of e)) \<subseteq> set (bindings_of e)" for P by auto
  note sizes_exact [OF this]
  ultimately show ?thesis by (auto simp: instance_typed_def dest: binding_dims_nonneg)
qed

lemma load_typed:
  assumes "loadOnnxModel trt model_id path ms = Inr (ok, ms')" "\<forall>k m. ms k = Some m \<longrightarrow> instance_typed m"
  shows "\<forall>k m. ms' k = Some m \<longrightarrow> instance_typed m"
  using assms by (auto simp: loadOnnxModel_def Let_def inspect_typed split: if_splits option.splits)

lemma load_keeps:
  assumes "loadOnnxModel trt model_id path ms = Inr (ok, ms')"
  shows "k \<noteq> model_id \<Longrightarrow> ms' k = ms k" "\<not> ok \<Longrightarrow> ms' = ms" "ok \<Longrightarrow> ms' model_id \<noteq> None"
  using assms by (auto simp: loadOnnxModel_def Let_def split: if_splits option.splits)

lemma load_models_typed:
  "load_models trt rs ms = Inr ms' \<Longrightarrow> (\<forall>k m. ms k = Some m \<longrightarrow> instance_typed m) \<Longrightarrow> ms' k = Some m \<Longrightarrow>
    instance_typed m \<and> (ms k = None \<longrightarrow> k \<in> fst ` set rs)"
proof (induction trt rs ms rule: load_models.induct)
  case (2 trt i path rs ms)
  from 2(2) obtain ok ms1 where l: "loadOnnxModel trt i path ms = Inr (ok, ms1)" "load_models trt rs ms1 = Inr ms'"
    by (auto simp: run_bind_Inr_iff)
  from 2(1) [OF l(2) load_typed [OF l(1) 2(3)] 2(4)] load_keeps(1) [OF l(1), of k] show ?case by auto
qed auto

section \<open>Properties\<close>

text \<open>C20. Whatever sequence of load requests the server handles, every model in the store was requested and is well typed: its bindings are exactly
  the tensors its engine reports, inputs and outputs each in order, no dimension is negative, and the buffer totals are the exact sums of
  the tensor sizes whenever these fit into 64 bits.\<close>

theorem model_store_typed:
  assumes "load_models trt rs Map.empty = Inr ms" "getModel ms k = Some m"
  shows "instance_typed m \<and> k \<in> fst ` set rs"
  using load_models_typed [OF assms(1)] assms(2) by (simp add: getModel_def)

definition sample_engine :: Engine where
  "sample_engine = \<lparr> en_nb_io_tensors = 2, en_io_tensor_name = (\<lambda>i. if i = 0 then ''input'' else ''output''),
     en_tensor_is_input = (\<lambda>n. n = ''input''), en_tensor_data_type = (\<lambda>n. kFLOAT), en_tensor_shape = (\<lambda>n. [-1, 5]),
     en_enqueue = (\<lambda>addr input. input) \<rparr>"

definition sample_trt :: Trt where
  "sample_trt = \<lparr> trt_parseFromFile = (\<lambda>p. True), trt_buildSerializedNetwork = (\<lambda>p. Some []), trt_deserializeCudaEngine = (\<lambda>bs. Some sample_engine) \<rparr>"

definition sample_model :: TrtModelInstance where
  "sample_model = inspectBindings (new_instance sample_engine)"

lemma sample_bindings: "bindings_of sample_engine = [tensor_binding sample_engine 0, tensor_binding sample_engine 1]"
  by (simp add: bindings_of_def sample_engine_def upt_rec)

theorem model_store_typed_witness:
  "load_models sample_trt [(101, ''m.onnx'')] Map.empty = Inr [101 \<mapsto> sample_model] \<and> instance_typed sample_model \<and>
   unat (mi_total_input_bytes sample_model) = 20"
proof -
  have l: "load_models sample_trt [(101, ''m.onnx'')] Map.empty = Inr [101 \<mapsto> sample_model]"
    by (simp add: sample_trt_def loadOnnxModel_def run_bind_def sample_model_def)
  have t: "instance_typed sample_model" using model_store_typed [OF l, of 101 sample_model] by (simp add: getModel_def)
  have "mi_engine sample_model = sample_engine" by (simp add: sample_model_def inspectBindings_def inspect_fold [OF refl] new_instance_def)
  with t l show ?thesis by (simp add: instance_typed_def sample_bindings) (simp add: tensor_binding_def sample_engine_def tensor_bytes_def)
qed

end
