(* ===== verification/Gpu_Lanes.thy ===== *)
theory Gpu_Lanes
  imports Trt_Model "HOL-Library.Multiset"
begin

text \<open>
  The worker threads of the GPU runtime server: the task queues, the sixteen stream lanes of a worker and its loop, from
  \<^verbatim>\<open>src/gpu_runtime_server.cpp\<close>.  A step of a worker is one visit of a lane.  What the CUDA calls of a visit return is an argument of the step, so every device behaviour is covered; \<open>Thrown\<close> is the exit of
  the process in \<^verbatim>\<open>CUDA_CHECK\<close>.  Streams run in order and a lane is not touched while its stream runs, so the work of a lane takes effect when it
  is enqueued and is seen when the stream is done.  The flag \<^verbatim>\<open>busy\<close> only decides about a sleep and is left out.
\<close>

section \<open>Tasks, lanes, workers\<close>

text \<open>A promise is its number.\<close>

record InferenceTask =
  it_model_id :: u32
  it_input_payload :: bytes
  it_promise :: nat

definition queue_push :: "'a \<Rightarrow> 'a list \<Rightarrow> 'a list" where
  "queue_push v q = q @ [v]"

definition try_pop :: "'a list \<Rightarrow> ('a \<times> 'a list) option" where
  "try_pop q = (case q of [] \<Rightarrow> None | v # q \<Rightarrow> Some (v, q))"

definition NUM_STREAMS_PER_GPU :: nat where "NUM_STREAMS_PER_GPU = 16"

text \<open>An execution context refers to the engine that created it, which it does not own, and remembers the tensor addresses set so far.  That the engine is still
  there when the context is used is settled where engines are destroyed, in the theory of the whole system.\<close>

record Context =
  cx_engine :: Engine
  cx_addr :: "string \<Rightarrow> DevPtr option"

record StreamLane =
  ln_context :: "Context option"
  ln_active_model_id :: u32
  ln_d_input :: bytes
  ln_d_output :: bytes
  ln_input_cap :: u64
  ln_output_cap :: u64
  ln_current_task :: "InferenceTask option"
  ln_output_size :: u64
  ln_in_flight :: bool

definition StreamLane_init :: StreamLane where
  "StreamLane_init = \<lparr> ln_context = None, ln_active_model_id = 0, ln_d_input = [], ln_d_output = [], ln_input_cap = 0, ln_output_cap = 0,
     ln_current_task = None, ln_output_size = 0, ln_in_flight = False \<rparr>"

text \<open>What the CUDA and TensorRT calls of one visit return; \<open>cu_fresh\<close> is the content of new device memory.  \<^verbatim>\<open>setTensorAddress\<close> and \<^verbatim>\<open>enqueueV3\<close> report
  failure by \<^verbatim>\<open>false\<close>, which the code does not look at: \<open>cu_set_address\<close> and \<open>cu_enqueue\<close> are their results, and \<open>cu_partial\<close> is what an enqueue that failed
  has written into the output buffer.\<close>

record CudaCalls =
  cu_stream_done :: bool
  cu_malloc :: bool
  cu_fresh :: "nat \<Rightarrow> u8"
  cu_memcpy :: bool
  cu_sync :: bool
  cu_context :: bool
  cu_set_address :: "string \<Rightarrow> bool"
  cu_enqueue :: bool
  cu_partial :: bytes

section \<open>A visit of a lane\<close>

text \<open>The first loop: a finished lane fulfils its promise.\<close>

definition poll_lane :: "CudaCalls \<Rightarrow> StreamLane \<Rightarrow> (StreamLane \<times> (nat \<times> bytes) list) run" where
  "poll_lane cu l =
     (if \<not> ln_in_flight l then Inr (l, [])
      else if \<not> cu_stream_done cu then Inr (l, [])
      else if length (ln_d_output l) < unat (ln_output_size l) then Inl (Undefined ''read outside the output buffer'')
      else if \<not> cu_memcpy cu \<or> \<not> cu_sync cu then Inl (Thrown ''CUDA Error'')
      else case ln_current_task l of
        None \<Rightarrow> Inl (Undefined ''no promise'')
      | Some t \<Rightarrow> Inr (l \<lparr> ln_in_flight := False \<rparr>, [(it_promise t, take (unat (ln_output_size l)) (ln_d_output l))]))"

definition lane_context :: "CudaCalls \<Rightarrow> TrtModelInstance \<Rightarrow> u32 \<Rightarrow> StreamLane \<Rightarrow> StreamLane" where
  "lane_context cu m model_id l =
     (if ln_active_model_id l \<noteq> model_id \<or> ln_context l = None then
        l \<lparr> ln_context := (if cu_context cu then Some \<lparr> cx_engine = mi_engine m, cx_addr = Map.empty \<rparr> else None),
            ln_active_model_id := model_id \<rparr>
      else l)"

definition device_alloc :: "CudaCalls \<Rightarrow> u64 \<Rightarrow> bytes run" where
  "device_alloc cu n = (if cu_malloc cu then Inr (map (cu_fresh cu) [0..<unat n]) else Inl (Thrown ''CUDA Error''))"

definition lane_buffers :: "CudaCalls \<Rightarrow> TrtModelInstance \<Rightarrow> StreamLane \<Rightarrow> StreamLane run" where
  "lane_buffers cu m l =
     run_bind (if ln_input_cap l < mi_total_input_bytes m then
         run_bind (device_alloc cu (mi_total_input_bytes m)) (\<lambda>d. Inr (l \<lparr> ln_d_input := d, ln_input_cap := mi_total_input_bytes m \<rparr>))
       else Inr l) (\<lambda>l.
     if ln_output_cap l < mi_total_output_bytes m then
       run_bind (device_alloc cu (mi_total_output_bytes m)) (\<lambda>d. Inr (l \<lparr> ln_d_output := d, ln_output_cap := mi_total_output_bytes m \<rparr>))
     else Inr l)"

text \<open>The bytes of \<open>new\<close> written at the start of the buffer \<open>old\<close>.\<close>

definition overwrite :: "bytes \<Rightarrow> bytes \<Rightarrow> bytes" where
  "overwrite new old = take (length old) new @ drop (length new) old"

definition copy_to_device :: "CudaCalls \<Rightarrow> bytes \<Rightarrow> u64 \<Rightarrow> bytes \<Rightarrow> bytes run" where
  "copy_to_device cu src n dst =
     (if length src < unat n then Inl (Undefined ''read outside the input payload'')
      else if length dst < unat n then Inl (Undefined ''write outside the input buffer'')
      else if \<not> cu_memcpy cu then Inl (Thrown ''CUDA Error'')
      else Inr (overwrite (take (unat n) src) dst))"

text \<open>Every input tensor gets the start of the input buffer, every output tensor the start of the output buffer, unless the call fails.\<close>

definition set_address :: "(string \<Rightarrow> bool) \<Rightarrow> DevPtr \<Rightarrow> TrtBinding \<Rightarrow> (string \<Rightarrow> DevPtr option) \<Rightarrow> string \<Rightarrow> DevPtr option" where
  "set_address ok p b addr = (if ok (bi_name b) then addr(bi_name b \<mapsto> p) else addr)"

definition set_addresses :: "(string \<Rightarrow> bool) \<Rightarrow> TrtModelInstance \<Rightarrow> (string \<Rightarrow> DevPtr option) \<Rightarrow> string \<Rightarrow> DevPtr option" where
  "set_addresses ok m addr = fold (set_address ok OutputBuf) (mi_output_bindings m) (fold (set_address ok InputBuf) (mi_input_bindings m) addr)"

text \<open>The lane is in flight afterwards whether or not anything was enqueued.\<close>

definition lane_enqueue :: "CudaCalls \<Rightarrow> TrtModelInstance \<Rightarrow> StreamLane \<Rightarrow> StreamLane run" where
  "lane_enqueue cu m l =
     (case ln_context l of
        None \<Rightarrow> Inl (Undefined ''null context'')
      | Some c \<Rightarrow>
          (let c = c \<lparr> cx_addr := set_addresses (cu_set_address cu) m (cx_addr c) \<rparr>;
               written = (if cu_enqueue cu then en_enqueue (cx_engine c) (cx_addr c) (ln_d_input l) else cu_partial cu) in
           Inr (l \<lparr> ln_context := Some c, ln_d_output := overwrite written (ln_d_output l), ln_in_flight := True \<rparr>)))"

text \<open>The second loop, with a task for an idle lane.\<close>

definition take_task :: "CudaCalls \<Rightarrow> models \<Rightarrow> InferenceTask \<Rightarrow> StreamLane \<Rightarrow> (StreamLane \<times> (nat \<times> bytes) list) run" where
  "take_task cu ms t l =
     (case getModel ms (it_model_id t) of
        None \<Rightarrow> Inr (l, [(it_promise t, [])])
      | Some m \<Rightarrow>
          run_bind (lane_buffers cu m (lane_context cu m (it_model_id t) l)) (\<lambda>l.
          let l = l \<lparr> ln_output_size := mi_total_output_bytes m, ln_current_task := Some t \<rparr> in
          run_bind (copy_to_device cu (it_input_payload t) (mi_total_input_bytes m) (ln_d_input l)) (\<lambda>d.
          run_bind (lane_enqueue cu m (l \<lparr> ln_d_input := d \<rparr>)) (\<lambda>l. Inr (l, [])))))"

section \<open>Workers\<close>

text \<open>\<open>wk_pos\<close> is the place in the body of the endless loop: the first sixteen visits poll, the next sixteen hand out tasks.\<close>

record Worker =
  wk_queue :: "InferenceTask list"
  wk_lanes :: "StreamLane list"
  wk_pos :: nat

definition Worker_init :: Worker where
  "Worker_init = \<lparr> wk_queue = [], wk_lanes = replicate NUM_STREAMS_PER_GPU StreamLane_init, wk_pos = 0 \<rparr>"

definition gpu_worker_step :: "CudaCalls \<Rightarrow> models \<Rightarrow> Worker \<Rightarrow> (Worker \<times> (nat \<times> bytes) list) run" where
  "gpu_worker_step cu ms w =
     (let p = wk_pos w; w' = w \<lparr> wk_pos := (p + 1) mod (2 * NUM_STREAMS_PER_GPU) \<rparr>; i = p mod NUM_STREAMS_PER_GPU; l = wk_lanes w ! i in
      if p < NUM_STREAMS_PER_GPU then
        run_bind (poll_lane cu l) (\<lambda>(l, ans). Inr (w' \<lparr> wk_lanes := (wk_lanes w)[i := l] \<rparr>, ans))
      else if ln_in_flight l then Inr (w', [])
      else case try_pop (wk_queue w) of
        None \<Rightarrow> Inr (w', [])
      | Some (t, q) \<Rightarrow> run_bind (take_task cu ms t l) (\<lambda>(l, ans). Inr (w' \<lparr> wk_queue := q, wk_lanes := (wk_lanes w)[i := l] \<rparr>, ans)))"

section \<open>Accounting\<close>

text \<open>Buffers are as long as their recorded capacity, and a lane in flight has a task and room for its output.\<close>

definition lane_ok :: "StreamLane \<Rightarrow> bool" where
  "lane_ok l \<longleftrightarrow> length (ln_d_input l) = unat (ln_input_cap l) \<and> length (ln_d_output l) = unat (ln_output_cap l) \<and>
     (ln_in_flight l \<longrightarrow> ln_current_task l \<noteq> None \<and> ln_output_size l \<le> ln_output_cap l)"

definition lane_tasks :: "StreamLane \<Rightarrow> InferenceTask list" where
  "lane_tasks l = (if ln_in_flight l then case ln_current_task l of Some t \<Rightarrow> [t] | None \<Rightarrow> [] else [])"

definition worker_ok :: "Worker \<Rightarrow> bool" where
  "worker_ok w \<longleftrightarrow> length (wk_lanes w) = NUM_STREAMS_PER_GPU \<and> (\<forall>l \<in> set (wk_lanes w). lane_ok l)"

definition gpu_worker_tasks :: "Worker \<Rightarrow> InferenceTask list" where
  "gpu_worker_tasks w = wk_queue w @ concat (map lane_tasks (wk_lanes w))"

lemma length_overwrite [simp]: "length (overwrite new old) = length old"
  by (simp add: overwrite_def)

lemma poll_lane_ok:
  assumes "lane_ok l" "poll_lane cu l = Inr (l', ans)"
  shows "lane_ok l' \<and> (\<exists>ts. mset (lane_tasks l) = mset ts + mset (lane_tasks l') \<and> map fst ans = map it_promise ts)"
  using assms by (auto simp: poll_lane_def lane_ok_def lane_tasks_def split: if_splits option.splits)

lemma poll_lane_defined: "lane_ok l \<Longrightarrow> defined (poll_lane cu l)"
  by (auto simp: poll_lane_def lane_ok_def defined_def word_le_nat_alt split: option.splits)

lemma lane_context_ok: "lane_ok l \<Longrightarrow> lane_ok (lane_context cu m k l)"
  by (simp add: lane_context_def lane_ok_def)

lemma lane_context_flight [simp]: "ln_in_flight (lane_context cu m k l) = ln_in_flight l"
  by (simp add: lane_context_def)

lemma lane_buffers_cases:
  assumes "lane_ok l" "\<not> ln_in_flight l" "lane_buffers cu m l = Inr l'"
  shows "lane_ok l' \<and> \<not> ln_in_flight l' \<and> ln_context l' = ln_context l \<and> ln_active_model_id l' = ln_active_model_id l \<and>
    mi_total_input_bytes m \<le> ln_input_cap l' \<and> mi_total_output_bytes m \<le> ln_output_cap l'"
  using assms
  by (auto simp: lane_buffers_def device_alloc_def run_bind_Inr_iff lane_ok_def not_less split: if_splits)

lemma lane_buffers_defined: "defined (lane_buffers cu m l)"
  by (auto simp: lane_buffers_def device_alloc_def intro!: defined_bind)

lemma take_task_cases:
  assumes "lane_ok l" "\<not> ln_in_flight l" "take_task cu ms t l = Inr (l', ans)"
  obtains (unknown) "getModel ms (it_model_id t) = None" "l' = l" "ans = [(it_promise t, [])]"
  | (run) m c d d_out where "getModel ms (it_model_id t) = Some m" "ans = []" "lane_ok l'" "ln_in_flight l'" "ln_current_task l' = Some t"
      "ln_output_size l' = mi_total_output_bytes m" "ln_active_model_id l' = it_model_id t"
      "ln_context (lane_context cu m (it_model_id t) l) = Some c" "ln_context l' = Some (c \<lparr> cx_addr := set_addresses (cu_set_address cu) m (cx_addr c) \<rparr>)"
      "unat (mi_total_input_bytes m) \<le> length (it_input_payload t)" "unat (mi_total_input_bytes m) \<le> length d"
      "ln_d_input l' = overwrite (take (unat (mi_total_input_bytes m)) (it_input_payload t)) d"
      "ln_d_output l' = overwrite (if cu_enqueue cu then en_enqueue (cx_engine c) (set_addresses (cu_set_address cu) m (cx_addr c)) (ln_d_input l') else cu_partial cu) d_out"
proof (cases "getModel ms (it_model_id t)")
  case None
  then show thesis using assms(3) by (intro unknown) (simp_all add: take_task_def)
next
  case (Some m)
  let ?l = "lane_context cu m (it_model_id t) l"
  from assms(3) Some obtain l1 d where b: "lane_buffers cu m ?l = Inr l1"
    and d: "copy_to_device cu (it_input_payload t) (mi_total_input_bytes m) (ln_d_input l1) = Inr d"
    and e: "lane_enqueue cu m (l1 \<lparr> ln_output_size := mi_total_output_bytes m, ln_current_task := Some t, ln_d_input := d \<rparr>) = Inr l'" and ans: "ans = []"
    by (auto simp: take_task_def run_bind_Inr_iff Let_def)
  have l1: "lane_ok l1" "\<not> ln_in_flight l1" "ln_context l1 = ln_context ?l" "ln_active_model_id l1 = ln_active_model_id ?l"
      "mi_total_input_bytes m \<le> ln_input_cap l1" "mi_total_output_bytes m \<le> ln_output_cap l1"
    using lane_buffers_cases [OF lane_context_ok [OF assms(1)] _ b] assms(2) by simp_all
  from e obtain c where c: "ln_context ?l = Some c" and l': "l' = l1 \<lparr> ln_output_size := mi_total_output_bytes m, ln_current_task := Some t, ln_d_input := d,
      ln_context := Some (c \<lparr> cx_addr := set_addresses (cu_set_address cu) m (cx_addr c) \<rparr>),
      ln_d_output := overwrite (if cu_enqueue cu then en_enqueue (cx_engine c) (set_addresses (cu_set_address cu) m (cx_addr c)) d else cu_partial cu) (ln_d_output l1),
      ln_in_flight := True \<rparr>"
    by (auto simp: lane_enqueue_def Let_def l1(3) split: option.splits)
  have d': "d = overwrite (take (unat (mi_total_input_bytes m)) (it_input_payload t)) (ln_d_input l1)"
      "unat (mi_total_input_bytes m) \<le> length (it_input_payload t)" "unat (mi_total_input_bytes m) \<le> length (ln_d_input l1)"
    using d by (auto simp: copy_to_device_def split: if_splits)
  have "ln_active_model_id ?l = it_model_id t" by (simp add: lane_context_def)
  then show thesis
    by (intro run [of m c "ln_d_input l1" "ln_d_output l1"]) (use Some ans l' c l1 d' in \<open>simp_all add: lane_ok_def\<close>)
qed

lemma take_task_ok:
  assumes "lane_ok l" "\<not> ln_in_flight l" "take_task cu ms t l = Inr (l', ans)"
  shows "lane_ok l' \<and> (\<exists>ts. {#t#} = mset ts + mset (lane_tasks l') \<and> map fst ans = map it_promise ts)"
proof (cases rule: take_task_cases [OF assms])
  case 1
  then show ?thesis using assms by (intro conjI exI [of _ "[t]"]) (simp_all add: lane_tasks_def)
next
  case (2 m c d d_out)
  then show ?thesis by (intro conjI exI [of _ "[]"]) (simp_all add: lane_tasks_def)
qed

text \<open>The two ways in which a visit can be undefined.\<close>

lemma take_task_defined:
  assumes "lane_ok l" "\<not> ln_in_flight l" "cu_context cu"
    "\<And>m. getModel ms (it_model_id t) = Some m \<Longrightarrow> unat (mi_total_input_bytes m) \<le> length (it_input_payload t)"
  shows "defined (take_task cu ms t l)"
proof (cases "getModel ms (it_model_id t)")
  case (Some m)
  let ?l = "lane_context cu m (it_model_id t) l"
  have c: "ln_context ?l \<noteq> None" using assms(3) by (auto simp: lane_context_def)
  have "defined (copy_to_device cu (it_input_payload t) (mi_total_input_bytes m) (ln_d_input l1))"
    if "lane_buffers cu m ?l = Inr l1" for l1
    using lane_buffers_cases [OF lane_context_ok [OF assms(1)] _ that] assms(2) assms(4) [OF Some]
    by (auto simp: copy_to_device_def lane_ok_def word_le_nat_alt)
  moreover have "ln_context l1 \<noteq> None" if "lane_buffers cu m ?l = Inr l1" for l1
    using lane_buffers_cases [OF lane_context_ok [OF assms(1)] _ that] assms(2) c by simp
  ultimately show ?thesis
    by (auto simp: take_task_def Some Let_def lane_enqueue_def lane_buffers_defined intro!: defined_bind split: option.splits)
qed (simp add: take_task_def)

lemma mset_concat_update:
  assumes "i < length xs"
  shows "mset (concat (map f (xs[i := x]))) + mset (f (xs ! i)) = mset (concat (map f xs)) + mset (f x)"
  using assms
proof (induction xs arbitrary: i)
  case (Cons y ys)
  then show ?case by (cases i) (auto simp: algebra_simps)
qed simp

lemma worker_step_cases:
  assumes "worker_ok w" "gpu_worker_step cu ms w = Inr (w', ans)"
  obtains (poll) i l' p where "i < length (wk_lanes w)" "lane_ok (wk_lanes w ! i)" "poll_lane cu (wk_lanes w ! i) = Inr (l', ans)"
      "w' = w \<lparr> wk_pos := p, wk_lanes := (wk_lanes w)[i := l'] \<rparr>"
  | (idle) p where "ans = []" "w' = w \<lparr> wk_pos := p \<rparr>"
  | (hand_out) i t q l' p where "i < length (wk_lanes w)" "lane_ok (wk_lanes w ! i)" "\<not> ln_in_flight (wk_lanes w ! i)" "wk_queue w = t # q"
      "take_task cu ms t (wk_lanes w ! i) = Inr (l', ans)" "w' = w \<lparr> wk_pos := p, wk_queue := q, wk_lanes := (wk_lanes w)[i := l'] \<rparr>"
proof -
  let ?i = "wk_pos w mod NUM_STREAMS_PER_GPU"
  have i: "?i < length (wk_lanes w)" using assms(1) by (simp add: worker_ok_def NUM_STREAMS_PER_GPU_def)
  then have l: "lane_ok (wk_lanes w ! ?i)" using assms(1) by (simp add: worker_ok_def)
  show thesis
    using assms(2) i l
    by (auto simp: gpu_worker_step_def Let_def run_bind_Inr_iff try_pop_def split: if_splits list.splits
        intro: poll [OF i l] idle hand_out [OF i l])
qed

lemma lanes_update:
  assumes "worker_ok w" "i < length (wk_lanes w)" "lane_ok l'" "mset (lane_tasks (wk_lanes w ! i)) + mset new = mset ts + mset (lane_tasks l')"
  shows "worker_ok (w \<lparr> wk_pos := p, wk_queue := q, wk_lanes := (wk_lanes w)[i := l'] \<rparr>)"
    "mset (concat (map lane_tasks (wk_lanes w))) + mset new = mset ts + mset (concat (map lane_tasks ((wk_lanes w)[i := l'])))" (is "?old + _ = _ + ?new")
proof -
  show "worker_ok (w \<lparr> wk_pos := p, wk_queue := q, wk_lanes := (wk_lanes w)[i := l'] \<rparr>)"
    using assms(1,3) by (auto simp: worker_ok_def dest: set_update_subset_insert [THEN subsetD])
  have "?old + mset new + mset (lane_tasks l') = ?new + (mset (lane_tasks (wk_lanes w ! i)) + mset new)"
    using mset_concat_update [OF assms(2), of lane_tasks l'] by (simp add: ac_simps)
  also have "\<dots> = mset ts + ?new + mset (lane_tasks l')" unfolding assms(4) by (simp add: ac_simps)
  finally show "?old + mset new = mset ts + ?new" by simp
qed

lemma worker_step_ok:
  assumes "worker_ok w" "gpu_worker_step cu ms w = Inr (w', ans)"
  shows "worker_ok w' \<and> (\<exists>ts. mset (gpu_worker_tasks w) = mset ts + mset (gpu_worker_tasks w') \<and> map fst ans = map it_promise ts)"
proof (cases rule: worker_step_cases [OF assms])
  case (1 i l' p)
  from poll_lane_ok [OF 1(2,3)] obtain ts where ts: "lane_ok l'" "mset (lane_tasks (wk_lanes w ! i)) + mset [] = mset ts + mset (lane_tasks l')" "map fst ans = map it_promise ts"
    by auto
  from lanes_update [OF assms(1) 1(1) ts(1,2)] 1(4) have "worker_ok w'" "mset (gpu_worker_tasks w) = mset ts + mset (gpu_worker_tasks w')"
    by (simp_all add: gpu_worker_tasks_def worker_ok_def)
  with ts(3) show ?thesis by blast
next
  case (2 p)
  with assms(1) show ?thesis by (auto simp: worker_ok_def gpu_worker_tasks_def)
next
  case (3 i t q l' p)
  have "lane_tasks (wk_lanes w ! i) = []" using 3(3) by (simp add: lane_tasks_def)
  with take_task_ok [OF 3(2,3,5)] obtain ts where ts: "lane_ok l'" "mset (lane_tasks (wk_lanes w ! i)) + mset [t] = mset ts + mset (lane_tasks l')" "map fst ans = map it_promise ts"
    by auto
  from lanes_update [OF assms(1) 3(1) ts(1,2)] 3(4,6) have "worker_ok w'" "mset (gpu_worker_tasks w) = mset ts + mset (gpu_worker_tasks w')"
    by (simp_all add: gpu_worker_tasks_def ac_simps)
  with ts(3) show ?thesis by blast
qed

end
