(* ===== verification/Gpu_System.thy ===== *)
theory Gpu_System
  imports Gpu_Lanes
begin

text \<open>
  The workers of the GPU runtime server together with the clients that load models and push tasks: any interleaving of lane visits, pushed
  tasks and loaded models.  The source does not lock the model store; a load is one step here, so the data race between a load and a
  lookup is outside the model.
\<close>

section \<open>The system\<close>

text \<open>\<open>gs_answers\<close> lists the promises fulfilled so far with their values; \<open>gs_tasks\<close> records, for the statements, every task pushed so far together
  with the model registered for it at that time.\<close>

record GpuSys =
  gs_models :: models
  gs_workers :: "Worker list"
  gs_rr_counter :: u32
  gs_answers :: "(nat \<times> bytes) list"
  gs_tasks :: "(InferenceTask \<times> TrtModelInstance option) list"

definition GpuSys_start :: "nat \<Rightarrow> GpuSys" where
  "GpuSys_start num_gpus = \<lparr> gs_models = Map.empty, gs_workers = replicate num_gpus Worker_init, gs_rr_counter = 0, gs_answers = [], gs_tasks = [] \<rparr>"

definition submit_task :: "u32 \<Rightarrow> bytes \<Rightarrow> GpuSys \<Rightarrow> GpuSys" where
  "submit_task model_id payload s =
     (let t = \<lparr> it_model_id = model_id, it_input_payload = payload, it_promise = length (gs_tasks s) \<rparr>;
          q_idx = unat (gs_rr_counter s) mod length (gs_workers s); w = gs_workers s ! q_idx in
      s \<lparr> gs_rr_counter := gs_rr_counter s + 1, gs_workers := (gs_workers s)[q_idx := w \<lparr> wk_queue := queue_push t (wk_queue w) \<rparr>],
          gs_tasks := gs_tasks s @ [(t, getModel (gs_models s) model_id)] \<rparr>)"

text \<open>A client's \<^verbatim>\<open>LOAD_MODEL\<close>.  Replacing the entry of an id drops the last reference to the old instance, since a worker holds one only during a visit, and
  destroys its engine.  TensorRT requires that an engine outlives the execution contexts created from it.  The contexts of the old engine are those of the
  lanes whose active model id is this one, so the load is undefined if there is such a lane.\<close>

definition engine_in_use :: "u32 \<Rightarrow> GpuSys \<Rightarrow> bool" where
  "engine_in_use model_id s \<longleftrightarrow> list_ex (\<lambda>w. list_ex (\<lambda>l. ln_context l \<noteq> None \<and> ln_active_model_id l = model_id) (wk_lanes w)) (gs_workers s)"

definition load_model :: "Trt \<Rightarrow> u32 \<Rightarrow> string \<Rightarrow> GpuSys \<Rightarrow> (bool \<times> GpuSys) run" where
  "load_model trt model_id onnx_path s =
     run_bind (loadOnnxModel trt model_id onnx_path (gs_models s)) (\<lambda>(ok, ms).
     if ok \<and> gs_models s model_id \<noteq> None \<and> engine_in_use model_id s then Inl (Undefined ''engine destroyed before its execution context'')
     else Inr (ok, s \<lparr> gs_models := ms \<rparr>))"

text \<open>The calls whose failure the code ignores succeed.\<close>

definition calls_ok :: "CudaCalls \<Rightarrow> bool" where
  "calls_ok cu \<longleftrightarrow> cu_set_address cu = (\<lambda>name. True) \<and> cu_enqueue cu"

text \<open>The flag \<open>reload\<close> says whether a model id may be loaded again, \<open>faults\<close> whether calls may fail unnoticed.\<close>

inductive runtime_step :: "Trt \<Rightarrow> bool \<Rightarrow> bool \<Rightarrow> GpuSys \<Rightarrow> GpuSys \<Rightarrow> bool" for trt :: Trt and reload faults :: bool where
  submit: "gs_workers s \<noteq> [] \<Longrightarrow> runtime_step trt reload faults s (submit_task model_id payload s)"
| load: "load_model trt model_id path s = Inr (ok, s') \<Longrightarrow> reload \<or> gs_models s model_id = None \<Longrightarrow> runtime_step trt reload faults s s'"
| work: "g < length (gs_workers s) \<Longrightarrow> faults \<or> calls_ok cu \<Longrightarrow> gpu_worker_step cu (gs_models s) (gs_workers s ! g) = Inr (w, ans) \<Longrightarrow>
    runtime_step trt reload faults s (s \<lparr> gs_workers := (gs_workers s)[g := w], gs_answers := gs_answers s @ ans \<rparr>)"

lemma load_model_cases:
  assumes "load_model trt k path s = Inr (ok, s')"
  obtains (same) "s' = s"
  | (new) m bs e where "s' = s \<lparr> gs_models := (gs_models s)(k \<mapsto> m) \<rparr>" "trt_deserializeCudaEngine trt bs = Some e" "m = inspectBindings (new_instance e)"
      "gs_models s k = None \<or> \<not> engine_in_use k s"
  using assms by (auto simp: load_model_def run_bind_Inr_iff loadOnnxModel_def Let_def split: if_splits option.splits)

section \<open>No task is lost\<close>

definition outstanding :: "GpuSys \<Rightarrow> InferenceTask list" where
  "outstanding s = concat (map gpu_worker_tasks (gs_workers s))"

text \<open>Every promise is held by exactly one queue or lane or has been fulfilled exactly once, and the tasks held are the tasks pushed.\<close>

definition sys_ok :: "GpuSys \<Rightarrow> bool" where
  "sys_ok s \<longleftrightarrow> (\<forall>w \<in> set (gs_workers s). worker_ok w) \<and>
     mset (map it_promise (outstanding s)) + mset (map fst (gs_answers s)) = mset [0..<length (gs_tasks s)] \<and>
     (\<forall>t \<in> set (outstanding s). it_promise t < length (gs_tasks s) \<and> fst (gs_tasks s ! it_promise t) = t)"

lemma sys_ok_start: "sys_ok (GpuSys_start n)"
  by (simp add: sys_ok_def GpuSys_start_def Worker_init_def worker_ok_def gpu_worker_tasks_def StreamLane_init_def lane_ok_def lane_tasks_def outstanding_def
      map_replicate_const concat_replicate_trivial)

lemma sys_ok_submit:
  assumes "sys_ok s" "gs_workers s \<noteq> []"
  shows "sys_ok (submit_task k payload s)"
proof -
  let ?q = "unat (gs_rr_counter s) mod length (gs_workers s)"
  let ?t = "\<lparr> it_model_id = k, it_input_payload = payload, it_promise = length (gs_tasks s) \<rparr>"
  let ?w = "(gs_workers s ! ?q) \<lparr> wk_queue := queue_push ?t (wk_queue (gs_workers s ! ?q)) \<rparr>"
  let ?s = "submit_task k payload s"
  have q: "?q < length (gs_workers s)" using assms(2) by simp
  have ws: "gs_workers ?s = (gs_workers s)[?q := ?w]" by (simp add: submit_task_def Let_def)
  have "mset (gpu_worker_tasks ?w) = add_mset ?t (mset (gpu_worker_tasks (gs_workers s ! ?q)))" by (simp add: gpu_worker_tasks_def queue_push_def)
  with mset_concat_update [OF q, of gpu_worker_tasks ?w] have out: "mset (outstanding ?s) = add_mset ?t (mset (outstanding s))"
    by (simp add: outstanding_def ws)
  have set_out: "set (outstanding ?s) = insert ?t (set (outstanding s))" using arg_cong [OF out, of set_mset] by simp
  have tasks: "gs_tasks ?s = gs_tasks s @ [(?t, getModel (gs_models s) k)]" "gs_answers ?s = gs_answers s" by (simp_all add: submit_task_def Let_def)
  have "worker_ok ?w" using assms(1) q by (auto simp: sys_ok_def worker_ok_def)
  then have "\<forall>w \<in> set (gs_workers ?s). worker_ok w"
    using assms(1) unfolding ws by (auto simp: sys_ok_def dest: set_update_subset_insert [THEN subsetD])
  moreover have "mset (map it_promise (outstanding ?s)) = add_mset (length (gs_tasks s)) (mset (map it_promise (outstanding s)))"
    using arg_cong [OF out, of "image_mset it_promise"] by simp
  ultimately show ?thesis
    using assms(1) unfolding sys_ok_def tasks set_out by (auto simp: nth_append)
qed

lemma sys_ok_work:
  assumes "sys_ok s" "g < length (gs_workers s)" "gpu_worker_step cu (gs_models s) (gs_workers s ! g) = Inr (w, ans)"
  shows "sys_ok (s \<lparr> gs_workers := (gs_workers s)[g := w], gs_answers := gs_answers s @ ans \<rparr>)" (is "sys_ok ?s")
proof -
  have "worker_ok (gs_workers s ! g)" using assms(1,2) by (simp add: sys_ok_def)
  from worker_step_ok [OF this assms(3)] obtain ts where w: "worker_ok w"
    and ts: "mset (gpu_worker_tasks (gs_workers s ! g)) = mset ts + mset (gpu_worker_tasks w)" "map fst ans = map it_promise ts" by blast
  have out: "mset (outstanding s) = mset ts + mset (outstanding ?s)"
    using mset_concat_update [OF assms(2), of gpu_worker_tasks w] ts(1) by (simp add: outstanding_def ac_simps)
  have sub: "set (outstanding ?s) \<subseteq> set (outstanding s)" using arg_cong [OF out, of set_mset] by auto
  have "mset (map it_promise (outstanding s)) = mset (map fst ans) + mset (map it_promise (outstanding ?s))"
    using arg_cong [OF out, of "image_mset it_promise"] by (simp add: ts(2))
  moreover have "\<forall>w \<in> set (gs_workers ?s). worker_ok w"
    using assms(1) w by (auto simp: sys_ok_def dest: set_update_subset_insert [THEN subsetD])
  ultimately show ?thesis using assms(1) sub unfolding sys_ok_def by (auto simp: ac_simps)
qed

lemma sys_ok_step: "runtime_step trt reload faults s s' \<Longrightarrow> sys_ok s \<Longrightarrow> sys_ok s'"
proof (induction rule: runtime_step.induct)
  case (load model_id path s ok s')
  then show ?case by (elim load_model_cases) (simp_all add: sys_ok_def outstanding_def)
qed (simp_all add: sys_ok_submit sys_ok_work)

lemma sys_ok_reachable: "(runtime_step trt reload faults)\<^sup>*\<^sup>* s s' \<Longrightarrow> sys_ok s \<Longrightarrow> sys_ok s'"
  by (induction rule: rtranclp_induct) (auto dest: sys_ok_step)

section \<open>Execution contexts\<close>

text \<open>A lane that has a context has it from the model now registered under its active id, and has run a task of that id; a lane in flight has a context.  So no
  context is used after its engine was destroyed.\<close>

definition lane_used :: "models \<Rightarrow> u32 set \<Rightarrow> StreamLane \<Rightarrow> bool" where
  "lane_used ms ids l \<longleftrightarrow> (case ln_context l of
      None \<Rightarrow> \<not> ln_in_flight l
    | Some c \<Rightarrow> ln_active_model_id l \<in> ids \<and> (\<exists>m. ms (ln_active_model_id l) = Some m \<and> cx_engine c = mi_engine m))"

definition has_context :: "Worker \<Rightarrow> bool" where
  "has_context w \<longleftrightarrow> list_ex (\<lambda>l. ln_context l \<noteq> None) (wk_lanes w)"

definition sys_used :: "GpuSys \<Rightarrow> bool" where
  "sys_used s \<longleftrightarrow> (\<forall>w \<in> set (gs_workers s). \<forall>l \<in> set (wk_lanes w). lane_used (gs_models s) (it_model_id ` fst ` set (gs_tasks s)) l) \<and>
     ((\<exists>(p, v) \<in> set (gs_answers s). v \<noteq> []) \<longrightarrow> (\<exists>w \<in> set (gs_workers s). has_context w))"

lemma has_context_update:
  assumes "has_context w \<or> ln_context l' \<noteq> None" "i < length (wk_lanes w)" "ln_context (wk_lanes w ! i) \<noteq> None \<Longrightarrow> ln_context l' \<noteq> None"
  shows "has_context (w \<lparr> wk_pos := p, wk_queue := q, wk_lanes := (wk_lanes w)[i := l'] \<rparr>)"
proof -
  obtain j where "j < length (wk_lanes w)" "ln_context ((wk_lanes w)[i := l'] ! j) \<noteq> None"
    using assms by (auto simp: has_context_def list_ex_iff in_set_conv_nth) (metis nth_list_update option.simps(3))+
  then show ?thesis unfolding has_context_def list_ex_iff by (intro bexI [of _ "(wk_lanes w)[i := l'] ! j"]) simp_all
qed

lemma worker_used_step:
  assumes "worker_ok w" "\<forall>l \<in> set (wk_lanes w). lane_used ms ids l" "gpu_worker_step cu ms w = Inr (w', ans)" "\<forall>t \<in> set (wk_queue w). it_model_id t \<in> ids"
  shows "(\<forall>l \<in> set (wk_lanes w'). lane_used ms ids l) \<and> (has_context w \<or> (\<exists>(p, v) \<in> set ans. v \<noteq> []) \<longrightarrow> has_context w')"
proof (cases rule: worker_step_cases [OF assms(1,3)])
  case (1 i l' p)
  have l: "lane_used ms ids (wk_lanes w ! i)" using 1(1) assms(2) by simp
  have c: "ln_context l' = ln_context (wk_lanes w ! i)" "lane_used ms ids l'" "\<And>x. x \<in> set ans \<Longrightarrow> ln_context l' \<noteq> None"
    using 1(3) l by (auto simp: poll_lane_def lane_used_def split: if_splits option.splits)
  then show ?thesis
    using 1(1,4) assms(2) has_context_update [of w l' i, where p = p and q = "wk_queue w"] by (auto dest: set_update_subset_insert [THEN subsetD])
next
  case (2 p)
  with assms(2) show ?thesis by (simp add: has_context_def)
next
  case (3 i t q l' p)
  have l: "lane_used ms ids (wk_lanes w ! i)" using 3(1) assms(2) by simp
  have "lane_used ms ids l' \<and> (ln_context (wk_lanes w ! i) \<noteq> None \<longrightarrow> ln_context l' \<noteq> None) \<and> (\<forall>(p, v) \<in> set ans. v = [])"
  proof (cases rule: take_task_cases [OF 3(2,3,5)])
    case 1
    with l show ?thesis by simp
  next
    case (2 m c d d_out)
    then have "cx_engine c = mi_engine m" using l by (auto simp: lane_context_def lane_used_def getModel_def split: if_splits)
    with 2 3(4) assms(4) show ?thesis by (simp add: lane_used_def getModel_def)
  qed
  then show ?thesis
    using 3(1,6) assms(2) has_context_update [of w l' i, where p = p and q = q] by (auto dest: set_update_subset_insert [THEN subsetD])
qed

lemma queued_ids: "sys_ok s \<Longrightarrow> w \<in> set (gs_workers s) \<Longrightarrow> t \<in> set (wk_queue w) \<Longrightarrow> it_model_id t \<in> it_model_id ` fst ` set (gs_tasks s)"
proof -
  assume s: "sys_ok s" and t: "w \<in> set (gs_workers s)" "t \<in> set (wk_queue w)"
  then have "t \<in> set (outstanding s)" by (auto simp: outstanding_def gpu_worker_tasks_def)
  with s have "it_promise t < length (gs_tasks s)" "fst (gs_tasks s ! it_promise t) = t" by (auto simp: sys_ok_def)
  then show ?thesis by (metis image_eqI nth_mem)
qed

lemma sys_used_work:
  assumes "sys_ok s" "sys_used s" "g < length (gs_workers s)" "gpu_worker_step cu (gs_models s) (gs_workers s ! g) = Inr (w, ans)"
  shows "sys_used (s \<lparr> gs_workers := (gs_workers s)[g := w], gs_answers := gs_answers s @ ans \<rparr>)"
proof -
  let ?w = "gs_workers s ! g" and ?ids = "it_model_id ` fst ` set (gs_tasks s)"
  have g: "?w \<in> set (gs_workers s)" using assms(3) by simp
  have "worker_ok ?w" "\<forall>l \<in> set (wk_lanes ?w). lane_used (gs_models s) ?ids l" "\<forall>t \<in> set (wk_queue ?w). it_model_id t \<in> ?ids"
    using assms(1,2) g queued_ids [OF assms(1) g] by (auto simp: sys_ok_def sys_used_def)
  from worker_used_step [OF this(1,2) assms(4) this(3)]
  have w: "\<forall>l \<in> set (wk_lanes w). lane_used (gs_models s) ?ids l" "has_context ?w \<or> (\<exists>(p, v) \<in> set ans. v \<noteq> []) \<Longrightarrow> has_context w" by auto
  have "\<exists>x \<in> set ((gs_workers s)[g := w]). has_context x" if "(\<exists>x \<in> set (gs_workers s). has_context x) \<or> (\<exists>(p, v) \<in> set ans. v \<noteq> [])"
  proof -
    from that w(2) obtain j where "j < length (gs_workers s)" "has_context ((gs_workers s)[g := w] ! j)"
      using assms(3) by (metis in_set_conv_nth nth_list_update)
    then show ?thesis by (intro bexI [of _ "(gs_workers s)[g := w] ! j"]) simp_all
  qed
  with assms(2) w(1) show ?thesis by (auto simp: sys_used_def dest: set_update_subset_insert [THEN subsetD])
qed

lemma lane_used_new: "lane_used ms ids l \<Longrightarrow> ln_context l \<noteq> None \<longrightarrow> ln_active_model_id l \<noteq> k \<or> ms k = None \<Longrightarrow> lane_used (ms(k \<mapsto> m)) ids l"
  by (auto simp: lane_used_def split: option.splits)

lemma lane_used_mono: "lane_used ms ids l \<Longrightarrow> ids \<subseteq> ids' \<Longrightarrow> lane_used ms ids' l"
  by (auto simp: lane_used_def split: option.splits)

lemma sys_used_submit:
  assumes "sys_used s" "gs_workers s \<noteq> []"
  shows "sys_used (submit_task k payload s)"
proof -
  let ?q = "unat (gs_rr_counter s) mod length (gs_workers s)" and ?s = "submit_task k payload s"
  let ?t = "\<lparr> it_model_id = k, it_input_payload = payload, it_promise = length (gs_tasks s) \<rparr>"
  have "map wk_lanes (gs_workers ?s) = map wk_lanes (gs_workers s)"
    by (simp add: submit_task_def Let_def map_update list_update_same_conv assms(2))
  then have lanes: "wk_lanes ` set (gs_workers ?s) = wk_lanes ` set (gs_workers s)" by (metis list.set_map)
  have "has_context w \<longleftrightarrow> list_ex (\<lambda>l. ln_context l \<noteq> None) (wk_lanes w)" for w by (simp add: has_context_def)
  then have ctx: "(\<exists>w \<in> set (gs_workers ?s). has_context w) \<longleftrightarrow> (\<exists>w \<in> set (gs_workers s). has_context w)"
    using lanes by (metis (no_types, lifting) image_iff)
  have "set (gs_tasks s) \<subseteq> set (gs_tasks ?s)" by (auto simp: submit_task_def Let_def)
  then have ids: "it_model_id ` fst ` set (gs_tasks s) \<subseteq> it_model_id ` fst ` set (gs_tasks ?s)" by blast
  have "lane_used (gs_models s) (it_model_id ` fst ` set (gs_tasks ?s)) l" if w: "w \<in> set (gs_workers ?s)" "l \<in> set (wk_lanes w)" for w l
  proof -
    from w(1) lanes obtain w' where w': "w' \<in> set (gs_workers s)" "wk_lanes w' = wk_lanes w" by (metis imageE imageI)
    with assms(1) w(2) have "lane_used (gs_models s) (it_model_id ` fst ` set (gs_tasks s)) l" by (simp add: sys_used_def)
    then show ?thesis using ids by (rule lane_used_mono)
  qed
  moreover have "gs_models ?s = gs_models s" "gs_answers ?s = gs_answers s" by (simp_all add: submit_task_def Let_def)
  ultimately show ?thesis using assms(1) unfolding sys_used_def ctx by simp
qed

lemma sys_used_load:
  assumes "sys_used s" "load_model trt k path s = Inr (ok, s')"
  shows "sys_used s'"
proof (cases rule: load_model_cases [OF assms(2)])
  case 1
  with assms(1) show ?thesis by simp
next
  case (2 m bs e)
  have "ln_context l \<noteq> None \<longrightarrow> ln_active_model_id l \<noteq> k \<or> gs_models s k = None" if "w \<in> set (gs_workers s)" "l \<in> set (wk_lanes w)" for w l
    using 2(4) that unfolding engine_in_use_def list_ex_iff by metis
  then have "lane_used ((gs_models s)(k \<mapsto> m)) (it_model_id ` fst ` set (gs_tasks s)) l" if "w \<in> set (gs_workers s)" "l \<in> set (wk_lanes w)" for w l
    using lane_used_new [of "gs_models s" _ l k m] assms(1) that by (simp add: sys_used_def)
  with assms(1) 2(1) show ?thesis by (simp add: sys_used_def)
qed

lemma sys_used_reachable:
  assumes "(runtime_step trt reload faults)\<^sup>*\<^sup>* (GpuSys_start n) s"
  shows "sys_ok s \<and> sys_used s"
  using assms
proof (induction rule: rtranclp_induct)
  case base
  have "sys_used (GpuSys_start n)" by (auto simp: sys_used_def GpuSys_start_def Worker_init_def StreamLane_init_def lane_used_def)
  then show ?case by (simp add: sys_ok_start)
next
  case (step s s')
  then have "sys_ok s'" using sys_ok_step by blast
  moreover from step(2,3) have "sys_used s'"
    by (cases rule: runtime_step.cases) (auto intro: sys_used_submit sys_used_load sys_used_work)
  ultimately show ?case by simp
qed

text \<open>Once a task has run, the id of some task is in use by a lane.\<close>

lemma answered_in_use:
  assumes "sys_used s" "(p, v) \<in> set (gs_answers s)" "v \<noteq> []"
  obtains t where "t \<in> fst ` set (gs_tasks s)" "engine_in_use (it_model_id t) s" "gs_models s (it_model_id t) \<noteq> None"
proof -
  obtain w l c where l: "w \<in> set (gs_workers s)" "l \<in> set (wk_lanes w)" "ln_context l = Some c"
    using assms by (fastforce simp: sys_used_def has_context_def list_ex_iff)
  with assms(1) have "lane_used (gs_models s) (it_model_id ` fst ` set (gs_tasks s)) l" by (simp add: sys_used_def)
  then obtain t where "t \<in> fst ` set (gs_tasks s)" "ln_active_model_id l = it_model_id t" "gs_models s (it_model_id t) \<noteq> None"
    using l(3) by (fastforce simp: lane_used_def)
  moreover have "engine_in_use (it_model_id t) s" using calculation(2) l by (fastforce simp: engine_in_use_def list_ex_iff)
  ultimately show thesis by (intro that)
qed

section \<open>Answers\<close>

text \<open>The addresses of a model's tensors as the code binds them, and what an inference returns: the output of the engine with these addresses on the first
  bytes of the payload.  All input tensors are read from the start of the payload, since they have the same address.\<close>

definition bound_addresses :: "TrtModelInstance \<Rightarrow> string \<Rightarrow> DevPtr option" where
  "bound_addresses m = set_addresses (\<lambda>name. True) m Map.empty"

definition infer :: "TrtModelInstance \<Rightarrow> bytes \<Rightarrow> bytes" where
  "infer m payload = take (unat (mi_total_output_bytes m)) (en_enqueue (mi_engine m) (bound_addresses m) (take (unat (mi_total_input_bytes m)) payload))"

text \<open>What is relied on of an engine: it has at most one output tensor (the documentation leaves several for later), with the addresses bound as above it writes the
  whole of it, and it reads no more than its input tensors.\<close>

definition engine_local :: "TrtModelInstance \<Rightarrow> bool" where
  "engine_local m \<longleftrightarrow> length (mi_output_bindings m) \<le> 1 \<and>
     (\<forall>inp. unat (mi_total_output_bytes m) \<le> length (en_enqueue (mi_engine m) (bound_addresses m) inp)) \<and>
     (\<forall>inp rest. length inp = unat (mi_total_input_bytes m) \<longrightarrow>
        en_enqueue (mi_engine m) (bound_addresses m) (inp @ rest) = en_enqueue (mi_engine m) (bound_addresses m) inp)"

definition trt_local :: "Trt \<Rightarrow> bool" where
  "trt_local trt \<longleftrightarrow> (\<forall>bs e. trt_deserializeCudaEngine trt bs = Some e \<longrightarrow> engine_local (inspectBindings (new_instance e)))"



lemma fold_set_address: "fold (set_address (\<lambda>name. True) p) bs addr = addr ++ fold (set_address (\<lambda>name. True) p) bs Map.empty"
proof (induction bs rule: rev_induct)
  case (snoc b bs)
  then show ?case by (simp del: fun_upd_apply add: set_address_def fun_upd_def map_add_def fun_eq_iff)
qed simp

lemma set_addresses_bound: "set_addresses (\<lambda>name. True) m (bound_addresses m) = bound_addresses m"
proof -
  have "set_addresses (\<lambda>name. True) m addr = addr ++ bound_addresses m" for addr
    unfolding set_addresses_def bound_addresses_def
    by (subst fold_set_address, subst fold_set_address, subst (2) fold_set_address) simp
  from this [of "bound_addresses m"] show ?thesis by (simp add: map_add_def fun_eq_iff split: option.splits)
qed

















section \<open>A run of one worker\<close>

definition demo_worker :: "InferenceTask list \<Rightarrow> StreamLane \<Rightarrow> nat \<Rightarrow> Worker" where
  "demo_worker q l p = \<lparr> wk_queue = q, wk_lanes = l # replicate 15 StreamLane_init, wk_pos = p \<rparr>"

definition demo_calls :: "bool \<Rightarrow> CudaCalls" where
  "demo_calls ok = \<lparr> cu_stream_done = True, cu_malloc = True, cu_fresh = (\<lambda>i. 0), cu_memcpy = True, cu_sync = True, cu_context = True,
     cu_set_address = (\<lambda>name. True), cu_enqueue = ok, cu_partial = [] \<rparr>"

lemma demo_lane: "0 < i \<Longrightarrow> i < 16 \<Longrightarrow> (l # replicate 15 StreamLane_init) ! i = StreamLane_init"
  by (simp add: nth_Cons')

lemma demo_poll_idle:
  assumes "p < 16" "p = 0 \<longrightarrow> \<not> ln_in_flight l"
  shows "gpu_worker_step cu ms (demo_worker q l p) = Inr (demo_worker q l (p + 1), [])"
proof -
  have "poll_lane cu ((l # replicate 15 StreamLane_init) ! p) = Inr ((l # replicate 15 StreamLane_init) ! p, [])"
    using assms by (cases "p = 0") (simp_all add: poll_lane_def demo_lane StreamLane_init_def)
  then show ?thesis using assms(1)
    by (simp add: gpu_worker_step_def demo_worker_def Let_def NUM_STREAMS_PER_GPU_def run_bind_def list_update_id del: list_update.simps)
qed

lemma workers_same: "gs_workers s = ws \<Longrightarrow> s \<lparr> gs_workers := ws \<rparr> = s"
  by simp

lemma demo_skip: "16 \<le> p \<Longrightarrow> p < 32 \<Longrightarrow> gpu_worker_step cu ms (demo_worker [] l p) = Inr (demo_worker [] l ((p + 1) mod 32), [])"
  by (simp add: gpu_worker_step_def demo_worker_def Let_def NUM_STREAMS_PER_GPU_def try_pop_def)

lemma demo_visit:
  assumes "gs_workers s = [w]" "faults \<or> ok" "gpu_worker_step (demo_calls ok) (gs_models s) w = Inr (w', ans)"
  shows "runtime_step trt reload faults s (s \<lparr> gs_workers := [w'], gs_answers := gs_answers s @ ans \<rparr>)"
  using runtime_step.work [of 0 s faults "demo_calls ok" w' ans trt reload] assms by (auto simp: calls_ok_def demo_calls_def)

lemma demo_polls:
  assumes "gs_workers s = [demo_worker q l p]" "p \<le> p'" "p' \<le> 16" "\<not> ln_in_flight l"
  shows "(runtime_step trt reload faults)\<^sup>*\<^sup>* s (s \<lparr> gs_workers := [demo_worker q l p'] \<rparr>)"
  using assms(2,3)
proof (induction p' rule: dec_induct)
  case base
  then show ?case using workers_same [OF assms(1)] by simp
next
  case (step n)
  let ?s = "s \<lparr> gs_workers := [demo_worker q l n] \<rparr>"
  have "gpu_worker_step (demo_calls True) (gs_models ?s) (demo_worker q l n) = Inr (demo_worker q l (Suc n), [])"
    using demo_poll_idle [of n l "demo_calls True" "gs_models ?s" q] step(4) assms(4) by simp
  from demo_visit [OF _ _ this, of faults trt reload] have "runtime_step trt reload faults ?s (s \<lparr> gs_workers := [demo_worker q l (Suc n)] \<rparr>)" by simp
  with step show ?case by (simp add: rtranclp.rtrancl_into_rtrancl)
qed

lemma demo_skips:
  assumes "gs_workers s = [demo_worker [] l p]" "p \<le> p'" "16 \<le> p" "p' \<le> 32"
  shows "(runtime_step trt reload faults)\<^sup>*\<^sup>* s (s \<lparr> gs_workers := [demo_worker [] l (if p = p' then p else p' mod 32)] \<rparr>)"
  using assms(2,4)
proof (induction p' rule: dec_induct)
  case base
  then show ?case using workers_same [OF assms(1)] by simp
next
  case (step n)
  let ?s = "s \<lparr> gs_workers := [demo_worker [] l n] \<rparr>"
  have "gpu_worker_step (demo_calls True) (gs_models ?s) (demo_worker [] l n) = Inr (demo_worker [] l (Suc n mod 32), [])"
    using demo_skip [of n "demo_calls True" "gs_models ?s" l] step(1,4) assms(3) by simp
  from demo_visit [OF _ _ this, of faults trt reload] have "runtime_step trt reload faults ?s (s \<lparr> gs_workers := [demo_worker [] l (Suc n mod 32)] \<rparr>)" by simp
  moreover have "(if p = n then p else n mod 32) = n" using step(4) by simp
  ultimately show ?case using step assms(3) by (auto simp: rtranclp.rtrancl_into_rtrancl)
qed

text \<open>A whole round: the task waits until lane 0 is visited, runs, and is answered at the next poll.\<close>

lemma demo_round:
  assumes "gs_workers s = [demo_worker [t] l p]" "p \<le> 1" "\<not> ln_in_flight l" "faults \<or> ok"
    "take_task (demo_calls ok) (gs_models s) t l = Inr (l1, [])" "poll_lane (demo_calls ok) l1 = Inr (l2, ans)"
  shows "(runtime_step trt reload faults)\<^sup>*\<^sup>* s (s \<lparr> gs_workers := [demo_worker [] l2 1], gs_answers := gs_answers s @ ans \<rparr>)"
proof -
  let ?s1 = "s \<lparr> gs_workers := [demo_worker [t] l 16] \<rparr>" and ?s2 = "s \<lparr> gs_workers := [demo_worker [] l1 17] \<rparr>"
  let ?s3 = "s \<lparr> gs_workers := [demo_worker [] l1 0] \<rparr>"
  have "(runtime_step trt reload faults)\<^sup>*\<^sup>* s ?s1" using demo_polls [OF assms(1), of 16] assms(2,3) by simp
  also have "gpu_worker_step (demo_calls ok) (gs_models ?s1) (demo_worker [t] l 16) = Inr (demo_worker [] l1 17, [])"
    using assms(3,5) by (simp add: gpu_worker_step_def demo_worker_def Let_def NUM_STREAMS_PER_GPU_def try_pop_def run_bind_def)
  from demo_visit [OF _ _ this, of faults trt reload] have "runtime_step trt reload faults ?s1 ?s2" using assms(4) by simp
  also have "(runtime_step trt reload faults)\<^sup>*\<^sup>* ?s2 ?s3" using demo_skips [of ?s2 l1 17 32 trt reload faults] by simp
  also have "gpu_worker_step (demo_calls ok) (gs_models ?s3) (demo_worker [] l1 0) = Inr (demo_worker [] l2 1, ans)"
    using assms(6) by (simp add: gpu_worker_step_def demo_worker_def Let_def NUM_STREAMS_PER_GPU_def run_bind_def)
  from demo_visit [OF _ _ this, of faults trt reload]
  have "runtime_step trt reload faults ?s3 (s \<lparr> gs_workers := [demo_worker [] l2 1], gs_answers := gs_answers s @ ans \<rparr>)" using assms(4) by simp
  finally show ?thesis .
qed

section \<open>A run of a model that returns its input byte\<close>

definition demo_engine :: Engine where
  "demo_engine = \<lparr> en_nb_io_tensors = 2, en_io_tensor_name = (\<lambda>i. if i = 0 then ''x'' else ''y''), en_tensor_is_input = (\<lambda>n. n = ''x''),
     en_tensor_data_type = (\<lambda>n. kINT8), en_tensor_shape = (\<lambda>n. [1]), en_enqueue = (\<lambda>addr inp. [case inp of [] \<Rightarrow> 0 | b # _ \<Rightarrow> b]) \<rparr>"

definition demo_trt :: Trt where
  "demo_trt = \<lparr> trt_parseFromFile = (\<lambda>p. True), trt_buildSerializedNetwork = (\<lambda>p. Some []), trt_deserializeCudaEngine = (\<lambda>bs. Some demo_engine) \<rparr>"

definition demo_model :: TrtModelInstance where
  "demo_model = inspectBindings (new_instance demo_engine)"

definition demo_task :: "nat \<Rightarrow> u8 \<Rightarrow> InferenceTask" where
  "demo_task n b = \<lparr> it_model_id = 7, it_input_payload = [b], it_promise = n \<rparr>"

text \<open>The lane after task \<open>n\<close> with payload \<open>b\<close>, with the output \<open>v\<close>.\<close>

definition demo_lane_done :: "nat \<Rightarrow> u8 \<Rightarrow> u8 \<Rightarrow> StreamLane" where
  "demo_lane_done n b v = \<lparr> ln_context = Some \<lparr> cx_engine = demo_engine, cx_addr = bound_addresses demo_model \<rparr>, ln_active_model_id = 7, ln_d_input = [b],
     ln_d_output = [v], ln_input_cap = 1, ln_output_cap = 1, ln_current_task = Some (demo_task n b), ln_output_size = 1, ln_in_flight = False \<rparr>"

lemma demo_model_eq: "demo_model = \<lparr> mi_engine = demo_engine, mi_input_bindings = [tensor_binding demo_engine 0],
    mi_output_bindings = [tensor_binding demo_engine 1], mi_total_input_bytes = 1, mi_total_output_bytes = 1 \<rparr>"
proof -
  have "[0..<2] = [0, 1 :: nat]" by (simp add: numeral_2_eq_2)
  then show ?thesis
    by (simp add: demo_model_def inspectBindings_def inspect_tensor_eq new_instance_def demo_engine_def tensor_binding_def Let_def)
qed

lemma demo_model_simps [simp]: "mi_engine demo_model = demo_engine" "mi_total_input_bytes demo_model = 1" "mi_total_output_bytes demo_model = 1"
  "length (mi_output_bindings demo_model) = 1" "en_enqueue demo_engine addr [b] = [b]"
  by (simp_all add: demo_model_eq) (simp add: demo_engine_def)

lemma demo_infer: "infer demo_model [b] = [b]"
  by (simp add: infer_def)

lemma demo_trt_local: "trt_local demo_trt"
proof -
  have "length inp = Suc 0 \<Longrightarrow> en_enqueue demo_engine addr (inp @ rest) = en_enqueue demo_engine addr inp" "length (en_enqueue demo_engine addr inp) = 1" for addr inp rest
    by (cases inp) (simp_all add: demo_engine_def)
  then have "engine_local demo_model" by (auto simp: engine_local_def)
  then show ?thesis by (simp add: trt_local_def demo_trt_def demo_model_def)
qed

lemma demo_first: "take_task (demo_calls True) [7 \<mapsto> demo_model] (demo_task n b) StreamLane_init = Inr ((demo_lane_done n b b) \<lparr> ln_in_flight := True \<rparr>, [])"
  by (simp add: take_task_def getModel_def demo_task_def lane_context_def StreamLane_init_def lane_buffers_def device_alloc_def demo_calls_def
      copy_to_device_def lane_enqueue_def overwrite_def bound_addresses_def run_bind_def Let_def demo_lane_done_def)

lemma demo_again: "take_task (demo_calls ok) [7 \<mapsto> demo_model] (demo_task n b) (demo_lane_done k a v) =
    Inr ((demo_lane_done n b (if ok then b else v)) \<lparr> ln_in_flight := True \<rparr>, [])"
  by (simp add: take_task_def getModel_def demo_task_def lane_context_def lane_buffers_def device_alloc_def demo_calls_def
      copy_to_device_def lane_enqueue_def overwrite_def set_addresses_bound run_bind_def Let_def demo_lane_done_def)

lemma demo_poll: "poll_lane (demo_calls ok) ((demo_lane_done n b v) \<lparr> ln_in_flight := True \<rparr>) = Inr (demo_lane_done n b v, [(n, [v])])"
  by (simp add: poll_lane_def demo_lane_done_def demo_calls_def demo_task_def)

lemma demo_load: "loadOnnxModel demo_trt 7 path ms = Inr (True, ms(7 \<mapsto> demo_model))"
  by (simp add: loadOnnxModel_def demo_trt_def demo_model_def Let_def)

definition demo_state :: "Worker \<Rightarrow> u32 \<Rightarrow> (nat \<times> bytes) list \<Rightarrow> (InferenceTask \<times> TrtModelInstance option) list \<Rightarrow> GpuSys" where
  "demo_state w rr ans ts = \<lparr> gs_models = [7 \<mapsto> demo_model], gs_workers = [w], gs_rr_counter = rr, gs_answers = ans, gs_tasks = ts \<rparr>"

lemma demo_submit: "submit_task 7 [b] (demo_state (demo_worker [] l p) rr ans ts) =
    demo_state (demo_worker [demo_task (length ts) b] l p) (rr + 1) ans (ts @ [(demo_task (length ts) b, Some demo_model)])"
  by (simp add: submit_task_def demo_state_def demo_worker_def demo_task_def queue_push_def getModel_def Let_def)

text \<open>One task is pushed and answered.\<close>

lemma demo_served:
  assumes "p \<le> 1" "\<not> ln_in_flight l" "faults \<or> ok"
    "take_task (demo_calls ok) [7 \<mapsto> demo_model] (demo_task (length ts) b) l = Inr ((demo_lane_done (length ts) b v) \<lparr> ln_in_flight := True \<rparr>, [])"
  shows "(runtime_step trt reload faults)\<^sup>*\<^sup>* (demo_state (demo_worker [] l p) rr ans ts)
    (demo_state (demo_worker [] (demo_lane_done (length ts) b v) 1) (rr + 1) (ans @ [(length ts, [v])]) (ts @ [(demo_task (length ts) b, Some demo_model)]))"
proof -
  let ?s = "demo_state (demo_worker [] l p) rr ans ts"
  have "runtime_step trt reload faults ?s (submit_task 7 [b] ?s)" by (rule runtime_step.submit) (simp add: demo_state_def)
  also have "(runtime_step trt reload faults)\<^sup>*\<^sup>* (submit_task 7 [b] ?s)
    ((submit_task 7 [b] ?s) \<lparr> gs_workers := [demo_worker [] (demo_lane_done (length ts) b v) 1], gs_answers := gs_answers (submit_task 7 [b] ?s) @ [(length ts, [v])] \<rparr>)"
    by (rule demo_round [OF _ assms(1-3) _ demo_poll, where t = "demo_task (length ts) b"]; unfold demo_submit; simp add: demo_state_def assms(4))
  finally show ?thesis unfolding demo_submit by (simp add: demo_state_def)
qed

lemma demo_start: "runtime_step demo_trt reload faults (GpuSys_start 1) (demo_state (demo_worker [] StreamLane_init 0) 0 [] [])"
proof -
  have "load_model demo_trt 7 [] (GpuSys_start 1) = Inr (True, GpuSys_start 1 \<lparr> gs_models := [7 \<mapsto> demo_model] \<rparr>)"
    by (simp add: load_model_def demo_load run_bind_def GpuSys_start_def)
  from runtime_step.load [OF this] have "runtime_step demo_trt reload faults (GpuSys_start 1) (GpuSys_start 1 \<lparr> gs_models := [7 \<mapsto> demo_model] \<rparr>)"
    by (simp add: GpuSys_start_def)
  moreover have "Worker_init = demo_worker [] StreamLane_init 0"
    by (simp add: Worker_init_def demo_worker_def NUM_STREAMS_PER_GPU_def numeral_Bit0 numeral_Bit1)
  ultimately show ?thesis by (simp add: GpuSys_start_def demo_state_def)
qed

text \<open>Two clients send 5 and 6; the enqueue of the second task succeeds or not.\<close>

definition demo_end :: "u8 \<Rightarrow> GpuSys" where
  "demo_end v = demo_state (demo_worker [] (demo_lane_done 1 6 v) 1) 2 [(0, [5]), (1, [v])] [(demo_task 0 5, Some demo_model), (demo_task 1 6, Some demo_model)]"

lemma demo_two:
  assumes "faults \<or> ok"
  shows "(runtime_step demo_trt reload faults)\<^sup>*\<^sup>* (GpuSys_start 1) (demo_end (if ok then 6 else 5))"
proof -
  let ?R = "runtime_step demo_trt reload faults"
  have "?R (GpuSys_start 1) (demo_state (demo_worker [] StreamLane_init 0) 0 [] [])" by (rule demo_start)
  also have "?R\<^sup>*\<^sup>* \<dots> (demo_state (demo_worker [] (demo_lane_done 0 5 5) 1) 1 [(0, [5])] [(demo_task 0 5, Some demo_model)])"
    using demo_served [of 0 StreamLane_init faults True "[]" 5 5 demo_trt reload 0 "[]"] demo_first [of 0 5] by (simp add: StreamLane_init_def)
  also have "?R\<^sup>*\<^sup>* \<dots> (demo_end (if ok then 6 else 5))"
    using demo_served [of 1 "demo_lane_done 0 5 5" faults ok "[(demo_task 0 5, Some demo_model)]" 6 "if ok then 6 else 5" demo_trt reload 1 "[(0, [5])]"]
      demo_again [of ok 1 6 0 5 5] assms by (simp add: demo_lane_done_def demo_end_def)
  finally show ?thesis .
qed

text \<open>That the ignored calls succeed is needed for the answers: when the enqueue of the second task fails, its client gets the result of the first.\<close>

lemma enqueue_failure_leaks:
  "\<exists>s. (runtime_step demo_trt False True)\<^sup>*\<^sup>* (GpuSys_start 1) s \<and> trt_local demo_trt \<and> (1, [5]) \<in> set (gs_answers s) \<and>
     gs_tasks s ! 1 = (demo_task 1 6, Some demo_model) \<and> infer demo_model (it_input_payload (demo_task 1 6)) = [6]"
  using demo_two [of True False False] demo_trt_local
  by (intro exI [of _ "demo_end 5"] conjI) (simp_all add: demo_end_def demo_state_def demo_task_def demo_infer)

section \<open>Properties\<close>

text \<open>C6. In every interleaving of clients and workers, with any device behaviour, no task is lost and no promise is fulfilled twice: the promises handed
  out so far are exactly those of the tasks still in a queue or running on a lane together with those fulfilled, each once, and what a queue or lane
  holds is the task that was pushed.\<close>

theorem gpu_tasks_accounted:
  assumes "(runtime_step trt reload faults)\<^sup>*\<^sup>* (GpuSys_start num_gpus) s"
  shows "mset (map it_promise (outstanding s)) + mset (map fst (gs_answers s)) = mset [0..<length (gs_tasks s)] \<and>
    distinct (map fst (gs_answers s)) \<and> (\<forall>t \<in> set (outstanding s). fst (gs_tasks s ! it_promise t) = t)"
proof -
  have ok: "sys_ok s" by (rule sys_ok_reachable [OF assms sys_ok_start])
  then have "mset (map it_promise (outstanding s) @ map fst (gs_answers s)) = mset [0..<length (gs_tasks s)]" by (simp add: sys_ok_def)
  then have "distinct (map it_promise (outstanding s) @ map fst (gs_answers s))" using mset_eq_imp_distinct_iff distinct_upt by blast
  with ok show ?thesis by (simp add: sys_ok_def)
qed

theorem gpu_tasks_accounted_witness:
  "\<exists>s. (runtime_step demo_trt True True)\<^sup>*\<^sup>* (GpuSys_start 1) s \<and> map fst (gs_answers s) = [0, 1] \<and> outstanding s = []"
proof -
  obtain s where s: "(runtime_step demo_trt True True)\<^sup>*\<^sup>* (GpuSys_start 1) s" "map fst (gs_answers s) = [0, 1]" "length (gs_tasks s) = 2"
    by (rule that [OF demo_two [of True False]]) (simp_all add: demo_end_def demo_state_def)
  have "mset (map it_promise (outstanding s)) + mset [0, 1] = mset [0..<2]"
    using conjunct1 [OF gpu_tasks_accounted [OF s(1)]] unfolding s(2,3) .
  then have "mset (map it_promise (outstanding s)) = {#}" by (simp add: numeral_2_eq_2)
  then have "outstanding s = []" by simp
  with s(1,2) show ?thesis by (intro exI [of _ s] conjI)
qed



text \<open>C38. A server of one model cannot load it again: as soon as one of its tasks has been answered with a result, some lane has an execution context of the
  model's engine and keeps it, and every later successful load of the same id destroys the engine under the context, which TensorRT leaves undefined.\<close>

theorem gpu_reload_undefined:
  assumes "(runtime_step trt reload faults)\<^sup>*\<^sup>* (GpuSys_start num_gpus) s" "\<forall>(t, registered) \<in> set (gs_tasks s). it_model_id t = k"
    "(p, v) \<in> set (gs_answers s)" "v \<noteq> []" "loadOnnxModel trt k path (gs_models s) = Inr (True, ms)"
  shows "load_model trt k path s = Inl (Undefined ''engine destroyed before its execution context'')"
proof -
  have "sys_used s" using sys_used_reachable [OF assms(1)] by simp
  then obtain t where t: "t \<in> fst ` set (gs_tasks s)" "engine_in_use (it_model_id t) s" "gs_models s (it_model_id t) \<noteq> None"
    using assms(3,4) by (rule answered_in_use)
  from t(1) assms(2) have "it_model_id t = k" by auto
  with t assms(5) show ?thesis by (simp add: load_model_def run_bind_def)
qed

theorem gpu_reload_undefined_witness:
  "\<exists>s. (runtime_step demo_trt True False)\<^sup>*\<^sup>* (GpuSys_start 1) s \<and> (1, [6]) \<in> set (gs_answers s) \<and>
     load_model demo_trt 7 ''model.onnx'' s = Inl (Undefined ''engine destroyed before its execution context'')"
proof -
  have s: "(runtime_step demo_trt True False)\<^sup>*\<^sup>* (GpuSys_start 1) (demo_end 6)" using demo_two [of False True True] by simp
  have a: "\<forall>(t, registered) \<in> set (gs_tasks (demo_end 6)). it_model_id t = 7" "(1, [6]) \<in> set (gs_answers (demo_end 6))"
    by (simp_all add: demo_end_def demo_state_def demo_task_def)
  from gpu_reload_undefined [OF s a _ demo_load] s a(2) show ?thesis by (intro exI [of _ "demo_end 6"] conjI) simp_all
qed

text \<open>A visit of a lane in a reachable state has defined behaviour when an execution context can be created and the payload of the next task is as
  long as the inputs of its model: no access outside a device buffer, no missing promise.  The server checks neither condition.\<close>

lemma gpu_worker_defined:
  assumes "(runtime_step trt reload faults)\<^sup>*\<^sup>* (GpuSys_start num_gpus) s" "g < length (gs_workers s)" "cu_context cu"
    "\<And>t q m. wk_queue (gs_workers s ! g) = t # q \<Longrightarrow> getModel (gs_models s) (it_model_id t) = Some m \<Longrightarrow> unat (mi_total_input_bytes m) \<le> length (it_input_payload t)"
  shows "defined (gpu_worker_step cu (gs_models s) (gs_workers s ! g))"
proof -
  let ?w = "gs_workers s ! g" and ?i = "wk_pos (gs_workers s ! g) mod NUM_STREAMS_PER_GPU"
  have w: "worker_ok ?w" using sys_ok_reachable [OF assms(1) sys_ok_start] assms(2) by (simp add: sys_ok_def)
  then have "?i < length (wk_lanes ?w)" by (simp add: worker_ok_def NUM_STREAMS_PER_GPU_def)
  then have l: "lane_ok (wk_lanes ?w ! ?i)" using w by (simp add: worker_ok_def)
  have "defined (take_task cu (gs_models s) t (wk_lanes ?w ! ?i))" if "\<not> ln_in_flight (wk_lanes ?w ! ?i)" "wk_queue ?w = t # q" for t q
    by (rule take_task_defined [OF l that(1) assms(3) assms(4) [OF that(2)]])
  with poll_lane_defined [OF l] show ?thesis
    by (auto simp: gpu_worker_step_def Let_def try_pop_def split: list.splits intro!: defined_bind)
qed

end
