(* ===== verification/Gpu_Client.thy ===== *)
theory Gpu_Client
  imports Gpu_System Host_Order Socket_Io Float64_Arith Std_Numbers
begin

text \<open>
  The client side of the GPU runtime server: the headers of \<^verbatim>\<open>include/adi_tensor_protocol.h\<close>, the session loop and \<^verbatim>\<open>main\<close> of
  \<^verbatim>\<open>src/gpu_runtime_server.cpp\<close>.  A turn of a session takes what the rest of the server answers as an argument: the outcome of a load, the value of the
  task's future, and the clock.  The theory of the workers says what these values are.  A header is fetched with one \<^verbatim>\<open>read\<close> and its length is
  not checked; a short one leaves the header uninitialised, which is \<open>Undefined\<close> here.  The buffers handed to \<^verbatim>\<open>write\<close> are appended to the output.
\<close>

section \<open>Headers\<close>

definition MAGIC_ADI1 :: u32 where "MAGIC_ADI1 = 0x41444931"

datatype PacketOpcode = VECTOR_TRANSFORM | LOAD_MODEL | EXECUTE_INFERENCE | UNLOAD_MODEL

primrec opcode_raw :: "PacketOpcode \<Rightarrow> u8" where
  "opcode_raw VECTOR_TRANSFORM = 0"
| "opcode_raw LOAD_MODEL = 1"
| "opcode_raw EXECUTE_INFERENCE = 2"
| "opcode_raw UNLOAD_MODEL = 3"

text \<open>The fields after the byte order conversions.\<close>

record RequestHeader =
  rh_magic :: u32
  rh_payload_len :: u32
  rh_opcode :: u8

definition request_header :: "endian \<Rightarrow> bytes \<Rightarrow> RequestHeader" where
  "request_header h bs = \<lparr> rh_magic = ntohl h (load h (bytes_at bs 0 4)), rh_payload_len = ntohl h (load h (bytes_at bs 4 4)), rh_opcode = bs ! 8 \<rparr>"

record InferenceHeader =
  ih_model_id :: u32
  ih_num_tensors :: u32
  ih_batch_size :: u32

definition inference_header :: "endian \<Rightarrow> bytes \<Rightarrow> InferenceHeader" where
  "inference_header h bs = \<lparr> ih_model_id = load h (bytes_at bs 0 4), ih_num_tensors = load h (bytes_at bs 4 4), ih_batch_size = load h (bytes_at bs 8 4) \<rparr>"

text \<open>The response header as it lies in memory.\<close>

record ResponseHeader =
  ph_timestamp_ns :: u64
  ph_sequence_id :: u32
  ph_packet_type :: u8
  ph_status_code :: u8
  ph_reserved :: u16
  ph_payload_len :: u32

definition ResponseHeader_zero :: ResponseHeader where
  "ResponseHeader_zero = \<lparr> ph_timestamp_ns = 0, ph_sequence_id = 0, ph_packet_type = 0, ph_status_code = 0, ph_reserved = 0, ph_payload_len = 0 \<rparr>"

definition response_memory :: "endian \<Rightarrow> ResponseHeader \<Rightarrow> bytes" where
  "response_memory h r = store h 8 (ph_timestamp_ns r) @ store h 4 (ph_sequence_id r) @ [ph_packet_type r, ph_status_code r] @
     store h 2 (ph_reserved r) @ store h 4 (ph_payload_len r)"

definition htobe64 :: "endian \<Rightarrow> u64 \<Rightarrow> u64" where
  "htobe64 h v = (case h of BigEndian \<Rightarrow> v | LittleEndian \<Rightarrow> be_word (rev (be_bytes 8 v)))"

section \<open>Floats\<close>

definition float_isnan :: "u32 \<Rightarrow> bool" where
  "float_isnan v \<longleftrightarrow> float_exponent v = 255 \<and> float_mantissa v \<noteq> 0"

definition float_value :: "u32 \<Rightarrow> int" where
  "float_value v = (if float_sign v = 0 then int (float_magnitude v) else - int (float_magnitude v))"

definition float_sub :: "(u32 \<Rightarrow> u32 \<Rightarrow> u32) \<Rightarrow> u32 \<Rightarrow> u32 \<Rightarrow> u32" where
  "float_sub nan x y =
     (if float_isnan x \<or> float_isnan y then nan x y
      else if \<not> float_isfinite x then (if \<not> float_isfinite y \<and> float_sign x = float_sign y then nan x y else x)
      else if \<not> float_isfinite y then mk_float (1 - float_sign y) 255 0
      else let d = float_value x - float_value y in
        if d = 0 then mk_float (if float_sign x = 1 \<and> float_sign y = 0 then 1 else 0) 0 0
        else round_float (if d < 0 then 1 else 0) (nat \<bar>d\<bar>) 1)"

text \<open>A byte vector read as an array of floats.\<close>

definition floats_of :: "endian \<Rightarrow> bytes \<Rightarrow> u32 list" where
  "floats_of h bs = map (\<lambda>i. load h (bytes_at bs (4 * i) 4)) [0..<length bs div 4]"

definition float_memory :: "endian \<Rightarrow> u32 list \<Rightarrow> bytes" where
  "float_memory h xs = concat (map (store h 4) xs)"

section \<open>The session\<close>

fun read_once :: "RecvEvent list \<Rightarrow> nat \<Rightarrow> bytes option \<times> RecvEvent list" where
  "read_once [] n = (None, [])"
| "read_once (RecvEof # es) n = (None, es)"
| "read_once (RecvErr # es) n = (None, es)"
| "read_once (RecvEintr # es) n = (None, es)"
| "read_once (Data bs # es) n =
     (if bs = [] then (None, es) else (Some (take n bs), if n < length bs then Data (drop n bs) # es else es))"

record TurnEnv =
  te_load :: "u32 \<Rightarrow> string \<Rightarrow> bool run"
  te_answer :: "u32 \<Rightarrow> bytes \<Rightarrow> bytes"
  te_clock :: u64

record ClientSession =
  cs_input :: "RecvEvent list"
  cs_output :: bytes
  cs_sequence_id :: u32
  cs_last :: "u32 list"
  cs_open :: bool

definition ClientSession_start :: "RecvEvent list \<Rightarrow> ClientSession" where
  "ClientSession_start input = \<lparr> cs_input = input, cs_output = [], cs_sequence_id = 0, cs_last = [], cs_open = True \<rparr>"

definition load_reply :: "endian \<Rightarrow> bool \<Rightarrow> ClientSession \<Rightarrow> ClientSession" where
  "load_reply h ok s =
     s \<lparr> cs_output := cs_output s @ response_memory h (ResponseHeader_zero \<lparr> ph_sequence_id := htonl h (cs_sequence_id s), ph_status_code := (if ok then 0 else 1) \<rparr>),
         cs_sequence_id := cs_sequence_id s + 1 \<rparr>"

definition float_delta :: "(u32 \<Rightarrow> u32 \<Rightarrow> u32) \<Rightarrow> u32 list \<Rightarrow> u32 list \<Rightarrow> u32 list" where
  "float_delta nan current previous = map2 (float_sub nan) current previous"

definition inference_reply :: "endian \<Rightarrow> (u32 \<Rightarrow> u32 \<Rightarrow> u32) \<Rightarrow> u64 \<Rightarrow> bytes \<Rightarrow> ClientSession \<Rightarrow> ClientSession" where
  "inference_reply h nan ts result s =
     (let primary = ResponseHeader_zero \<lparr> ph_timestamp_ns := htobe64 h ts, ph_sequence_id := htonl h (cs_sequence_id s), ph_packet_type := 0,
            ph_status_code := (if result = [] then 2 else 0), ph_payload_len := htonl h (word_of_nat (length result)) \<rparr>;
          current = floats_of h result;
          delta = float_delta nan current (cs_last s);
          delta_hdr = ResponseHeader_zero \<lparr> ph_timestamp_ns := htobe64 h ts, ph_sequence_id := htonl h (cs_sequence_id s), ph_packet_type := 1,
            ph_payload_len := htonl h (word_of_nat (length delta * 4)) \<rparr> in
      s \<lparr> cs_output := cs_output s @ response_memory h primary @ result @
            (if cs_last s \<noteq> [] \<and> length (cs_last s) = length current then response_memory h delta_hdr @ float_memory h delta else []),
          cs_last := current, cs_sequence_id := cs_sequence_id s + 1 \<rparr>)"

definition close_session :: "RecvEvent list \<Rightarrow> ClientSession \<Rightarrow> ClientSession" where
  "close_session es s = s \<lparr> cs_input := es, cs_open := False \<rparr>"

definition handle_request_payload :: "endian \<Rightarrow> (u32 \<Rightarrow> u32 \<Rightarrow> u32) \<Rightarrow> TurnEnv \<Rightarrow> u8 \<Rightarrow> bytes \<Rightarrow> ClientSession \<Rightarrow> ClientSession run" where
  "handle_request_payload h nan env opcode payload s =
     (if opcode = opcode_raw LOAD_MODEL then
        if length payload < 4 then Inl (Undefined ''read outside the payload'')
        else run_bind (te_load env (load h (bytes_at payload 0 4)) (string_of_bytes (drop 4 payload))) (\<lambda>ok. Inr (load_reply h ok s))
      else if opcode = opcode_raw EXECUTE_INFERENCE then
        if length payload < 12 then Inl (Undefined ''read outside the payload'')
        else Inr (inference_reply h nan (te_clock env) (te_answer env (ih_model_id (inference_header h payload)) (drop 12 payload)) s)
      else Inr s)"

definition client_turn :: "endian \<Rightarrow> (u32 \<Rightarrow> u32 \<Rightarrow> u32) \<Rightarrow> TurnEnv \<Rightarrow> ClientSession \<Rightarrow> ClientSession run" where
  "client_turn h nan env s =
     (case read_once (cs_input s) 12 of
        (None, es) \<Rightarrow> Inr (close_session es s)
      | (Some bs, es) \<Rightarrow>
          if length bs < 12 then Inl (Undefined ''uninitialised header'')
          else let hdr = request_header h bs in
            if rh_magic hdr \<noteq> MAGIC_ADI1 then Inr (close_session es s)
            else (case recv_loop False es (unat (rh_payload_len hdr)) of
                (None, es) \<Rightarrow> Inr (close_session es s)
              | (Some payload, es) \<Rightarrow> handle_request_payload h nan env (rh_opcode hdr) payload (s \<lparr> cs_input := es \<rparr>)))"

fun client_run :: "endian \<Rightarrow> (u32 \<Rightarrow> u32 \<Rightarrow> u32) \<Rightarrow> TurnEnv list \<Rightarrow> ClientSession \<Rightarrow> ClientSession run" where
  "client_run h nan [] s = Inr s"
| "client_run h nan (env # envs) s = (if cs_open s then run_bind (client_turn h nan env s) (client_run h nan envs) else Inr s)"

section \<open>The program\<close>

datatype RuntimeOutcome = RtExit int | RtTerminate string | RtServe u16 GpuSys

text \<open>The port is converted to 16 bits without a check.\<close>

definition gpu_runtime_main :: "string list \<Rightarrow> nat \<Rightarrow> RuntimeOutcome" where
  "gpu_runtime_main args num_gpus =
     (case (case args of [] \<Rightarrow> Inr 8080 | arg # _ \<Rightarrow> stoi arg) of
        Inl e \<Rightarrow> RtTerminate e
      | Inr port \<Rightarrow> if num_gpus = 0 then RtExit 1 else RtServe (word_of_int port) (GpuSys_start num_gpus))"

text \<open>A server that starts listens on the given port modulo 65536.\<close>

lemma gpu_runtime_main_port:
  "n < 2 ^ 31 \<Longrightarrow> 0 < num_gpus \<Longrightarrow> gpu_runtime_main [to_string n] num_gpus = RtServe (word_of_nat (n mod 65536)) (GpuSys_start num_gpus)"
  by (simp add: gpu_runtime_main_def stoi_to_string word_of_nat_eq_iff take_bit_eq_mod)

section \<open>What a client sends and receives\<close>

datatype ClientRequest = LoadReq u32 string | InferReq InferenceHeader bytes

fun request_opcode :: "ClientRequest \<Rightarrow> PacketOpcode" where
  "request_opcode (LoadReq k path) = LOAD_MODEL"
| "request_opcode (InferReq ih input) = EXECUTE_INFERENCE"

text \<open>The integers of a payload are in the byte order of the server.\<close>

fun request_payload :: "endian \<Rightarrow> ClientRequest \<Rightarrow> bytes" where
  "request_payload h (LoadReq k path) = store h 4 k @ bytes_of_string path"
| "request_payload h (InferReq ih input) = store h 4 (ih_model_id ih) @ store h 4 (ih_num_tensors ih) @ store h 4 (ih_batch_size ih) @ input"

definition request_head :: "endian \<Rightarrow> ClientRequest \<Rightarrow> bytes" where
  "request_head h r = be_bytes 4 MAGIC_ADI1 @ be_bytes 4 (word_of_nat (length (request_payload h r)) :: u32) @ [opcode_raw (request_opcode r), 0, 0, 0]"

text \<open>The header arrives in one piece, the payload in the segments \<open>segs\<close>.\<close>

definition request_events :: "endian \<Rightarrow> ClientRequest \<Rightarrow> bytes list \<Rightarrow> RecvEvent list" where
  "request_events h r segs = Data (request_head h r) # map Data segs"

definition request_ok :: "endian \<Rightarrow> TurnEnv \<times> ClientRequest \<times> bytes list \<Rightarrow> bool" where
  "request_ok h x \<longleftrightarrow> (case x of (env, r, segs) \<Rightarrow> concat segs = request_payload h r \<and> [] \<notin> set segs \<and> length (request_payload h r) < 2 ^ 32 \<and>
     (case r of LoadReq k path \<Rightarrow> te_load env k path \<in> {Inr False, Inr True} | InferReq ih input \<Rightarrow> True))"

definition wire_header :: "u64 \<Rightarrow> u32 \<Rightarrow> u8 \<Rightarrow> u8 \<Rightarrow> u32 \<Rightarrow> bytes" where
  "wire_header ts seq packet_type status len = be_bytes 8 ts @ be_bytes 4 seq @ [packet_type, status] @ be_bytes 2 (0 :: u16) @ be_bytes 4 len"

fun replies :: "endian \<Rightarrow> (u32 \<Rightarrow> u32 \<Rightarrow> u32) \<Rightarrow> u32 \<Rightarrow> u32 list \<Rightarrow> (TurnEnv \<times> ClientRequest \<times> bytes list) list \<Rightarrow> bytes" where
  "replies h nan seq prev [] = []"
| "replies h nan seq prev ((env, LoadReq k path, segs) # xs) =
     wire_header 0 seq 0 (if te_load env k path = Inr True then 0 else 1) 0 @ replies h nan (seq + 1) prev xs"
| "replies h nan seq prev ((env, InferReq ih input, segs) # xs) =
     (let result = te_answer env (ih_model_id ih) input; current = floats_of h result in
      wire_header (te_clock env) seq 0 (if result = [] then 2 else 0) (word_of_nat (length result)) @ result @
      (if prev \<noteq> [] \<and> length prev = length current then
         wire_header (te_clock env) seq 1 0 (word_of_nat (length current * 4)) @ float_memory h (map2 (float_sub nan) current prev) else []) @
      replies h nan (seq + 1) current xs)"

lemma store_zero: "store h n (0 :: 'a::len word) = be_bytes n (0 :: 'a word)"
proof -
  have "be_of_nat n 0 = replicate n 0" by (induction n) (simp_all flip: replicate_append_same)
  then show ?thesis by (cases h) (simp_all add: store_def be_bytes_def)
qed

lemma store_htobe64 [simp]: "store h 8 (htobe64 h v) = be_bytes 8 v"
  by (cases h) (simp_all add: store_def htobe64_def be_bytes_be_word)

lemma load_store4: "load h (store h 4 v) = (v :: u32)"
  by (cases h) (simp_all add: load_def store_def)

lemma length_store [simp]: "length (store h n v) = n"
  by (cases h) (simp_all add: store_def)

lemma load_reply_wire:
  "load_reply h ok s = s \<lparr> cs_output := cs_output s @ wire_header 0 (cs_sequence_id s) 0 (if ok then 0 else 1) 0, cs_sequence_id := cs_sequence_id s + 1 \<rparr>"
  by (simp add: load_reply_def response_memory_def ResponseHeader_zero_def wire_header_def store_zero)

lemma inference_reply_wire:
  "inference_reply h nan ts result s = s \<lparr> cs_output := cs_output s @ wire_header ts (cs_sequence_id s) 0 (if result = [] then 2 else 0) (word_of_nat (length result)) @ result @
      (if cs_last s \<noteq> [] \<and> length (cs_last s) = length (floats_of h result) then
         wire_header ts (cs_sequence_id s) 1 0 (word_of_nat (length (floats_of h result) * 4)) @ float_memory h (map2 (float_sub nan) (floats_of h result) (cs_last s)) else []),
     cs_last := floats_of h result, cs_sequence_id := cs_sequence_id s + 1 \<rparr>"
  by (simp add: inference_reply_def response_memory_def ResponseHeader_zero_def wire_header_def store_zero Let_def float_delta_def)

lemma recv_segments: "[] \<notin> set segs \<Longrightarrow> recv_loop False (map Data segs @ es) (length (concat segs)) = (Some (concat segs), es)"
proof (induction segs)
  case (Cons seg segs)
  then have "0 < length (concat (seg # segs))" by auto
  from Cons recv_loop_step(5) [OF this, of False seg "map Data segs @ es"] show ?case by auto
qed simp

lemma request_header_head:
  assumes "length (request_payload h r) < 2 ^ 32"
  shows "length (request_head h r) = 12" "rh_magic (request_header h (request_head h r)) = MAGIC_ADI1"
    "unat (rh_payload_len (request_header h (request_head h r))) = length (request_payload h r)"
    "rh_opcode (request_header h (request_head h r)) = opcode_raw (request_opcode r)"
  using assms
  by (simp_all add: request_head_def request_header_def bytes_at_def be_word_load_32 nth_append unsigned_of_nat take_bit_nat_eq_self)

lemma client_turn_request:
  assumes "cs_input s = request_events h r segs @ es" "concat segs = request_payload h r" "[] \<notin> set segs" "length (request_payload h r) < 2 ^ 32"
  shows "client_turn h nan env s = handle_request_payload h nan env (opcode_raw (request_opcode r)) (request_payload h r) (s \<lparr> cs_input := es \<rparr>)"
proof -
  note hd = request_header_head [OF assms(4)]
  have "read_once (cs_input s) 12 = (Some (request_head h r), map Data segs @ es)"
    using hd(1) by (cases "request_head h r") (simp_all add: assms(1) request_events_def)
  with hd recv_segments [OF assms(3), of es] assms(2) show ?thesis by (simp add: client_turn_def Let_def)
qed

lemma request_payload_read:
  "handle_request_payload h nan env (opcode_raw LOAD_MODEL) (request_payload h (LoadReq k path)) s = run_bind (te_load env k path) (\<lambda>ok. Inr (load_reply h ok s))"
  "handle_request_payload h nan env (opcode_raw EXECUTE_INFERENCE) (request_payload h (InferReq ih input)) s =
     Inr (inference_reply h nan (te_clock env) (te_answer env (ih_model_id ih) input) s)"
  by (simp_all add: handle_request_payload_def bytes_at_def load_store4 inference_header_def)

lemma client_run_replies:
  assumes "\<forall>x \<in> set xs. request_ok h x" "cs_open s" "cs_input s = concat (map (\<lambda>(env, r, segs). request_events h r segs) xs) @ rest"
  shows "\<exists>s'. client_run h nan (map fst xs) s = Inr s' \<and> cs_open s' \<and> cs_input s' = rest \<and>
    cs_output s' = cs_output s @ replies h nan (cs_sequence_id s) (cs_last s) xs \<and> cs_sequence_id s' = cs_sequence_id s + word_of_nat (length xs)"
  using assms
proof (induction xs arbitrary: s)
  case (Cons x xs)
  obtain env r segs where x: "x = (env, r, segs)" by (metis prod_cases3)
  let ?es = "concat (map (\<lambda>(env, r, segs). request_events h r segs) xs) @ rest"
  have ok: "concat segs = request_payload h r" "[] \<notin> set segs" "length (request_payload h r) < 2 ^ 32" using Cons.prems(1) x by (auto simp: request_ok_def)
  have "cs_input s = request_events h r segs @ ?es" using Cons.prems(3) x by simp
  note turn = client_turn_request [OF this ok, of nan env]
  have step: ?case if t: "client_turn h nan env s = Inr s1" and s1: "cs_open s1" "cs_input s1 = ?es" "cs_output s1 = cs_output s @ w"
      "cs_sequence_id s1 = cs_sequence_id s + 1" "replies h nan (cs_sequence_id s) (cs_last s) (x # xs) = w @ replies h nan (cs_sequence_id s1) (cs_last s1) xs" for s1 w
  proof -
    have run: "client_run h nan (map fst (x # xs)) s = client_run h nan (map fst xs) s1" using t Cons.prems(2) by (simp add: x run_bind_def)
    have "\<forall>x \<in> set xs. request_ok h x" using Cons.prems(1) by simp
    from Cons.IH [OF this s1(1,2)] obtain s' where s': "client_run h nan (map fst xs) s1 = Inr s'" "cs_open s'" "cs_input s' = rest"
      "cs_output s' = cs_output s1 @ replies h nan (cs_sequence_id s1) (cs_last s1) xs" "cs_sequence_id s' = cs_sequence_id s1 + word_of_nat (length xs)" by blast
    show ?thesis unfolding run s1(5) using s' by (intro exI [of _ s'] conjI) (simp_all add: s1(3,4))
  qed
  show ?case
  proof (cases r)
    case (LoadReq k path)
    obtain b where b: "te_load env k path = Inr b" using Cons.prems(1) x LoadReq by (auto simp: request_ok_def)
    have t: "client_turn h nan env s = Inr (load_reply h b (s \<lparr> cs_input := ?es \<rparr>))"
      using turn unfolding LoadReq request_opcode.simps request_payload_read b by (simp add: run_bind_def)
    show ?thesis
      by (rule step [OF t, of "wire_header 0 (cs_sequence_id s) 0 (if b then 0 else 1) 0"]) (simp_all add: load_reply_wire Cons.prems(2) x LoadReq b)
  next
    case (InferReq ih input)
    have t: "client_turn h nan env s = Inr (inference_reply h nan (te_clock env) (te_answer env (ih_model_id ih) input) (s \<lparr> cs_input := ?es \<rparr>))"
      using turn unfolding InferReq request_opcode.simps request_payload_read .
    show ?thesis
      by (rule step [OF t]) (simp_all add: inference_reply_wire Cons.prems(2) x InferReq Let_def)
  qed
qed simp

text \<open>Opcodes without a handler, \<^verbatim>\<open>UNLOAD_MODEL\<close> among them, are consumed without an effect or a reply.\<close>

lemma opcode_ignored: "op \<in> {VECTOR_TRANSFORM, UNLOAD_MODEL} \<Longrightarrow> handle_request_payload h nan env (opcode_raw op) payload s = Inr s"
  by (auto simp: handle_request_payload_def)

section \<open>The example client\<close>

text \<open>The load request of \<^verbatim>\<open>examples/test_tensor_client.py\<close>: its header is packed as \<^verbatim>\<open>!IIBB3s\<close>, which is 13 bytes.\<close>

definition example_load_payload :: bytes where
  "example_load_payload = be_bytes 4 (101 :: u32) @ bytes_of_string ''/tmp/sample_model.onnx''"

definition example_load_request :: bytes where
  "example_load_request = be_bytes 4 MAGIC_ADI1 @ be_bytes 4 (word_of_nat (length example_load_payload) :: u32) @ [1, 0] @ [0, 0, 0] @ example_load_payload"

lemma example_payload_bytes:
  "example_load_payload = [0, 0, 0, 101] @ bytes_of_string ''/tmp/sample_model.onnx''"
  by (simp add: example_load_payload_def be_eval)

lemma example_turn:
  "client_turn h nan env (ClientSession_start [Data example_load_request]) =
     run_bind (te_load env 0 ''e/tmp/sample_model.onn'') (\<lambda>ok. Inr (load_reply h ok (ClientSession_start [Data [0x78]])))"
proof -
  let ?hd = "be_bytes 4 MAGIC_ADI1 @ be_bytes 4 (26 :: u32) @ [1, 0, 0, 0]" and ?p = "[0, 0, 0, 0] @ bytes_of_string ''e/tmp/sample_model.onn''"
  have len: "length example_load_payload = 26" by (simp add: example_payload_bytes)
  have "(0 :: u8) # example_load_payload = ?p @ [0x78]"
    by (simp add: example_payload_bytes bytes_of_string_def byte_of_char_def)
  then have req: "example_load_request = ?hd @ ?p @ [0x78]" by (simp add: example_load_request_def len)
  have h: "rh_magic (request_header h ?hd) = MAGIC_ADI1" "unat (rh_payload_len (request_header h ?hd)) = 26" "rh_opcode (request_header h ?hd) = opcode_raw LOAD_MODEL"
    by (simp_all add: request_header_def bytes_at_def be_word_load_32 nth_append)
  have "read_once [Data example_load_request] 12 = (Some ?hd, [Data (?p @ [0x78])])" unfolding req by simp
  moreover have "recv_loop False [Data (?p @ [0x78])] 26 = (Some ?p, [Data [0x78]])" by simp
  moreover have "load h (bytes_at ?p 0 4) = (0 :: u32)"
    by (cases h) (simp_all add: bytes_at_def load_def be_word_def)
  ultimately show ?thesis using h
    by (simp add: client_turn_def ClientSession_start_def Let_def handle_request_payload_def)
qed

section \<open>Properties\<close>

text \<open>C14. A client that sends load and inference requests gets exactly one reply per request, in order: a status header for a load, and for an inference a
  header with the size of the result, the result, and, when the previous result had as many floats, a delta packet with the differences.  Sequence
  ids are consecutive from zero, a load taking one like an inference, all headers are big-endian on every host, and every inference gets the answer of its
  own task.  Each request header must arrive as a segment of its own, because the server reads it with a single call; the payload may be cut anywhere.  The
  loads must be defined.\<close>

theorem gpu_client_stream:
  assumes "\<forall>x \<in> set xs. request_ok h x"
  shows "\<exists>s'. client_run h nan (map fst xs) (ClientSession_start (concat (map (\<lambda>(env, r, segs). request_events h r segs) xs) @ rest)) = Inr s' \<and>
    cs_open s' \<and> cs_input s' = rest \<and> cs_output s' = replies h nan 0 [] xs \<and> cs_sequence_id s' = word_of_nat (length xs)"
  using client_run_replies [OF assms, of "ClientSession_start (concat (map (\<lambda>(env, r, segs). request_events h r segs) xs) @ rest)" rest nan]
  by (simp add: ClientSession_start_def)

definition sample_env :: TurnEnv where
  "sample_env = \<lparr> te_load = (\<lambda>k path. Inr True), te_answer = (\<lambda>k input. input), te_clock = 5 \<rparr>"

theorem gpu_client_stream_witness:
  "\<exists>s'. client_run LittleEndian (\<lambda>x y. x) [sample_env] (ClientSession_start (request_events LittleEndian (LoadReq 7 ''m'') [store LittleEndian 4 (7 :: u32), bytes_of_string ''m''])) = Inr s' \<and>
     cs_output s' = wire_header 0 0 0 0 0"
proof -
  let ?x = "(sample_env, LoadReq 7 ''m'', [store LittleEndian 4 (7 :: u32), bytes_of_string ''m''])"
  have "store LittleEndian 4 (7 :: u32) \<noteq> []" "bytes_of_string ''m'' \<noteq> []" by (metis length_store list.size(3) zero_neq_numeral, simp)
  then have "\<forall>x \<in> set [?x]. request_ok LittleEndian x" by (auto simp: request_ok_def sample_env_def bytes_of_string_def)
  from gpu_client_stream [OF this, of "\<lambda>x y. x" "[]"] show ?thesis by (auto simp: sample_env_def)
qed

text \<open>C40. The example client does not speak the protocol of the server: its header is one byte longer than the server's, so its load request for model 101
  is executed as a load of model 0 from a path that is shifted by one byte, and the byte left over makes the next header read incomplete.\<close>

theorem example_client_misread:
  "client_turn h nan env (ClientSession_start [Data example_load_request]) =
     run_bind (te_load env 0 ''e/tmp/sample_model.onn'') (\<lambda>ok. Inr (load_reply h ok (ClientSession_start [Data [0x78]]))) \<and>
   client_turn h nan env' (load_reply h ok (ClientSession_start (Data [0x78] # es))) = Inl (Undefined ''uninitialised header'')"
  using example_turn [of h nan env] by (simp add: client_turn_def load_reply_def ClientSession_start_def)

end
