(* ===== verification/Placement_Examples.thy ===== *)
theory Placement_Examples
  imports Nvlink_Placement
begin

text \<open>
  The placer with the queues it balances, as \<^verbatim>\<open>examples/minimal.cpp\<close> and \<^verbatim>\<open>examples/multi_client.cpp\<close> use it.  The first places and pushes in one
  thread, so the depths it sees are the depths it changes; the second runs five clients, whose placements and pushes interleave.
\<close>

section \<open>Queues\<close>

type_synonym queues = "int \<Rightarrow> int list"

definition queue_size :: "queues \<Rightarrow> int \<Rightarrow> nat" where
  "queue_size q g = length (q g)"

definition queue_add :: "queues \<Rightarrow> int \<Rightarrow> int \<Rightarrow> queues" where
  "queue_add q g task = q(g := q g @ [task])"

definition total_queued :: "GpuTopology \<Rightarrow> queues \<Rightarrow> nat" where
  "total_queued t q = (\<Sum>g = 0..<num_gpus t. queue_size q g)"

section \<open>One thread\<close>

definition submit_one :: "GpuTopology \<Rightarrow> int \<Rightarrow> int \<Rightarrow> Placer \<times> queues \<Rightarrow> Placer \<times> queues" where
  "submit_one t client_id task_num pq =
     (case pq of (p, q) \<Rightarrow> case place t p client_id (\<lambda>s g. (queue_size q g, s)) () of (g, p, s) \<Rightarrow> (p, queue_add q g task_num))"

definition minimal_client :: "GpuTopology \<Rightarrow> int \<Rightarrow> Placer \<times> queues \<Rightarrow> Placer \<times> queues" where
  "minimal_client t client_id pq =
     (case pq of (p, q) \<Rightarrow>
      case fold (submit_one t client_id) [0..4] (snd (assign_home t p client_id), q) of (p, q) \<Rightarrow> (release_client p client_id, q))"

definition minimal_main :: "GpuTopology \<Rightarrow> Placer \<times> queues" where
  "minimal_main t = fold (minimal_client t) [0..2] (Placer_init 32, \<lambda>g. [])"

section \<open>Balance\<close>

text \<open>No queue is longer than the threshold unless all queues are at most one shorter.\<close>

definition balanced :: "GpuTopology \<Rightarrow> Placer \<times> queues \<Rightarrow> bool" where
  "balanced t pq \<longleftrightarrow> (case pq of (p, q) \<Rightarrow>
     \<forall>i j. in_range (num_gpus t) i \<longrightarrow> in_range (num_gpus t) j \<longrightarrow> queue_size q i \<le> max (backlog_threshold p) (queue_size q j + 1))"

lemma queue_size_add: "queue_size (queue_add q g x) i = queue_size q i + (if i = g then 1 else 0)"
  by (simp add: queue_size_def queue_add_def)

lemma total_queued_add: "in_range (num_gpus t) g \<Longrightarrow> total_queued t (queue_add q g x) = total_queued t q + 1"
  by (simp add: total_queued_def queue_size_add sum.distrib sum.delta')

lemma submit_one_step:
  assumes "topo_wf t" "submit_one t c k (p, q) = (p', q')"
  obtains g where "in_range (num_gpus t) g" "q' = queue_add q g k" "backlog_threshold p' = backlog_threshold p"
    "backlog_threshold p \<le> queue_size q g \<longrightarrow> (\<forall>i. in_range (num_gpus t) i \<longrightarrow> queue_size q g \<le> queue_size q i)"
proof -
  obtain g p1 s where pl: "place t p c (\<lambda>s g. (queue_size q g, s)) () = (g, p1, s)" by (metis prod_cases3)
  with assms(2) have "q' = queue_add q g k" "p' = p1" by (simp_all add: submit_one_def)
  with place_range [OF assms(1) pl] place_placer [OF pl] place_balances [OF assms(1) pl] that show thesis by blast
qed

lemma submit_one_balanced: "topo_wf t \<Longrightarrow> balanced t pq \<Longrightarrow> balanced t (submit_one t c k pq) \<and> total_queued t (snd (submit_one t c k pq)) = total_queued t (snd pq) + 1"
proof -
  assume a: "topo_wf t" "balanced t pq"
  obtain p q p' q' where pq: "pq = (p, q)" "submit_one t c k (p, q) = (p', q')" by (metis prod.exhaust)
  from submit_one_step [OF a(1) pq(2)] obtain g where g: "in_range (num_gpus t) g" "q' = queue_add q g k" "backlog_threshold p' = backlog_threshold p"
    "backlog_threshold p \<le> queue_size q g \<longrightarrow> (\<forall>i. in_range (num_gpus t) i \<longrightarrow> queue_size q g \<le> queue_size q i)" .
  have "queue_size q' i \<le> max (backlog_threshold p') (queue_size q' j + 1)" if ij: "in_range (num_gpus t) i" "in_range (num_gpus t) j" for i j
  proof (cases "i = g")
    case True
    then show ?thesis using g(2-4) ij(2) by (cases "backlog_threshold p \<le> queue_size q g") (auto simp: queue_size_add)
  next
    case False
    have "queue_size q i \<le> max (backlog_threshold p) (queue_size q j + 1)" using a(2) pq(1) ij by (simp add: balanced_def)
    with False g(2,3) show ?thesis by (auto simp: queue_size_add)
  qed
  with pq g(1,2) show ?thesis by (simp add: balanced_def total_queued_add)
qed

text \<open>Any sequence of calls from one thread.\<close>

datatype ClientOp = Assign int | Submit int int | Release int

fun client_op :: "GpuTopology \<Rightarrow> ClientOp \<Rightarrow> Placer \<times> queues \<Rightarrow> Placer \<times> queues" where
  "client_op t (Assign c) (p, q) = (snd (assign_home t p c), q)"
| "client_op t (Submit c k) (p, q) = submit_one t c k (p, q)"
| "client_op t (Release c) (p, q) = (release_client p c, q)"

fun is_submit :: "ClientOp \<Rightarrow> bool" where
  "is_submit (Submit c k) \<longleftrightarrow> True"
| "is_submit _ \<longleftrightarrow> False"

lemma client_op_balanced:
  assumes "topo_wf t" "balanced t pq"
  shows "balanced t (client_op t x pq) \<and> total_queued t (snd (client_op t x pq)) = total_queued t (snd pq) + (if is_submit x then 1 else 0)"
proof (cases x)
  case (Submit c k)
  with submit_one_balanced [OF assms, of c k] show ?thesis by (cases pq) simp
qed (use assms in \<open>cases pq; simp add: balanced_def assign_home_def next_rr_def release_client_def\<close>)+

lemma client_ops_balanced:
  assumes "topo_wf t" "balanced t pq"
  shows "balanced t (fold (client_op t) xs pq) \<and> total_queued t (snd (fold (client_op t) xs pq)) = total_queued t (snd pq) + length (filter is_submit xs)"
  using assms(2)
proof (induction xs arbitrary: pq)
  case (Cons x xs)
  with client_op_balanced [OF assms(1) Cons.prems, of x] show ?case by simp
qed simp

lemma client_op_Submit: "client_op t (Submit c k) pq = submit_one t c k pq"
  by (cases pq) simp

lemma minimal_client_ops: "minimal_client t c pq = fold (client_op t) (Assign c # map (Submit c) [0..4] @ [Release c]) pq"
proof -
  have "fold (client_op t) (map (Submit c) ks) pq = fold (submit_one t c) ks pq" for ks pq
    by (induction ks arbitrary: pq) (simp_all add: client_op_Submit)
  moreover obtain p q where pq: "pq = (p, q)" by fastforce
  moreover obtain p' q' where "fold (submit_one t c) [0..4] (snd (assign_home t p c), q) = (p', q')" by fastforce
  ultimately show ?thesis by (simp add: minimal_client_def)
qed

lemma minimal_main_ops: "minimal_main t = fold (client_op t) (concat (map (\<lambda>c. Assign c # map (Submit c) [0..4] @ [Release c]) [0..2])) (Placer_init 32, \<lambda>g. [])"
proof -
  have "fold (client_op t) (concat (map (\<lambda>c. Assign c # map (Submit c) [0..4] @ [Release c]) cs)) pq = fold (minimal_client t) cs pq" for cs pq
    by (induction cs arbitrary: pq) (simp_all add: minimal_client_ops)
  then show ?thesis by (simp add: minimal_main_def)
qed

section \<open>Five threads\<close>

text \<open>Where a client thread is: before its home is assigned, before its \<open>k\<close>th task, with the task placed, with it pushed but not yet counted.\<close>

datatype McPc = McStart | McTasks nat | McPlaced nat int | McPushed nat | McDone

record MultiClient =
  mc_placer :: Placer
  mc_queues :: queues
  mc_total_tasks :: nat
  mc_pc :: "int \<Rightarrow> McPc"

definition MultiClient_start :: MultiClient where
  "MultiClient_start = \<lparr> mc_placer = Placer_init 32, mc_queues = (\<lambda>g. []), mc_total_tasks = 0, mc_pc = (\<lambda>c. McStart) \<rparr>"

text \<open>The depths a placement sees may change while it looks at them: \<open>qd\<close> is any way they may do so.\<close>

inductive multi_step :: "GpuTopology \<Rightarrow> MultiClient \<Rightarrow> MultiClient \<Rightarrow> bool" for t where
  begin_client: "mc_pc s c = McStart \<Longrightarrow> c \<in> {0..<5} \<Longrightarrow>
    multi_step t s (s \<lparr> mc_placer := snd (assign_home t (mc_placer s) c), mc_pc := (mc_pc s)(c := McTasks 0) \<rparr>)"
| place_task: "mc_pc s c = McTasks k \<Longrightarrow> c \<in> {0..<5} \<Longrightarrow> k < 10 \<Longrightarrow> place t (mc_placer s) c qd (x :: nat) = (g, p, y) \<Longrightarrow>
    multi_step t s (s \<lparr> mc_placer := p, mc_pc := (mc_pc s)(c := McPlaced k g) \<rparr>)"
| push_task: "mc_pc s c = McPlaced k g \<Longrightarrow> c \<in> {0..<5} \<Longrightarrow>
    multi_step t s (s \<lparr> mc_queues := queue_add (mc_queues s) g (int k), mc_pc := (mc_pc s)(c := McPushed k) \<rparr>)"
| count_task: "mc_pc s c = McPushed k \<Longrightarrow> c \<in> {0..<5} \<Longrightarrow>
    multi_step t s (s \<lparr> mc_total_tasks := mc_total_tasks s + 1, mc_pc := (mc_pc s)(c := McTasks (k + 1)) \<rparr>)"
| end_client: "mc_pc s c = McTasks 10 \<Longrightarrow> c \<in> {0..<5} \<Longrightarrow>
    multi_step t s (s \<lparr> mc_placer := release_client (mc_placer s) c, mc_pc := (mc_pc s)(c := McDone) \<rparr>)"

fun pushed :: "McPc \<Rightarrow> nat" where
  "pushed McStart = 0"
| "pushed (McTasks k) = k"
| "pushed (McPlaced k g) = k"
| "pushed (McPushed k) = k + 1"
| "pushed McDone = 10"

fun counted :: "McPc \<Rightarrow> nat" where
  "counted (McPushed k) = k"
| "counted pc = pushed pc"

definition multi_inv :: "GpuTopology \<Rightarrow> MultiClient \<Rightarrow> bool" where
  "multi_inv t s \<longleftrightarrow> total_queued t (mc_queues s) = (\<Sum>c = 0..<5. pushed (mc_pc s c)) \<and> mc_total_tasks s = (\<Sum>c = 0..<5. counted (mc_pc s c)) \<and>
     (\<forall>c k g. mc_pc s c = McPlaced k g \<longrightarrow> in_range (num_gpus t) g)"

lemma sum_client_upd: "c \<in> {0..<5} \<Longrightarrow> (\<Sum>i = 0..<5. f ((pc(c := v)) i)) + f (pc c) = (\<Sum>i = (0 :: int)..<5. f (pc i)) + (f v :: nat)"
proof -
  assume c: "c \<in> {0..<5}"
  have "(\<Sum>i \<in> {0..<5} - {c}. f ((pc(c := v)) i)) = (\<Sum>i \<in> {0..<5} - {c}. f (pc i))" by (rule sum.cong) auto
  with sum.remove [OF _ c, of "\<lambda>i. f ((pc(c := v)) i)"] sum.remove [OF _ c, of "\<lambda>i. f (pc i)"] show ?thesis by simp
qed

lemma multi_inv_step: "multi_step t s s' \<Longrightarrow> topo_wf t \<Longrightarrow> multi_inv t s \<Longrightarrow> multi_inv t s'"
proof (induction rule: multi_step.induct)
  case (begin_client s c)
  then show ?case using sum_client_upd [of c pushed "mc_pc s" "McTasks 0"] sum_client_upd [of c counted "mc_pc s" "McTasks 0"]
    by (simp add: multi_inv_def)
next
  case (place_task s c k qd x g p y)
  then show ?case using sum_client_upd [of c pushed "mc_pc s" "McPlaced k g"] sum_client_upd [of c counted "mc_pc s" "McPlaced k g"] place_range [OF _ place_task(4)]
    by (simp add: multi_inv_def)
next
  case (push_task s c k g)
  then show ?case using sum_client_upd [of c pushed "mc_pc s" "McPushed k"] sum_client_upd [of c counted "mc_pc s" "McPushed k"]
    by (simp add: multi_inv_def total_queued_add)
next
  case (count_task s c k)
  then show ?case using sum_client_upd [of c pushed "mc_pc s" "McTasks (k + 1)"] sum_client_upd [of c counted "mc_pc s" "McTasks (k + 1)"]
    by (simp add: multi_inv_def)
next
  case (end_client s c)
  then show ?case using sum_client_upd [of c pushed "mc_pc s" McDone] sum_client_upd [of c counted "mc_pc s" McDone]
    by (simp add: multi_inv_def)
qed

text \<open>When all clients are done, fifty tasks are queued and counted, whatever the interleaving.\<close>

lemma multi_client_totals:
  assumes "topo_wf t" "(multi_step t)\<^sup>*\<^sup>* MultiClient_start s" "\<forall>c \<in> {0..<5}. mc_pc s c = McDone"
  shows "mc_total_tasks s = 50 \<and> total_queued t (mc_queues s) = 50"
proof -
  have "multi_inv t s" using assms(2)
  proof (induction rule: rtranclp_induct)
    case base
    show ?case by (simp add: multi_inv_def MultiClient_start_def total_queued_def queue_size_def)
  qed (rule multi_inv_step [OF _ assms(1)])
  with assms(3) show ?thesis by (simp add: multi_inv_def)
qed

section \<open>Properties\<close>

text \<open>C19. With placements and pushes from one thread, the placer keeps the queues balanced: after any sequence of home assignments, submissions and releases
  every submitted task is in the queue of an existing GPU, and no queue is longer than the backlog threshold unless all others are at most one shorter.\<close>

theorem placement_balanced:
  assumes "topo_wf t" "fold (client_op t) xs (Placer_init threshold, \<lambda>g. []) = (p, q)" "in_range (num_gpus t) i" "in_range (num_gpus t) j"
  shows "queue_size q i \<le> max threshold (queue_size q j + 1) \<and> total_queued t q = length (filter is_submit xs)"
proof -
  have "balanced t (Placer_init threshold, \<lambda>g. [])" by (simp add: balanced_def queue_size_def)
  from client_ops_balanced [OF assms(1) this, of xs] assms(2)
  have b: "balanced t (p, q)" "total_queued t q = length (filter is_submit xs)" by (simp_all add: total_queued_def queue_size_def)
  have "backlog_threshold (fst (fold (client_op t) xs pq)) = backlog_threshold (fst pq)" for pq
  proof (induction xs arbitrary: pq)
    case (Cons x xs)
    obtain p q where pq: "pq = (p, q)" by fastforce
    have "backlog_threshold (fst (client_op t x pq)) = backlog_threshold p"
      by (cases x) (auto simp: pq submit_one_def assign_home_def next_rr_def release_client_def dest: place_placer split: prod.splits)
    with Cons.IH pq show ?case by simp
  qed simp
  from this [of "(Placer_init threshold, \<lambda>g. [])"] have "backlog_threshold p = threshold" using assms(2) by (simp add: Placer_init_def)
  with b assms(3,4) show ?thesis by (simp add: balanced_def)
qed

theorem placement_balanced_witness:
  "\<exists>p q. minimal_main sample_topo = (p, q) \<and> queue_size q 0 \<le> max 32 (queue_size q 1 + 1) \<and> total_queued sample_topo q = 15"
proof -
  obtain p q where m: "minimal_main sample_topo = (p, q)" by fastforce
  have n: "num_gpus sample_topo = 3" by code_simp
  have "length (filter is_submit (concat (map (\<lambda>c. Assign c # map (Submit c) [0..4] @ [Release c]) [0..2]))) = 15" by code_simp
  with placement_balanced [OF topo_wf_sample m [unfolded minimal_main_ops], of 0 1] m n show ?thesis by simp
qed

end
