(* ===== verification/Spec2Isabelle.thy ===== *)
theory Spec2Isabelle
  imports Gpu_Capacity Broker_Main Owned_Handles Server_Lifecycle Gpu_Client Placement_Examples
begin

text \<open>
  A verification development for the NVLink placement library and broker.

  \<^bold>\<open>The program.\<close>  The broker accepts TCP clients and reads length-prefixed frames (\<^verbatim>\<open>src/broker_server.cpp\<close>).  A frame is a BRK1 or a BRK2 request
  (\<^verbatim>\<open>src/broker_protocol.cpp\<close>, \<^verbatim>\<open>src/brk2_protocol.cpp\<close>).  The service (\<^verbatim>\<open>src/broker_service.cpp\<close>) chooses CPU, GPU or NPU for it
  (\<^verbatim>\<open>include/backend_dispatch.h\<close>), places GPU work on a device (\<^verbatim>\<open>src/nvlink_placement.cpp\<close>), runs NPU work on the Ethos-U executor
  (\<^verbatim>\<open>src/ethosu_u85_drm_executor.cpp\<close>), and gives WASM requests to the module manager (\<^verbatim>\<open>src/wasm_sandbox.cpp\<close>).  Beside the broker there are the ADI
  server (\<^verbatim>\<open>src/adi_server.cpp\<close>), which serves vectors of five doubles with one worker thread per GPU, and the GPU runtime server
  (\<^verbatim>\<open>src/gpu_runtime_server.cpp\<close>, \<^verbatim>\<open>include/trt_model_engine.hpp\<close>), which runs TensorRT models on sixteen stream lanes per GPU.  Two more codecs,
  NXR1 (\<^verbatim>\<open>src/geospatial_frame.cpp\<close>) and MED1 (\<^verbatim>\<open>src/media_stream.cpp\<close>), stand alone.

  \<^bold>\<open>How code becomes definitions.\<close>  A struct is a record and an enum a datatype with the constructors of the source; a function is a definition of the same
  name, with a prefix (\<open>brk1_\<close>, \<open>wsm1_\<close>, \<open>adi_\<close>) where the sources use a name twice.  Fixed-width integers are words, so that they wrap.  A
  \<^verbatim>\<open>size_t\<close> that counts bytes held in memory is a natural number.  A double or float is its bit pattern.  A function that
  reports an error or throws returns \<open>'a res\<close>, with the text on the left.  Code where C++ leaves behaviour undefined returns \<open>'a run\<close>
  (theory \<open>Run_Outcome\<close>), so that its absence is a theorem.  The host's byte order is an argument wherever memory is copied.  Threads are step relations
  whose steps are the critical sections of the source, interleaved freely.

  \<^bold>\<open>Parameters.\<close>  CUDA, TensorRT, the kernel's DRM interface, the operating system's socket calls, clocks, GPU compute functions and the NaN an operation
  returns are arguments.  What a theorem needs of them is a hypothesis in its statement.

  \<^bold>\<open>The theories.\<close>
  \<^item> \<open>Prelude\<close>, \<open>Wire\<close>, \<open>Host_Order\<close>, \<open>Float64\<close>, \<open>Float64_Arith\<close>, \<open>Std_Numbers\<close>, \<open>Run_Outcome\<close>: bytes, words, floats, number conversions, and the
    locales \<open>wire_field\<close>, \<open>wire_pair\<close>, \<open>wire_repeat\<close>: what a reader and a writer of one field owe each other.
  \<^item> \<open>Broker_Protocol\<close>, \<open>Utf8\<close>, \<open>Brk2_Protocol\<close>, \<open>Wasm_Protocol\<close>, \<open>Wasm_Codec\<close>, \<open>Geospatial_Frame\<close>, \<open>Media_Stream\<close>: the codecs.  A decoder accepts exactly
    the frames its encoder produces, and returns what was encoded; the UTF-8 check accepts exactly UTF-8; for BRK2, whose fields come in any
    order, acceptance is characterised.  The flags byte of a WSM1 task request is ignored, and NXR1 frames of hosts with different byte order differ.
  \<^item> \<open>Backend_Dispatch\<close>, \<open>Nvlink_Placement\<close>, \<open>Broker_Service\<close>, \<open>Gpu_Capacity\<close>: dispatch, topology, placement and the service.  Every request is answered and
    the invariant kept; late answers are timeouts; CPU results are the doubled inputs, on every bit pattern; a task that may fall back is answered; concurrent requests never
    exceed the capacity of a GPU.  The locale \<open>lifecycle_client\<close> is what the service relies on when the WASM manager calls it back.
  \<^item> \<open>Wasm_Manager\<close>, \<open>Wasm_Hotswap\<close>: the module registry.  The locale \<open>hotswap\<close> is the abstract view of a version; in every interleaving the in-flight
    counters are exact, only idle versions are released, and a drained version can be released once its tasks have left.
  \<^item> \<open>Socket_Io\<close>, \<open>Broker_Server\<close>, \<open>Server_Lifecycle\<close>: reading and writing sockets (locale \<open>byte_reader\<close>: only the byte stream matters, not its segments),
    sessions, whose turns reap, read and handle a frame while response threads end in between (locale \<open>responder\<close>), admission of clients, listeners, starting and stopping.  Every frame taken is answered, running
    or recorded as lost; the session loop ends on every input; the listening socket is closed, in one interleaving twice.
  \<^item> \<open>Broker_Main\<close>: the options of the broker program.
  \<^item> \<open>Ethosu_Bundle\<close>, \<open>Ethosu_Executor\<close>, \<open>Owned_Handles\<close>: the bundle loader as the inverse of the documented layout, a run without undefined
    behaviour, given a documented zero point and a clock below 285 years, that closes every buffer object it created, and the locale \<open>owner\<close>: moved handles and mappings are released exactly once.
  \<^item> \<open>Adi_Server\<close>, \<open>Adi_Workers\<close>: the sessions of the ADI server and its threads.  Clients get their own answers in order; a waiting session is served
    while the server runs; a stop at the wrong moment strands one.
  \<^item> \<open>Trt_Model\<close>, \<open>Gpu_Lanes\<close>, \<open>Gpu_System\<close>, \<open>Gpu_Client\<close>: the GPU runtime.  The model store is well typed, no task is lost or answered twice, and a client's
    replies come in order.  Answers are the registered model's on the client's own payload while the calls whose results the code ignores succeed; when an
    enqueue fails, a client gets the result of another.  Loading an id again while a lane holds a context of its engine is undefined, and on a server of one
    model this is so after the first result.  The example client does not speak this protocol.
  \<^item> \<open>Placement_Examples\<close>: the two example programs of the placement library; queues stay balanced.
  \<^item> This theory: a BRK1 request from the client's encoder to the client's decoder, through server, service and both codecs.

  \<^bold>\<open>Bounds and fuel.\<close>  No definition uses fuel.  Loops over data are structural recursions; loops that wait for input are step functions (\<open>session_turn\<close>,
  \<open>adi_turn\<close>, \<open>client_turn\<close>, \<open>gpu_worker_step\<close>) that are iterated by a run relation or a list of environments.  Termination of the broker's session loop and
  progress of the ADI workers are theorems.  Exact frame theorems need lengths below \<open>2 ^ 32\<close> where the source stores a length in 32 bits.

  \<^bold>\<open>Not modelled.\<close>  Log and console output, usage texts, Windows branches and C layouts of ioctl arguments carry no behaviour the theorems speak of.
  A read without a further event is a receive timeout; that a server configured with a timeout of zero would block there is stated but not modelled.
  The memory model is sequentially consistent, and data races (on the model map of the GPU runtime and on the listening socket of the servers) are
  not given weaker meanings.  In the GPU runtime the listener, whose calls are unchecked, and the failure of stream creation are left out.  In the ADI server
  the set of client sockets is an argument of \<open>adi_stop\<close> and not shared state.  Of the tensor client script only the load request is modelled: the rest is
  numerical libraries and printing.  Tests, benchmarks, build and packaging files are not part of the program.
\<close>

section \<open>A BRK1 exchange from client to client\<close>

lemma encode_request_size:
  "encode_request_frame h r limits = Inr f \<Longrightarrow> length f \<le> max_frame_bytes limits \<and> f \<noteq> []"
  by (auto simp: encode_request_frame_def Let_def brk1_append_blob_def append_bytes_def split: if_splits)

lemma encode_response_backend:
  "encode_response_frame h (r \<lparr> rs_backend := b, rs_fell_back_to_cpu := x \<rparr>) limits = encode_response_frame h r limits"
  by (simp add: encode_response_frame_def)

text \<open>The response thread that a turn started last.\<close>

lemma job_done_last:
  assumes "ss_pending s = pending @ [(job, False)]" "ss_open s" "handle_request h f ck service (job_request job) = (Inr resp, service')"
    "write_response h (server_limits cfg) resp (job_use_brk2 job) (job_request_id job) = Inr out"
  shows "ss_output (snd (job_done h f ck cfg service s (length pending))) = ss_output s @ [out]"
  using assms by (simp add: job_done_def Let_def)

text \<open>C1. A BRK1 request makes it through the whole broker: a client encodes a valid request and sends it framed, cut into any segments; the server, on a host
  of any byte order and with a free slot, takes exactly that frame and starts a response thread for the same request; the service answers it with its
  own task id and keeps its invariant; and the frame the thread writes is one that the client decodes to this answer, except for the two backend
  fields BRK1 does not carry.\<close>

theorem brk1_end_to_end:
  assumes "encode_request_frame hc request (server_limits cfg) = Inr f" "rq_profile request = None" "rq_device_preference request = []"
    "stream True (ss_input s) = framed hc f @ rest" "ss_open s" "unfinished s < sc_max_inflight_per_client cfg" "length f < 2 ^ 32" "service_ok service"
  shows "\<exists>resp service'. handle_request hs gpu ck service request = (Inr resp, service') \<and> service_ok service' \<and> rs_task_id resp = rq_task_id request \<and>
    (let s1 = session_turn hs cfg s in
     stream True (ss_input s1) = rest \<and> ss_open s1 \<and> length (ss_pending s1) = Suc (unfinished s) \<and>
     (\<forall>out. encode_response_frame hs resp (server_limits cfg) = Inr out \<longrightarrow>
        ss_output (snd (job_done hs gpu ck cfg service s1 (unfinished s))) = ss_output s @ [framed hs out] \<and>
        decode_response_frame hc out (server_limits cfg) = Inr (resp \<lparr> rs_backend := Cpu, rs_fell_back_to_cpu := False \<rparr>)))"
proof -
  let ?job = "\<lparr> job_request = request, job_use_brk2 = False, job_request_id = 0 \<rparr>"
  have "decode_request_frame hs f (server_limits cfg) = Inr request" using assms(1-3) by (simp add: decode_request_frame_Inr_iff [where h' = hc])
  then have disp: "handle_frame hs cfg (length (reap_finished (ss_pending s))) f = Inr (Dispatch ?job)"
    using assms(6) by (simp add: handle_frame_Dispatch_iff unfinished_def)
  obtain input where input: "stream True input = rest" and turn: "session_turn hs cfg s =
      (let s = s \<lparr> ss_pending := reap_finished (ss_pending s), ss_input := input \<rparr> in
       case handle_frame hs cfg (length (ss_pending s)) f of
         Inl e \<Rightarrow> s \<lparr> ss_open := False \<rparr>
       | Inr (Reply out) \<Rightarrow> s \<lparr> ss_output := ss_output s @ [out] \<rparr>
       | Inr (Dispatch job) \<Rightarrow> s \<lparr> ss_pending := ss_pending s @ [(job, False)] \<rparr>)"
    by (rule session_turn_frame [OF assms(4) _ _ assms(7), where h = hs and cfg = cfg]) (use encode_request_size [OF assms(1)] in auto)
  define s1 where "s1 = session_turn hs cfg s"
  have s1: "stream True (ss_input s1) = rest" "ss_open s1" "ss_output s1 = ss_output s" "ss_pending s1 = reap_finished (ss_pending s) @ [(?job, False)]"
    using turn disp input assms(5) by (simp_all add: s1_def)
  obtain r service' where r: "handle_request hs gpu ck service request = (r, service')" by fastforce
  with handle_request_ok [OF assms(8) r] obtain resp where resp: "r = Inr resp" "rs_task_id resp = rq_task_id request" "service_ok service'" by auto
  have "ss_output (snd (job_done hs gpu ck cfg service s1 (unfinished s))) = ss_output s @ [framed hs out] \<and>
      decode_response_frame hc out (server_limits cfg) = Inr (resp \<lparr> rs_backend := Cpu, rs_fell_back_to_cpu := False \<rparr>)"
    if out: "encode_response_frame hs resp (server_limits cfg) = Inr out" for out
    using job_done_last [OF s1(4,2), of hs gpu ck service resp service' cfg "framed hs out"] r resp(1) out s1(3)
    by (simp add: write_response_def unfinished_def decode_response_frame_Inr_iff [where h' = hs] encode_response_backend)
  with r resp s1 show ?thesis unfolding Let_def s1_def [symmetric] by (auto simp: unfinished_def)
qed

definition brk1_sample :: BrokerRequest where
  "brk1_sample = service_task \<lparr> rq_device_preference := [] \<rparr>"

lemma brk1_sample_encodes: "\<exists>f. encode_request_frame BigEndian brk1_sample (server_limits sample_server_config) = Inr f \<and> length f < 2 ^ 32"
  by (simp add: encode_request_frame_def Let_def brk1_append_string_def brk1_append_blob_def append_bytes_def brk1_append_common_header_def validate_request_def
      brk1_sample_def service_task_def sample_server_limits ProtocolLimits_default_def BROKER_MAX_TIMEOUT_MS_def encode_doubles_as_payload_def bytes_of_string_def)

theorem brk1_end_to_end_witness:
  "\<exists>f resp service'. encode_request_frame BigEndian brk1_sample (server_limits sample_server_config) = Inr f \<and>
     handle_request LittleEndian (\<lambda>xs g. Inl ''no device'') sample_clock sample_service brk1_sample = (Inr resp, service') \<and> rs_task_id resp = ''t'' \<and>
     length (ss_pending (session_turn LittleEndian sample_server_config
       \<lparr> ss_input = [Data (framed BigEndian f)], ss_pending = [], ss_output = [], ss_open = True \<rparr>)) = 1"
proof -
  obtain f where f: "encode_request_frame BigEndian brk1_sample (server_limits sample_server_config) = Inr f" "length f < 2 ^ 32"
    using brk1_sample_encodes by blast
  let ?s = "\<lparr> ss_input = [Data (framed BigEndian f)], ss_pending = [], ss_output = [], ss_open = True \<rparr>"
  have "framed BigEndian f \<noteq> []" using encode_request_size [OF f(1)] by (simp add: framed_def)
  then have "stream True (ss_input ?s) = framed BigEndian f @ []" "unfinished ?s < sc_max_inflight_per_client sample_server_config" "unfinished ?s = 0"
    "rq_profile brk1_sample = None" "rq_device_preference brk1_sample = []" "rq_task_id brk1_sample = ''t''" "ss_open ?s"
    by (simp_all add: unfinished_def sample_server_config_def BrokerServerConfig_default_def brk1_sample_def service_task_def)
  with brk1_end_to_end [OF f(1) this(4,5,1,7,2) f(2) sample_service_ok(1), of LittleEndian "\<lambda>xs g. Inl ''no device''" sample_clock] f(1)
  show ?thesis by (auto simp: Let_def)
qed

end
